(* ===== verification/Prelude.thy ===== *)
theory Prelude
  imports Complex_Main
begin

text \<open>
  What every other theory of the development shares: the theorem collections, the JavaScript
  number type with its \<open>NaN\<close>, the remainder operator, total list reads that answer
  \<open>undefined\<close> out of range, and reachability of an event driven machine with its invariant
  rule, stated once as a locale and interpreted by each state machine.
\<close>

named_theorems state_defs \<open>definitions of the primitive state updates\<close>
named_theorems inv_intros \<open>preservation of an invariant by one operation\<close>

section \<open>Numbers\<close>

text \<open>
  JavaScript has one number type. The integral quantities of the program (milliseconds, ids,
  indices) are exact below 2^53 and are modelled as \<^typ>\<open>int\<close>; where the code can produce
  \<open>NaN\<close> (an unparsable date, a remainder by \<open>undefined\<close>) the type is
  \<^theory_text>\<open>jint\<close>, with \<^term>\<open>None\<close> for \<open>NaN\<close>. Comparisons with \<open>NaN\<close> are
  false, arithmetic with \<open>NaN\<close> is \<open>NaN\<close>.
\<close>

type_synonym jint = "int option"

fun nlift2 :: "(int \<Rightarrow> int \<Rightarrow> int) \<Rightarrow> jint \<Rightarrow> jint \<Rightarrow> jint" where
  "nlift2 f (Some a) (Some b) = Some (f a b)"
| "nlift2 f _ _ = None"

fun ncmp :: "(int \<Rightarrow> int \<Rightarrow> bool) \<Rightarrow> jint \<Rightarrow> jint \<Rightarrow> bool" where
  "ncmp r (Some a) (Some b) = r a b"
| "ncmp r _ _ = False"

lemma nlift2_None [simp]: "nlift2 f a None = None"
  by (cases a) auto

lemma ncmp_None [simp]: "\<not> ncmp r a None"
  by (cases a) auto

text \<open>The operator \<open>%\<close> keeps the sign of its left operand; a zero divisor gives \<open>NaN\<close>.\<close>

definition js_rem :: "int \<Rightarrow> int \<Rightarrow> jint" where
  "js_rem a b = (if b = 0 then None else Some (sgn a * (\<bar>a\<bar> mod \<bar>b\<bar>)))"

lemma js_rem_nonneg: "0 \<le> a \<Longrightarrow> 0 < b \<Longrightarrow> js_rem a b = Some (a mod b)"
  by (cases "a = 0") (auto simp: js_rem_def sgn_if)

lemma js_rem_bounds:
  assumes "0 \<le> a" "0 < b" "js_rem a b = Some r"
  shows "0 \<le> r \<and> r < b"
  using assms by (auto simp: js_rem_nonneg)

text \<open>\<open>x || d\<close> on a number field that may be absent: zero and absent are falsy, a negative
  number is not.\<close>

definition num_or :: "int option \<Rightarrow> int \<Rightarrow> int" where
  "num_or x d = (case x of None \<Rightarrow> d | Some v \<Rightarrow> if v = 0 then d else v)"

lemma num_or_pos: "0 < d \<Longrightarrow> (\<And>v. x = Some v \<Longrightarrow> 0 \<le> v) \<Longrightarrow> 0 < num_or x d"
  by (cases x) (force simp: num_or_def)+

section \<open>Lists\<close>

text \<open>\<open>xs[i]\<close> answers \<open>undefined\<close> out of range, \<^term>\<open>None\<close> here.\<close>

definition nth_opt :: "'a list \<Rightarrow> int \<Rightarrow> 'a option" where
  "nth_opt xs i = (if 0 \<le> i \<and> i < int (length xs) then Some (xs ! nat i) else None)"

lemma nth_opt_Some [simp]: "0 \<le> i \<Longrightarrow> i < int (length xs) \<Longrightarrow> nth_opt xs i = Some (xs ! nat i)"
  by (simp add: nth_opt_def)

lemma nth_opt_None: "nth_opt xs i = None \<longleftrightarrow> i < 0 \<or> int (length xs) \<le> i"
  by (auto simp: nth_opt_def)

lemma nth_opt_in_set: "nth_opt xs i = Some x \<Longrightarrow> x \<in> set xs"
  by (auto simp: nth_opt_def split: if_splits)

text \<open>\<open>xs.find(p)\<close>, \<open>xs.filter(f)[0]\<close>.\<close>

fun find_first :: "('a \<Rightarrow> bool) \<Rightarrow> 'a list \<Rightarrow> 'a option" where
  "find_first p [] = None"
| "find_first p (x # xs) = (if p x then Some x else find_first p xs)"

lemma find_first_Some: "find_first p xs = Some x \<Longrightarrow> x \<in> set xs \<and> p x"
  by (induction xs) (auto split: if_splits)

lemma find_first_None: "find_first p xs = None \<longleftrightarrow> (\<forall>x\<in>set xs. \<not> p x)"
  by (induction xs) auto

section \<open>Reachability\<close>

text \<open>
  A component is a set of initial states, a guard that says which events the environment can
  deliver in a state, and a step function. The states it can be in are the least set closed
  under enabled events.
\<close>

inductive reach :: "('s \<Rightarrow> bool) \<Rightarrow> ('s \<Rightarrow> 'e \<Rightarrow> bool) \<Rightarrow> ('e \<Rightarrow> 's \<Rightarrow> 's) \<Rightarrow> 's \<Rightarrow> bool"
  for init enabled step where
  reach_init: "init s \<Longrightarrow> reach init enabled step s"
| reach_step: "reach init enabled step s \<Longrightarrow> enabled s e \<Longrightarrow> reach init enabled step (step e s)"

fun run :: "('e \<Rightarrow> 's \<Rightarrow> 's) \<Rightarrow> 'e list \<Rightarrow> 's \<Rightarrow> 's" where
  "run step [] s = s"
| "run step (e # es) s = run step es (step e s)"

fun run_ok :: "('s \<Rightarrow> 'e \<Rightarrow> bool) \<Rightarrow> ('e \<Rightarrow> 's \<Rightarrow> 's) \<Rightarrow> 'e list \<Rightarrow> 's \<Rightarrow> bool" where
  "run_ok enabled step [] s = True"
| "run_ok enabled step (e # es) s = (enabled s e \<and> run_ok enabled step es (step e s))"

lemma run_append: "run step (es @ fs) s = run step fs (run step es s)"
  by (induction es arbitrary: s) auto

lemma reach_run:
  "reach init enabled step s \<Longrightarrow> run_ok enabled step es s \<Longrightarrow> reach init enabled step (run step es s)"
  by (induction es arbitrary: s) (auto intro: reach_step)

lemma reach_runI:
  "init s \<Longrightarrow> run_ok enabled step es s \<Longrightarrow> reach init enabled step (run step es s)"
  by (blast intro: reach_run reach_init)

text \<open>The interface between a machine and its invariant.\<close>

locale invariant_machine =
  fixes init :: "'s \<Rightarrow> bool"
    and enabled :: "'s \<Rightarrow> 'e \<Rightarrow> bool"
    and step :: "'e \<Rightarrow> 's \<Rightarrow> 's"
    and inv :: "'s \<Rightarrow> bool"
  assumes inv_init: "init s \<Longrightarrow> inv s"
    and inv_step: "inv s \<Longrightarrow> enabled s e \<Longrightarrow> inv (step e s)"
begin

lemma inv_reach: "reach init enabled step s \<Longrightarrow> inv s"
  by (induction rule: reach.induct) (auto intro: inv_init inv_step)

lemma inv_run: "inv s \<Longrightarrow> run_ok enabled step es s \<Longrightarrow> inv (run step es s)"
  by (induction es arbitrary: s) (auto intro: inv_step)

end

section \<open>Refinement\<close>

text \<open>
  The interface between a machine and what it promises: an abstract machine, a reading of the
  concrete states as abstract ones, and for every concrete event the abstract events it stands for
  (none, when the abstract state does not change). The steps are simulated under the invariant of
  the concrete machine.
\<close>

locale refinement = invariant_machine init enabled step inv
  for init :: "'s \<Rightarrow> bool"
    and enabled :: "'s \<Rightarrow> 'e \<Rightarrow> bool"
    and step :: "'e \<Rightarrow> 's \<Rightarrow> 's"
    and inv :: "'s \<Rightarrow> bool" +
  fixes ainit :: "'t \<Rightarrow> bool"
    and aenabled :: "'t \<Rightarrow> 'f \<Rightarrow> bool"
    and astep :: "'f \<Rightarrow> 't \<Rightarrow> 't"
    and abs :: "'s \<Rightarrow> 't"
    and ev :: "'s \<Rightarrow> 'e \<Rightarrow> 'f list"
  assumes abs_init: "init s \<Longrightarrow> ainit (abs s)"
    and abs_ok: "inv s \<Longrightarrow> enabled s e \<Longrightarrow> run_ok aenabled astep (ev s e) (abs s)"
    and abs_step: "inv s \<Longrightarrow> enabled s e \<Longrightarrow> abs (step e s) = run astep (ev s e) (abs s)"
begin

lemma abs_reach: "reach init enabled step s \<Longrightarrow> reach ainit aenabled astep (abs s)"
proof (induction rule: reach.induct)
  case (reach_init s)
  then show ?case by (intro reach.reach_init abs_init)
next
  case (reach_step s e)
  have "inv s" by (rule inv_reach) (rule reach_step.hyps)
  with reach_step show ?case by (simp add: abs_step abs_ok reach_run)
qed

text \<open>An invariant of the promise holds of every state of the machine, read abstractly.\<close>

lemma abs_invariant:
  assumes "invariant_machine ainit aenabled astep ainv" "reach init enabled step s"
  shows "ainv (abs s)"
  using invariant_machine.inv_reach [OF assms(1) abs_reach [OF assms(2)]] .

end

text \<open>An abstract machine that comes with an invariant of its own hands it down.\<close>

locale refinement_inv = refinement init enabled step inv ainit aenabled astep abs ev
    + spec: invariant_machine ainit aenabled astep ainv
  for init :: "'s \<Rightarrow> bool"
    and enabled :: "'s \<Rightarrow> 'e \<Rightarrow> bool"
    and step :: "'e \<Rightarrow> 's \<Rightarrow> 's"
    and inv :: "'s \<Rightarrow> bool"
    and ainit :: "'t \<Rightarrow> bool"
    and aenabled :: "'t \<Rightarrow> 'f \<Rightarrow> bool"
    and astep :: "'f \<Rightarrow> 't \<Rightarrow> 't"
    and abs :: "'s \<Rightarrow> 't"
    and ev :: "'s \<Rightarrow> 'e \<Rightarrow> 'f list"
    and ainv :: "'t \<Rightarrow> bool"
begin

lemma both_reach: "reach init enabled step s \<Longrightarrow> inv s \<and> ainv (abs s)"
  by (blast intro: inv_reach spec.inv_reach abs_reach)

end

sublocale refinement_inv \<subseteq> product: invariant_machine init enabled step
  "\<lambda>s. inv s \<and> (ainv (abs s))"
proof
  show "inv s \<and> ainv (abs s)" if "init s" for s
    using that by (simp add: inv_init abs_init spec.inv_init)
  show "inv (step e s) \<and> ainv (abs (step e s))"
    if "inv s \<and> ainv (abs s)" "enabled s e" for s e
    using that by (simp add: inv_step abs_step abs_ok spec.inv_run)
qed

end
