(* ===== verification/JS_String.thy ===== *)
theory JS_String
  imports Prelude "HOL-Library.Sublist"
begin

text \<open>
  JavaScript strings and the part of their library the program uses. A string is its list of
  UTF-16 code units; \<open>js ''abc''\<close> is the literal \<open>"abc"\<close>. Case folding
  (\<open>toLowerCase\<close>) depends on the Unicode tables and is an argument of the definitions that
  use it.
\<close>

type_synonym jstr = "nat list"

definition js :: "string \<Rightarrow> jstr" where
  "js s = map of_char s"

lemma js_Nil [simp]: "js [] = []"
  by (simp add: js_def)

lemma js_append: "js (a @ b) = js a @ js b"
  by (simp add: js_def)

lemma js_eq: "js a = js b \<longleftrightarrow> a = b"
  unfolding js_def by (rule inj_map_eq_map) (auto intro!: injI dest: of_char_eq_iff [THEN iffD1])

text \<open>\<open>s || d\<close> on an optional string: absent and empty are falsy.\<close>

definition str_or :: "jstr option \<Rightarrow> jstr \<Rightarrow> jstr" where
  "str_or x d = (case x of None \<Rightarrow> d | Some s \<Rightarrow> if s = [] then d else s)"

definition truthy_str :: "jstr option \<Rightarrow> bool" where
  "truthy_str x = (case x of None \<Rightarrow> False | Some s \<Rightarrow> s \<noteq> [])"

section \<open>White space and trimming\<close>

text \<open>WhiteSpace and LineTerminator of the language.\<close>

definition is_ws :: "nat \<Rightarrow> bool" where
  "is_ws c \<longleftrightarrow> 9 \<le> c \<and> c \<le> 13 \<or> c = 32 \<or> c = 0xA0 \<or> c = 0x1680 \<or> 0x2000 \<le> c \<and> c \<le> 0x200A
     \<or> c = 0x2028 \<or> c = 0x2029 \<or> c = 0x202F \<or> c = 0x205F \<or> c = 0x3000 \<or> c = 0xFEFF"

definition trim :: "jstr \<Rightarrow> jstr" where
  "trim s = rev (dropWhile is_ws (rev (dropWhile is_ws s)))"

lemma trim_Nil [simp]: "trim [] = []"
  by (simp add: trim_def)

lemma trim_empty_iff: "trim s = [] \<longleftrightarrow> (\<forall>c\<in>set s. is_ws c)"
proof
  assume "trim s = []"
  then have d: "\<forall>c\<in>set (dropWhile is_ws s). is_ws c"
    by (simp add: trim_def)
  have "dropWhile is_ws s = []"
  proof (rule ccontr)
    assume ne: "dropWhile is_ws s \<noteq> []"
    with d have "is_ws (hd (dropWhile is_ws s))" by auto
    with hd_dropWhile [OF ne] show False by simp
  qed
  then show "\<forall>c\<in>set s. is_ws c" by (simp add: dropWhile_eq_Nil_conv)
next
  assume "\<forall>c\<in>set s. is_ws c"
  then have "dropWhile is_ws s = []" by (simp add: dropWhile_eq_Nil_conv)
  then show "trim s = []" unfolding trim_def by (simp only: rev.simps dropWhile.simps)
qed

lemma dropWhile_hd_id: "s = [] \<or> \<not> P (hd s) \<Longrightarrow> dropWhile P s = s"
  by (cases s) auto

lemma trim_ends:
  assumes "trim s \<noteq> []"
  shows "\<not> is_ws (hd (trim s))" "\<not> is_ws (last (trim s))"
proof -
  let ?d = "dropWhile is_ws s"
  have d: "?d \<noteq> []" using assms unfolding trim_def by (metis dropWhile.simps(1) rev.simps(1))
  have hd: "\<not> is_ws (hd ?d)" using d by (rule hd_dropWhile)
  have r: "dropWhile is_ws (rev ?d) \<noteq> []" using assms unfolding trim_def by (metis rev.simps(1))
  show "\<not> is_ws (last (trim s))"
    using hd_dropWhile [OF r] by (simp add: trim_def last_rev)
  obtain p where p: "rev ?d = p @ dropWhile is_ws (rev ?d)"
    by (metis takeWhile_dropWhile_id)
  then have "?d = trim s @ rev p"
    unfolding trim_def by (metis rev_append rev_rev_ident)
  then have "hd ?d = hd (trim s)" using assms by (metis hd_append2)
  with hd show "\<not> is_ws (hd (trim s))" by simp
qed

lemma trim_idem [simp]: "trim (trim s) = trim s"
proof (cases "trim s = []")
  case False
  then have "dropWhile is_ws (trim s) = trim s" "dropWhile is_ws (rev (trim s)) = rev (trim s)"
    using trim_ends [of s] by (auto intro!: dropWhile_hd_id simp: hd_rev)
  then show ?thesis by (simp add: trim_def [of "trim s"])
qed simp

section \<open>Searching, slicing, joining\<close>

text \<open>\<open>s.startsWith(p)\<close>, \<open>s.includes(q)\<close>, \<open>s.indexOf(c)\<close> (\<^term>\<open>None\<close> for -1).\<close>

definition starts_with :: "jstr \<Rightarrow> jstr \<Rightarrow> bool" where
  "starts_with s p = (take (length p) s = p)"

lemma starts_with_iff: "starts_with s p \<longleftrightarrow> (\<exists>r. s = p @ r)"
  by (metis append_eq_conv_conj append_take_drop_id starts_with_def)

fun has_sub :: "jstr \<Rightarrow> jstr \<Rightarrow> bool" where
  "has_sub s q = (starts_with s q \<or> (case s of [] \<Rightarrow> False | _ # t \<Rightarrow> has_sub t q))"

declare has_sub.simps [simp del]

lemma has_sub_iff: "has_sub s q \<longleftrightarrow> (\<exists>a b. s = a @ q @ b)"
proof (induction s)
  case Nil
  then show ?case by (auto simp: has_sub.simps [of "[]"] starts_with_iff)
next
  case (Cons c s)
  have "has_sub (c # s) q \<longleftrightarrow> starts_with (c # s) q \<or> has_sub s q"
    by (simp add: has_sub.simps [of "c # s"])
  also have "\<dots> \<longleftrightarrow> (\<exists>a b. c # s = a @ q @ b)"
    unfolding Cons.IH starts_with_iff by (metis append_Cons append_Nil neq_Nil_conv list.inject)
  finally show ?case .
qed

lemma has_sub_Nil [simp]: "has_sub s []"
  by (auto simp: has_sub_iff)

fun index_of :: "nat \<Rightarrow> jstr \<Rightarrow> nat option" where
  "index_of c [] = None"
| "index_of c (d # s) = (if c = d then Some 0 else map_option Suc (index_of c s))"

lemma index_of_append:
  "c \<notin> set a \<Longrightarrow> index_of c (a @ c # b) = Some (length a)"
  by (induction a) auto

lemma index_of_None: "index_of c s = None \<longleftrightarrow> c \<notin> set s"
  by (induction s) auto

lemma index_of_Some:
  "index_of c s = Some i \<Longrightarrow> i < length s \<and> s ! i = c \<and> c \<notin> set (take i s)"
proof (induction s arbitrary: i)
  case (Cons d s)
  then show ?case by (cases i) (auto split: if_splits)
qed simp

text \<open>\<open>xs.join(sep)\<close>, \<open>s.padStart(n, c)\<close>, \<open>s.replace(/c/g, t)\<close>.\<close>

fun join :: "jstr \<Rightarrow> jstr list \<Rightarrow> jstr" where
  "join sep [] = []"
| "join sep [x] = x"
| "join sep (x # y # xs) = x @ sep @ join sep (y # xs)"

definition pad_start :: "nat \<Rightarrow> nat \<Rightarrow> jstr \<Rightarrow> jstr" where
  "pad_start n c s = replicate (n - length s) c @ s"

definition replace_all :: "nat \<Rightarrow> jstr \<Rightarrow> jstr \<Rightarrow> jstr" where
  "replace_all c t s = concat (map (\<lambda>d. if d = c then t else [d]) s)"

lemma length_pad_start: "length (pad_start n c s) = max n (length s)"
  by (simp add: pad_start_def)

section \<open>Numbers as strings\<close>

text \<open>\<open>String(n)\<close> for an integer.\<close>

fun nat_digits :: "nat \<Rightarrow> jstr" where
  "nat_digits n = (if n < 10 then [48 + n] else nat_digits (n div 10) @ [48 + n mod 10])"

declare nat_digits.simps [simp del]

definition int_str :: "int \<Rightarrow> jstr" where
  "int_str i = (if i < 0 then 45 # nat_digits (nat (- i)) else nat_digits (nat i))"

definition is_digit :: "nat \<Rightarrow> bool" where
  "is_digit c \<longleftrightarrow> 48 \<le> c \<and> c \<le> 57"

definition digits_val :: "jstr \<Rightarrow> nat" where
  "digits_val s = foldl (\<lambda>a c. 10 * a + (c - 48)) 0 s"

lemma digits_val_snoc [simp]: "digits_val (s @ [c]) = 10 * digits_val s + (c - 48)"
  by (simp add: digits_val_def)

lemma nat_digits_val [simp]: "digits_val (nat_digits n) = n"
proof (induction n rule: nat_digits.induct)
  case (1 n)
  then show ?case
    by (cases "n < 10") (auto simp: nat_digits.simps [of n] digits_val_def [of "[_]"])
qed

lemma nat_digits_set: "c \<in> set (nat_digits n) \<Longrightarrow> is_digit c"
proof (induction n rule: nat_digits.induct)
  case (1 n)
  then show ?case
    by (cases "n < 10") (auto simp: nat_digits.simps [of n] is_digit_def)
qed

lemma nat_digits_not_Nil [simp]: "nat_digits n \<noteq> []"
  by (subst nat_digits.simps) simp

lemma nat_digits_inj: "nat_digits m = nat_digits n \<longleftrightarrow> m = n"
  by (metis nat_digits_val)

lemma length_nat_digits_small: "n < 10 \<Longrightarrow> length (nat_digits n) = 1"
  by (simp add: nat_digits.simps)

lemma length_nat_digits_two: "10 \<le> n \<Longrightarrow> n < 100 \<Longrightarrow> length (nat_digits n) = 2"
  by (simp add: nat_digits.simps [of n] nat_digits.simps [of "n div 10"])

lemma int_str_nonneg: "0 \<le> i \<Longrightarrow> int_str i = nat_digits (nat i)"
  by (simp add: int_str_def)

lemma int_str_set: "c \<in> set (int_str i) \<Longrightarrow> is_digit c \<or> c = 45"
  by (auto simp: int_str_def split: if_splits dest: nat_digits_set)

lemma int_str_not_Nil [simp]: "int_str i \<noteq> []"
  by (simp add: int_str_def)

lemma int_str_inj: "int_str i = int_str j \<longleftrightarrow> i = j"
proof
  have hd: "hd (nat_digits n) \<noteq> 45" for n
    using nat_digits_set [of "hd (nat_digits n)" n] by (auto simp: is_digit_def)
  assume "int_str i = int_str j"
  then show "i = j"
    by (auto simp: int_str_def nat_digits_inj split: if_splits) (metis hd list.sel(1))+
qed simp

text \<open>Numeric results of parsing: \<open>NaN\<close>, an infinity, or a value (rounding to a double is
  ignored).\<close>

datatype jsnum = NaN | Inf bool | Fin rat

definition num_truthy :: "jsnum \<Rightarrow> bool" where
  "num_truthy v = (case v of NaN \<Rightarrow> False | Inf _ \<Rightarrow> True | Fin r \<Rightarrow> r \<noteq> 0)"

definition neg_num :: "bool \<Rightarrow> jsnum \<Rightarrow> jsnum" where
  "neg_num n v = (if n then (case v of NaN \<Rightarrow> NaN | Inf b \<Rightarrow> Inf (\<not> b) | Fin r \<Rightarrow> Fin (- r)) else v)"

text \<open>The longest unsigned decimal literal at the start of a string, with what follows it.\<close>

definition exponent_part :: "rat \<Rightarrow> jstr \<Rightarrow> rat \<times> jstr" where
  "exponent_part v s = (case s of
     e # r \<Rightarrow>
       (if e = 101 \<or> e = 69 then
          let neg = (case r of c # _ \<Rightarrow> c = 45 | [] \<Rightarrow> False);
              r' = (case r of c # t \<Rightarrow> if c = 43 \<or> c = 45 then t else r | [] \<Rightarrow> r);
              d = takeWhile is_digit r'
          in if d = [] then (v, s)
             else (if neg then v / 10 ^ digits_val d else v * 10 ^ digits_val d,
                   dropWhile is_digit r')
        else (v, s))
   | [] \<Rightarrow> (v, s))"

definition decimal_prefix :: "jstr \<Rightarrow> (rat \<times> jstr) option" where
  "decimal_prefix s =
     (let i = takeWhile is_digit s; r = dropWhile is_digit s in
      case r of
        c # r1 \<Rightarrow>
          (if c = 46 then
             let f = takeWhile is_digit r1; r2 = dropWhile is_digit r1 in
             if i = [] \<and> f = [] then None
             else Some (exponent_part (of_nat (digits_val (i @ f)) / 10 ^ length f) r2)
           else if i = [] then None
           else Some (exponent_part (of_nat (digits_val i)) r))
      | [] \<Rightarrow> if i = [] then None else Some (of_nat (digits_val i), []))"

definition split_sign :: "jstr \<Rightarrow> bool \<times> jstr" where
  "split_sign s = (case s of c # r \<Rightarrow> if c = 45 then (True, r) else if c = 43 then (False, r) else (False, s)
                   | [] \<Rightarrow> (False, s))"

text \<open>\<open>parseFloat(s)\<close> reads the longest numeric prefix; \<open>Number(s)\<close> wants the whole trimmed
  string to be a literal and reads the empty one as zero.\<close>

definition parse_float :: "jstr \<Rightarrow> jsnum" where
  "parse_float s =
     (let (n, t) = split_sign (dropWhile is_ws s) in
      if starts_with t (js ''Infinity'') then neg_num n (Inf True)
      else case decimal_prefix t of None \<Rightarrow> NaN | Some (v, _) \<Rightarrow> neg_num n (Fin v))"

definition hex_digit :: "nat \<Rightarrow> nat option" where
  "hex_digit c = (if is_digit c then Some (c - 48)
     else if 97 \<le> c \<and> c \<le> 102 then Some (c - 87)
     else if 65 \<le> c \<and> c \<le> 70 then Some (c - 55) else None)"

definition radix_num :: "nat \<Rightarrow> jstr \<Rightarrow> jsnum" where
  "radix_num b s =
     (if s \<noteq> [] \<and> (\<forall>c\<in>set s. case hex_digit c of None \<Rightarrow> False | Some d \<Rightarrow> d < b)
      then Fin (of_nat (foldl (\<lambda>a c. b * a + the (hex_digit c)) 0 s)) else NaN)"

definition js_number :: "jstr \<Rightarrow> jsnum" where
  "js_number s =
     (let t = trim s; (n, u) = split_sign t in
      if t = [] then Fin 0
      else if take 2 t = js ''0x'' \<or> take 2 t = js ''0X'' then radix_num 16 (drop 2 t)
      else if take 2 t = js ''0o'' \<or> take 2 t = js ''0O'' then radix_num 8 (drop 2 t)
      else if take 2 t = js ''0b'' \<or> take 2 t = js ''0B'' then radix_num 2 (drop 2 t)
      else if u = js ''Infinity'' then neg_num n (Inf True)
      else case decimal_prefix u of Some (v, []) \<Rightarrow> neg_num n (Fin v) | _ \<Rightarrow> NaN)"

lemma decimal_prefix_digits:
  assumes "s \<noteq> []" "\<forall>c\<in>set s. is_digit c"
  shows "decimal_prefix s = Some (of_nat (digits_val s), [])"
proof -
  have t: "takeWhile is_digit s = s" and d: "dropWhile is_digit s = []"
    using assms(2) by (simp_all add: takeWhile_eq_all_conv dropWhile_eq_Nil_conv)
  show ?thesis unfolding decimal_prefix_def Let_def t d using assms(1) by simp
qed

text \<open>A digit string followed by something that continues neither digits, fraction nor exponent.\<close>

definition number_stop :: "jstr \<Rightarrow> bool" where
  "number_stop r \<longleftrightarrow> (case r of [] \<Rightarrow> True | c # _ \<Rightarrow> \<not> is_digit c \<and> c \<noteq> 46 \<and> c \<noteq> 101 \<and> c \<noteq> 69)"

lemma span_digits:
  assumes "\<forall>c\<in>set d. is_digit c" "number_stop r"
  shows "takeWhile is_digit (d @ r) = d" "dropWhile is_digit (d @ r) = r"
  using assms by (cases r; simp add: number_stop_def)+

lemma decimal_prefix_stop:
  assumes "d \<noteq> []" "\<forall>c\<in>set d. is_digit c" "number_stop r"
  shows "decimal_prefix (d @ r) = Some (of_nat (digits_val d), r)"
  unfolding decimal_prefix_def Let_def span_digits [OF assms(2,3)]
  using assms(1,3) by (cases r) (auto simp: number_stop_def exponent_part_def)

lemma digit_not_ws: "is_digit c \<Longrightarrow> \<not> is_ws c"
  by (auto simp: is_digit_def is_ws_def)

lemma trim_no_ws:
  assumes "\<forall>c\<in>set s. \<not> is_ws c"
  shows "trim s = s"
proof (cases "s = []")
  case False
  then have "\<not> is_ws (hd s)" "\<not> is_ws (hd (rev s))" using assms by (auto simp: hd_rev)
  then show ?thesis by (simp add: trim_def dropWhile_hd_id)
qed simp

text \<open>Reading back a printed non-negative integer.\<close>

lemma nat_digits_tail: "c \<in> set (nat_digits n) \<Longrightarrow> c \<le> 57"
  by (drule nat_digits_set) (simp add: is_digit_def)

lemma take_not_prefix:
  fixes s :: jstr
  assumes "\<forall>c\<in>set s. c \<le> 57" "57 < b"
  shows "take 2 s \<noteq> [a, b]"
proof
  assume "take 2 s = [a, b]"
  then have "b \<in> set s" by (metis in_set_takeD list.set_intros)
  with assms show False by auto
qed

lemma radix_prefixes:
  "js ''0x'' = [48, 120]" "js ''0X'' = [48, 88]" "js ''0o'' = [48, 111]" "js ''0O'' = [48, 79]"
  "js ''0b'' = [48, 98]" "js ''0B'' = [48, 66]" "hd (js ''Infinity'') = 73"
  by code_simp+

lemma js_number_int_str:
  assumes "0 \<le> i"
  shows "js_number (int_str i) = Fin (of_int i)"
proof -
  define s where "s = nat_digits (nat i)"
  have i: "int_str i = s" using assms by (simp add: int_str_nonneg s_def)
  have ne: "s \<noteq> []" by (simp add: s_def)
  have dig: "\<forall>c\<in>set s. is_digit c" by (auto simp: s_def dest: nat_digits_set)
  then have le: "\<forall>c\<in>set s. c \<le> 57" by (simp add: is_digit_def)
  have t: "trim s = s" using dig by (intro trim_no_ws) (auto dest: digit_not_ws)
  have sg: "split_sign s = (False, s)"
    using dig ne by (cases s) (auto simp: split_sign_def is_digit_def)
  have "hd s \<le> 57" using le ne by auto
  then have "hd s \<noteq> hd (js ''Infinity'')" by (simp add: radix_prefixes(7))
  then have inf: "s \<noteq> js ''Infinity''" by blast
  have v: "digits_val s = nat i" by (simp add: s_def)
  have pre: "take 2 s \<noteq> [48, b]" if "57 < b" for b by (rule take_not_prefix [OF le that])
  have dp: "decimal_prefix s = Some (of_nat (nat i), [])"
    using decimal_prefix_digits [OF ne dig] by (simp add: v)
  show ?thesis
    unfolding js_number_def Let_def i t sg prod.case radix_prefixes(1-6) dp
    using ne inf assms by (simp add: pre neg_num_def)
qed

lemma js_number_neg:
  assumes "i < 0"
  shows "js_number (int_str i) = Fin (of_int i)"
proof -
  define s where "s = nat_digits (nat (- i))"
  have i: "int_str i = 45 # s" using assms by (simp add: int_str_def s_def)
  have ne: "s \<noteq> []" by (simp add: s_def)
  have dig: "\<forall>c\<in>set s. is_digit c" by (auto simp: s_def dest: nat_digits_set)
  have "\<not> is_ws 45" by (simp add: is_ws_def)
  then have t: "trim (45 # s) = 45 # s" using dig by (intro trim_no_ws) (auto dest: digit_not_ws)
  have "hd s \<le> 57" using dig ne by (cases s) (auto simp: is_digit_def)
  then have "hd s \<noteq> hd (js ''Infinity'')" by (simp add: radix_prefixes(7))
  then have inf: "s \<noteq> js ''Infinity''" by blast
  have "take 2 (45 # s) \<noteq> 48 # b" for b by (simp add: numeral_2_eq_2)
  moreover have "decimal_prefix s = Some (of_nat (nat (- i)), [])"
    using decimal_prefix_digits [OF ne dig] by (simp add: s_def)
  ultimately show ?thesis
    unfolding js_number_def Let_def i t radix_prefixes(1-6)
    using inf assms by (simp add: split_sign_def neg_num_def)
qed

lemma js_number_int: "js_number (int_str i) = Fin (of_int i)"
  using js_number_int_str [of i] js_number_neg [of i] by (cases "0 \<le> i") auto

text \<open>\<open>parseFloat\<close> stops at the first character that is not part of the number.\<close>

lemma parse_float_stop:
  assumes "number_stop r"
  shows "parse_float (nat_digits n @ r) = Fin (of_nat n)"
proof -
  let ?d = "nat_digits n"
  have dig: "\<forall>c\<in>set ?d. is_digit c" by (auto dest: nat_digits_set)
  obtain c t where ct: "?d = c # t" by (cases ?d) auto
  have c: "is_digit c" using dig ct by simp
  have ws: "dropWhile is_ws (?d @ r) = ?d @ r" using ct digit_not_ws [OF c] by simp
  have sg: "split_sign (?d @ r) = (False, ?d @ r)" using ct c by (auto simp: split_sign_def is_digit_def)
  have "hd (js ''Infinity'') = 73" by (rule radix_prefixes)
  then have "\<not> starts_with (?d @ r) (js ''Infinity'')"
    using ct c by (auto simp: starts_with_iff is_digit_def js_def)
  then show ?thesis
    using decimal_prefix_stop [OF _ dig assms] by (simp add: parse_float_def ws sg neg_num_def)
qed

end
