(* ===== verification/Types_Model.thy ===== *)
theory Types_Model
  imports JS_String
begin

text \<open>
  The data of \<^verbatim>\<open>frontend/src/lib/types.ts\<close> that the modelled code reads, field by field.
  An optional field is an \<^typ>\<open>'a option\<close>; numbers that the code treats as integers are
  \<^typ>\<open>int\<close>, the others \<^typ>\<open>rat\<close>. Fields of a device that are only printed
  (hardware and system descriptions) are left out of its record.
\<close>

record device =
  assigned_id :: int
  hostname :: jstr
  local_ip :: "jstr option"
  connected :: bool
  checkin_status :: int
  student_name :: "jstr option"
  student_num :: "jstr option"
  mac_address :: "jstr option"
  client_version :: "jstr option"

text \<open>Type \<^verbatim>\<open>CommandLog\<close>: a batch carries one child per device.\<close>

datatype command_log = CommandLog
  (cl_id: int)
  (cl_target_type: jstr)
  (cl_target_id: "int option")
  (cl_command: jstr)
  (cl_status: jstr)
  (cl_output: jstr)
  (cl_error_output: jstr)
  (cl_created_at: jstr)
  (cl_duration_ms: int)
  (cl_children: "command_log list option")

record deployment =
  dep_mode :: jstr
  node_id :: jstr
  room_name :: jstr
  cloud_url :: jstr
  token_set :: bool
  allow_insecure :: bool
  device_id_start :: int
  advertise_ip :: jstr

record room =
  room_id :: jstr
  rm_name :: jstr
  online :: bool
  devices :: "device list"
  total_commands :: "int option"
  recent_commands :: "command_log list option"

record preset =
  preset_name :: jstr
  preset_desc :: jstr
  preset_command :: jstr
  preset_color :: jstr

record net_rule =
  rule_type :: jstr
  rule_value :: jstr

record broadcast_item =
  item_id :: int
  item_page_id :: int
  item_type :: jstr
  content :: jstr
  pos_x :: rat
  pos_y :: rat
  item_width :: rat
  item_height :: rat
  font_size :: jstr
  font_color :: jstr
  font_weight :: jstr
  text_align :: jstr
  item_bg_color :: jstr
  border_radius :: jstr
  animation :: jstr
  z_index :: int
  extra_json :: jstr

record broadcast_page =
  page_id :: int
  page_mode :: jstr
  page_title :: jstr
  sort_order :: int
  duration_ms :: int
  page_bg_color :: jstr
  transition :: jstr
  items :: "broadcast_item list option"

record broadcast_font =
  font_id :: int
  font_name :: jstr
  font_filename :: jstr
  font_format :: jstr

record broadcast_config =
  active_font :: jstr
  countdown_target :: jstr
  base_url :: jstr
  reference_width :: jstr
  pushed_state :: jstr

end
