(* ===== verification/URI_Component.thy ===== *)
theory URI_Component
  imports JS_String
begin

text \<open>
  \<open>encodeURIComponent\<close> and \<open>decodeURIComponent\<close> of the language, which carry a room's identity in
  the address of the console and in the paths of proxied requests. Both throw (\<^term>\<open>None\<close>): the
  first on a lone surrogate, the second on anything that is not the encoding of well formed UTF-8.
  The main lemma is the round trip.
\<close>

section \<open>Code points\<close>

definition is_high :: "nat \<Rightarrow> bool" where
  "is_high c \<longleftrightarrow> 0xD800 \<le> c \<and> c \<le> 0xDBFF"

definition is_low :: "nat \<Rightarrow> bool" where
  "is_low c \<longleftrightarrow> 0xDC00 \<le> c \<and> c \<le> 0xDFFF"

definition scalar :: "nat \<Rightarrow> bool" where
  "scalar c \<longleftrightarrow> c < 0x110000 \<and> \<not> is_high c \<and> \<not> is_low c"

fun code_points :: "jstr \<Rightarrow> nat list option" where
  "code_points [] = Some []"
| "code_points (c # s) =
     (if is_low c then None
      else if is_high c then
        (case s of
           [] \<Rightarrow> None
         | d # t \<Rightarrow>
             (if is_low d
              then map_option ((#) (0x10000 + (c - 0xD800) * 0x400 + (d - 0xDC00))) (code_points t)
              else None))
      else map_option ((#) c) (code_points s))"

definition utf16 :: "nat \<Rightarrow> jstr" where
  "utf16 c = (if c < 0x10000 then [c]
              else [0xD800 + (c - 0x10000) div 0x400, 0xDC00 + (c - 0x10000) mod 0x400])"

definition utf8 :: "nat \<Rightarrow> nat list" where
  "utf8 c = (if c < 0x80 then [c]
     else if c < 0x800 then [0xC0 + c div 64, 0x80 + c mod 64]
     else if c < 0x10000 then [0xE0 + c div 4096, 0x80 + c div 64 mod 64, 0x80 + c mod 64]
     else [0xF0 + c div 262144, 0x80 + c div 4096 mod 64, 0x80 + c div 64 mod 64, 0x80 + c mod 64])"

section \<open>Encoding\<close>

definition uri_plain :: "nat \<Rightarrow> bool" where
  "uri_plain c \<longleftrightarrow> 48 \<le> c \<and> c \<le> 57 \<or> 65 \<le> c \<and> c \<le> 90 \<or> 97 \<le> c \<and> c \<le> 122
     \<or> c \<in> {45, 95, 46, 33, 126, 42, 39, 40, 41}"

definition hexd :: "nat \<Rightarrow> nat" where
  "hexd n = (if n < 10 then 48 + n else 55 + n)"

definition pct :: "nat \<Rightarrow> jstr" where
  "pct b = [37, hexd (b div 16), hexd (b mod 16)]"

definition enc_cp :: "nat \<Rightarrow> jstr" where
  "enc_cp c = (if uri_plain c then [c] else concat (map pct (utf8 c)))"

definition encode_uri :: "jstr \<Rightarrow> jstr option" where
  "encode_uri s = map_option (\<lambda>cs. concat (map enc_cp cs)) (code_points s)"

section \<open>Decoding\<close>

definition pct_byte :: "jstr \<Rightarrow> (nat \<times> jstr) option" where
  "pct_byte s = (case s of
     p # a # b # r \<Rightarrow>
       (if p = 37 then
          (case (hex_digit a, hex_digit b) of (Some x, Some y) \<Rightarrow> Some (16 * x + y, r) | _ \<Rightarrow> None)
        else None)
   | _ \<Rightarrow> None)"

fun conts :: "nat \<Rightarrow> jstr \<Rightarrow> (nat list \<times> jstr) option" where
  "conts 0 s = Some ([], s)"
| "conts (Suc n) s =
     (case pct_byte s of
        None \<Rightarrow> None
      | Some (b, r) \<Rightarrow>
          (if 0x80 \<le> b \<and> b < 0xC0 then map_option (\<lambda>(bs, r'). (b # bs, r')) (conts n r) else None))"

definition seq_len :: "nat \<Rightarrow> nat option" where
  "seq_len b = (if 0xC0 \<le> b \<and> b < 0xE0 then Some 1 else if 0xE0 \<le> b \<and> b < 0xF0 then Some 2
                else if 0xF0 \<le> b \<and> b < 0xF8 then Some 3 else None)"

definition utf8_val :: "nat \<Rightarrow> nat list \<Rightarrow> nat option" where
  "utf8_val b bs =
     (let n = length bs;
          lead = (if n = 1 then 0xC0 else if n = 2 then 0xE0 else 0xF0);
          low = (if n = 1 then 0x80 else if n = 2 then 0x800 else 0x10000);
          v = foldl (\<lambda>a x. a * 64 + (x - 0x80)) (b - lead) bs
      in if low \<le> v \<and> scalar v then Some v else None)"

lemma pct_byte_length: "pct_byte s = Some (b, r) \<Longrightarrow> length r < length s"
  by (auto simp: pct_byte_def split: list.splits if_splits option.splits)

lemma conts_length: "conts n s = Some (bs, r) \<Longrightarrow> length r \<le> length s"
  by (induction n arbitrary: s bs)
    (force split: option.splits if_splits dest: pct_byte_length)+

function decode_uri :: "jstr \<Rightarrow> jstr option" where
  "decode_uri [] = Some []"
| "decode_uri (c # s) =
     (if c \<noteq> 37 then map_option ((#) c) (decode_uri s)
      else case pct_byte (c # s) of
        None \<Rightarrow> None
      | Some (b, r) \<Rightarrow>
          (if b < 0x80 then map_option ((#) b) (decode_uri r)
           else case seq_len b of
             None \<Rightarrow> None
           | Some n \<Rightarrow>
               (case conts n r of
                  None \<Rightarrow> None
                | Some (bs, r') \<Rightarrow>
                    (case utf8_val b bs of
                       None \<Rightarrow> None
                     | Some v \<Rightarrow> map_option ((@) (utf16 v)) (decode_uri r')))))"
  by pat_completeness auto
termination
  by (relation "measure length") (auto dest!: pct_byte_length conts_length)

declare decode_uri.simps(2) [simp del]

section \<open>The round trip\<close>

lemma hex_hexd: "n < 16 \<Longrightarrow> hex_digit (hexd n) = Some n"
  by (auto simp: hex_digit_def hexd_def is_digit_def)

lemma pct_byte_pct: "b < 256 \<Longrightarrow> pct_byte (pct b @ s) = Some (b, s)"
  by (simp add: pct_byte_def pct_def hex_hexd)

lemma pct_byte_pct' [simp]: "b < 256 \<Longrightarrow> pct_byte (37 # hexd (b div 16) # hexd (b mod 16) # s) = Some (b, s)"
  using pct_byte_pct [of b s] by (simp add: pct_def)

lemma decode_plain: "c \<noteq> 37 \<Longrightarrow> decode_uri (c # s) = map_option ((#) c) (decode_uri s)"
  by (simp add: decode_uri.simps(2))

lemma decode_ascii: "b < 0x80 \<Longrightarrow> decode_uri (pct b @ s) = map_option ((#) b) (decode_uri s)"
  by (simp add: pct_def decode_uri.simps(2))

lemma conts_pct:
  "\<forall>b\<in>set bs. 0x80 \<le> b \<and> b < 0xC0 \<Longrightarrow> conts (length bs) (concat (map pct bs) @ s) = Some (bs, s)"
  by (induction bs) (simp_all add: pct_byte_pct)

lemma decode_seq:
  assumes "b < 256" "\<not> b < 0x80" "seq_len b = Some (length bs)" "\<forall>b\<in>set bs. 0x80 \<le> b \<and> b < 0xC0"
    and "utf8_val b bs = Some v"
  shows "decode_uri (concat (map pct (b # bs)) @ s) = map_option ((@) (utf16 v)) (decode_uri s)"
proof -
  have "pct_byte (37 # hexd (b div 16) # hexd (b mod 16) # concat (map pct bs) @ s) = Some (b, concat (map pct bs) @ s)"
    using assms(1) by simp
  then show ?thesis
    using assms(2,3,5) conts_pct [OF assms(4), of s] by (simp add: pct_def decode_uri.simps(2))
qed

lemma div64: "c div 4096 * 64 + c div 64 mod 64 = c div 64" for c :: nat
proof -
  have "c div 4096 = c div 64 div 64" by (simp add: div_mult2_eq [symmetric])
  then show ?thesis by simp
qed

lemma div4096: "c div 262144 * 64 + c div 4096 mod 64 = c div 4096" for c :: nat
proof -
  have "c div 262144 = c div 4096 div 64" by (simp add: div_mult2_eq [symmetric])
  then show ?thesis by simp
qed

lemma decode_enc_cp:
  assumes "scalar c"
  shows "decode_uri (enc_cp c @ s) = map_option ((@) (utf16 c)) (decode_uri s)"
proof -
  have one: "decode_uri (enc_cp c @ s) = map_option ((#) c) (decode_uri s)" if "c < 0x80"
  proof (cases "uri_plain c")
    case True
    then have "c \<noteq> 37" by (auto simp: uri_plain_def)
    then show ?thesis using True by (simp add: enc_cp_def decode_plain)
  next
    case False
    then show ?thesis using that by (simp add: enc_cp_def utf8_def decode_ascii)
  qed
  have np: "enc_cp c = concat (map pct (utf8 c))" if "\<not> c < 0x80"
    using that by (auto simp: enc_cp_def uri_plain_def)
  have le: "c < 0x110000" using assms by (simp add: scalar_def)
  consider (1) "c < 0x80" | (2) "0x80 \<le> c" "c < 0x800" | (3) "0x800 \<le> c" "c < 0x10000" | (4) "0x10000 \<le> c"
    by linarith
  then show ?thesis
  proof cases
    case 1
    have "((@) (utf16 c)) = ((#) c)" using 1 by (auto simp: utf16_def)
    then show ?thesis using one [OF 1] by simp
  next
    case 2
    have "c div 64 < 32" using 2 by (simp add: less_mult_imp_div_less)
    moreover have "c div 64 * 64 + c mod 64 = c" by simp
    ultimately have "utf8_val (0xC0 + c div 64) [0x80 + c mod 64] = Some c" "seq_len (0xC0 + c div 64) = Some 1"
      using 2 assms by (simp_all add: utf8_val_def seq_len_def)
    then show ?thesis
      using decode_seq [of "0xC0 + c div 64" "[0x80 + c mod 64]" c s] \<open>c div 64 < 32\<close> 2 np by (simp add: utf8_def)
  next
    case 3
    have d: "c div 4096 < 16" using 3 by (simp add: less_mult_imp_div_less)
    moreover have "(c div 4096 * 64 + c div 64 mod 64) * 64 + c mod 64 = c" unfolding div64 by simp
    ultimately have "utf8_val (0xE0 + c div 4096) [0x80 + c div 64 mod 64, 0x80 + c mod 64] = Some c"
      "seq_len (0xE0 + c div 4096) = Some 2"
      using 3 assms by (simp_all add: utf8_val_def seq_len_def)
    then show ?thesis
      using decode_seq [of "0xE0 + c div 4096" "[0x80 + c div 64 mod 64, 0x80 + c mod 64]" c s] d 3 np
      by (simp add: utf8_def)
  next
    case 4
    have d: "c div 262144 < 8" using le by (simp add: less_mult_imp_div_less)
    have "((c div 262144 * 64 + c div 4096 mod 64) * 64 + c div 64 mod 64) * 64 + c mod 64 = c"
      unfolding div4096 div64 by simp
    then have "utf8_val (0xF0 + c div 262144) [0x80 + c div 4096 mod 64, 0x80 + c div 64 mod 64, 0x80 + c mod 64] = Some c"
      "seq_len (0xF0 + c div 262144) = Some 3"
      using 4 d assms by (simp_all add: utf8_val_def seq_len_def)
    then show ?thesis
      using decode_seq [of "0xF0 + c div 262144" "[0x80 + c div 4096 mod 64, 0x80 + c div 64 mod 64, 0x80 + c mod 64]" c s]
        d 4 np by (simp add: utf8_def)
  qed
qed

definition code_unit :: "nat \<Rightarrow> bool" where
  "code_unit c \<longleftrightarrow> c < 0x10000"

lemma utf16_pair: "b < 0x400 \<Longrightarrow> utf16 (0x10000 + a * 0x400 + b) = [0xD800 + a, 0xDC00 + b]"
proof -
  assume "b < 0x400"
  then have "(a * 0x400 + b) div 0x400 = a" "(a * 0x400 + b) mod 0x400 = b" by simp_all
  then show ?thesis by (simp add: utf16_def add.assoc)
qed

lemma code_points_utf16:
  assumes "code_points s = Some cs" "\<forall>c\<in>set s. code_unit c"
  shows "concat (map utf16 cs) = s \<and> (\<forall>c\<in>set cs. scalar c)"
  using assms
proof (induction s arbitrary: cs rule: code_points.induct)
  case (2 c s)
  show ?case
  proof (cases "is_high c")
    case True
    then obtain d t where s: "s = d # t" and d: "is_low d" and c: "\<not> is_low c"
      using 2(3) by (auto split: list.splits if_splits)
    let ?v = "0x10000 + (c - 0xD800) * 0x400 + (d - 0xDC00)"
    obtain ds where ds: "code_points t = Some ds" "cs = ?v # ds"
      using 2(3) True d c s by auto
    have r: "concat (map utf16 ds) = t \<and> (\<forall>c\<in>set ds. scalar c)"
      using 2(1) [OF c True s d ds(1)] 2(4) s by simp
    have lt: "d - 0xDC00 < 0x400" using d unfolding is_low_def by linarith
    have "utf16 ?v = [c, d]"
      using utf16_pair [OF lt, of "c - 0xD800"] True d by (simp add: is_high_def is_low_def)
    moreover have "scalar ?v"
    proof -
      have "c - 0xD800 \<le> 0x3FF" using True unfolding is_high_def by linarith
      then have "?v < 0x110000" using lt by linarith
      then show ?thesis by (simp add: scalar_def is_high_def is_low_def)
    qed
    ultimately show ?thesis using r s ds(2) by simp
  next
    case False
    then have c: "\<not> is_low c" and r: "code_points s = Some (tl cs)" "cs = c # tl cs"
      using 2(3) by (auto split: if_splits)
    have "scalar c" "utf16 c = [c]" using 2(4) False c by (auto simp: scalar_def code_unit_def utf16_def)
    then show ?thesis using 2(2) [OF c False r(1)] 2(4) r(2) by (metis concat.simps(2) append_Cons append_Nil
          list.simps(9) list.set_intros(2) set_ConsD)
  qed
qed simp

lemma decode_encode:
  assumes "encode_uri s = Some e" "\<forall>c\<in>set s. code_unit c"
  shows "decode_uri e = Some s"
proof -
  obtain cs where cs: "code_points s = Some cs" "e = concat (map enc_cp cs)"
    using assms(1) by (auto simp: encode_uri_def)
  have "decode_uri (concat (map enc_cp ds)) = Some (concat (map utf16 ds))" if "\<forall>c\<in>set ds. scalar c" for ds
    using that by (induction ds) (simp_all add: decode_enc_cp)
  then show ?thesis using code_points_utf16 [OF cs(1) assms(2)] cs(2) by simp
qed

text \<open>What an encoded component cannot contain: path, query and fragment separators.\<close>

lemma hexd_plain: "n < 16 \<Longrightarrow> uri_plain (hexd n)"
  by (auto simp: hexd_def uri_plain_def)

lemma utf8_byte: "c < 0x110000 \<Longrightarrow> b \<in> set (utf8 c) \<Longrightarrow> b < 256"
proof -
  assume "c < 0x110000"
  then have "c < 0x800 \<Longrightarrow> c div 64 < 32" "c < 0x10000 \<Longrightarrow> c div 4096 < 16" "c div 262144 < 8"
    by (simp_all add: less_mult_imp_div_less)
  then show "b \<in> set (utf8 c) \<Longrightarrow> b < 256" by (auto simp: utf8_def split: if_splits)
qed

lemma enc_cp_chars: "scalar c \<Longrightarrow> x \<in> set (enc_cp c) \<Longrightarrow> uri_plain x \<or> x = 37"
  using utf8_byte [of c] by (fastforce simp: enc_cp_def pct_def scalar_def hexd_plain split: if_splits)

lemma encode_chars:
  assumes "encode_uri s = Some e" "\<forall>c\<in>set s. code_unit c" "x \<in> set e"
  shows "uri_plain x \<or> x = 37"
proof -
  obtain cs where "code_points s = Some cs" "e = concat (map enc_cp cs)"
    using assms(1) by (auto simp: encode_uri_def)
  then show ?thesis using code_points_utf16 [OF _ assms(2)] assms(3) enc_cp_chars by fastforce
qed

lemma encode_sep:
  assumes "encode_uri s = Some e" "\<forall>c\<in>set s. code_unit c"
  shows "47 \<notin> set e" "63 \<notin> set e" "35 \<notin> set e"
  using encode_chars [OF assms] by (force simp: uri_plain_def)+

lemma enc_cp_ne: "enc_cp c \<noteq> []"
  by (simp add: enc_cp_def utf8_def pct_def)

lemma encode_Nil_iff: "encode_uri s = Some e \<Longrightarrow> e = [] \<longleftrightarrow> s = []"
proof -
  assume "encode_uri s = Some e"
  then obtain cs where "code_points s = Some cs" "e = concat (map enc_cp cs)" by (auto simp: encode_uri_def)
  then show ?thesis using enc_cp_ne by (cases s; cases cs) (auto split: if_splits list.splits)
qed

lemma encode_plain: "\<forall>c\<in>set s. uri_plain c \<Longrightarrow> encode_uri s = Some s"
proof -
  have cp: "code_points s = Some s" if "\<forall>c\<in>set s. uri_plain c" for s
    using that by (induction s) (auto simp: uri_plain_def is_low_def is_high_def)
  have "concat (map enc_cp s) = s" if "\<forall>c\<in>set s. uri_plain c"
    using that by (induction s) (auto simp: enc_cp_def)
  then show "\<forall>c\<in>set s. uri_plain c \<Longrightarrow> encode_uri s = Some s" using cp by (simp add: encode_uri_def)
qed

end
