(* ===== verification/Api_Route.thy ===== *)
theory Api_Route
  imports Types_Model URI_Component
begin

text \<open>
  The client side of the administration API, \<^verbatim>\<open>frontend/src/lib/api.ts\<close>: which requests of the
  console are sent through the cloud to the chosen room (\<^verbatim>\<open>PROXIED\<close>, \<^verbatim>\<open>resolve\<close>), how an
  answer becomes a value or an error (\<^verbatim>\<open>api\<close>), the address of a screen stream
  (\<^verbatim>\<open>pages/screen.tsx\<close>), and the allow list the cloud applies to a proxied request
  (\<^verbatim>\<open>allowedRelayRequest\<close> of \<^verbatim>\<open>internal/service/federation.go\<close>).
\<close>

section \<open>Requests\<close>

text \<open>The JSON values the console sends, with the order of the keys.\<close>

datatype json = JNull | JBool bool | JNum rat | JStr jstr | JArr "json list" | JObj "(jstr \<times> json) list"

abbreviation JInt :: "int \<Rightarrow> json" where
  "JInt i \<equiv> JNum (of_int i)"

datatype body = No_body | Json json | Form_file jstr

record http =
  rq_method :: jstr
  rq_path :: jstr
  rq_body :: body

definition http_get :: "jstr \<Rightarrow> http" where
  "http_get p = \<lparr>rq_method = js ''GET'', rq_path = p, rq_body = No_body\<rparr>"

definition http_send :: "string \<Rightarrow> jstr \<Rightarrow> body \<Rightarrow> http" where
  "http_send m p b = \<lparr>rq_method = js m, rq_path = p, rq_body = b\<rparr>"

section \<open>Routing\<close>

definition tree_heads :: "jstr list" where
  "tree_heads = [js ''devices'', js ''commands'', js ''checkin'', js ''network'', js ''power'', js ''distribution'',
     js ''snapshots'']"

definition leaf_heads :: "jstr list" where
  "leaf_heads = [js ''stats'', js ''presets'', js ''settings/presets'', js ''settings/checkin'']"

text \<open>The group \<open>(\/|$)\<close> of the pattern.\<close>

definition at_boundary :: "jstr \<Rightarrow> bool" where
  "at_boundary r \<longleftrightarrow> r = [] \<or> hd r = 47"

definition under :: "jstr list \<Rightarrow> jstr \<Rightarrow> bool" where
  "under ws h \<longleftrightarrow> (\<exists>w\<in>set ws. starts_with h w \<and> at_boundary (drop (length w) h))"

definition proxied :: "jstr \<Rightarrow> bool" where
  "proxied h \<longleftrightarrow> under tree_heads h \<or> under leaf_heads h"

definition raw_path :: "jstr \<Rightarrow> jstr" where
  "raw_path p = (if starts_with p (js ''/api/'') then drop 5 p
                 else if starts_with p (js ''/'') then drop 1 p else p)"

definition split_query :: "jstr \<Rightarrow> jstr \<times> jstr" where
  "split_query raw = (case index_of 63 raw of None \<Rightarrow> (raw, []) | Some q \<Rightarrow> (take q raw, drop q raw))"

definition resolve :: "jstr \<Rightarrow> jstr \<Rightarrow> jstr option" where
  "resolve room p =
     (let raw = raw_path p; (head, query) = split_query raw in
      if room \<noteq> [] \<and> proxied head then
        map_option (\<lambda>r. js ''/api/cluster/rooms/'' @ r @ js ''/proxy/'' @ head @ query) (encode_uri room)
      else Some (if starts_with p (js ''/'') then p else js ''/api/'' @ raw))"

definition api_room_path :: "jstr \<Rightarrow> jstr \<Rightarrow> jstr option" where
  "api_room_path room p = resolve room p"

definition stream_url :: "jstr \<Rightarrow> int \<Rightarrow> bool \<Rightarrow> int \<Rightarrow> jstr option" where
  "stream_url room i single now =
     (let query = js ''?hd=0'' @ (if single then js ''&single=1&_t='' @ int_str now else []) in
      if room \<noteq> [] then
        map_option (\<lambda>r. js ''/api/cluster/rooms/'' @ r @ js ''/''
            @ (if single then js ''proxy/devices/'' @ int_str i @ js ''/screen'' else js ''screen/'' @ int_str i) @ query)
          (encode_uri room)
      else Some (js ''/api/devices/'' @ int_str i @ js ''/screen'' @ query))"

section \<open>Answers\<close>

record response =
  rs_status :: int
  rs_text :: jstr
  rs_status_text :: jstr

definition rs_ok :: "response \<Rightarrow> bool" where
  "rs_ok r \<longleftrightarrow> 200 \<le> rs_status r \<and> rs_status r \<le> 299"

datatype api_result = Value json | Api_error int jstr | Syntax_error

text \<open>\<open>data?.error || response.statusText || fallback\<close>, where only a string error is rendered.\<close>

definition text_fail :: jstr where
  "text_fail = [0x8BF7, 0x6C42, 0x5931, 0x8D25]"

definition error_field :: "json \<Rightarrow> jstr option" where
  "error_field v = (case v of
     JObj fs \<Rightarrow> (case map_of fs (js ''error'') of Some (JStr s) \<Rightarrow> Some s | _ \<Rightarrow> None)
   | _ \<Rightarrow> None)"

definition api_result :: "(jstr \<Rightarrow> json option) \<Rightarrow> response \<Rightarrow> api_result" where
  "api_result parse r =
     (case (if rs_text r = [] then Some JNull else parse (rs_text r)) of
        None \<Rightarrow> Syntax_error
      | Some v \<Rightarrow>
          (if \<not> rs_ok r
           then Api_error (rs_status r) (str_or (error_field v) (if rs_status_text r = [] then text_fail else rs_status_text r))
           else Value v))"

text \<open>An unauthorised answer sends the page to the login form, before the body is looked at.\<close>

definition api_redirects :: "jstr \<Rightarrow> response \<Rightarrow> bool" where
  "api_redirects pathname r \<longleftrightarrow> rs_status r = 401 \<and> \<not> starts_with pathname (js ''/login'')"

definition content_type :: "jstr option \<Rightarrow> body \<Rightarrow> jstr option" where
  "content_type given b =
     (case b of Json _ \<Rightarrow> (if given = None then Some (js ''application/json'') else given) | _ \<Rightarrow> given)"

section \<open>The allow list of the cloud\<close>

text \<open>What \<open>url.ParseRequestURI\<close> answers for the path of a proxied request.\<close>

record go_url =
  u_host :: jstr
  u_path :: jstr
  u_raw_path :: jstr
  u_single :: "jstr option"

definition has_suffix :: "jstr \<Rightarrow> jstr \<Rightarrow> bool" where
  "has_suffix s p \<longleftrightarrow> starts_with (rev s) (rev p)"

definition relay_trees :: "jstr list" where
  "relay_trees = [js ''/api/devices'', js ''/api/commands'', js ''/api/checkin'', js ''/api/network'', js ''/api/power'',
     js ''/api/distribution'', js ''/api/snapshots'']"

definition relay_leaves :: "jstr list" where
  "relay_leaves = [js ''/api/stats'', js ''/api/presets'', js ''/api/settings/presets'', js ''/api/settings/checkin'']"

definition methods :: "jstr list" where
  "methods = [js ''GET'', js ''POST'', js ''PUT'', js ''PATCH'', js ''DELETE'']"

definition allowed_relay_request :: "jstr \<Rightarrow> go_url option \<Rightarrow> bool" where
  "allowed_relay_request method parsed =
     (case parsed of
        None \<Rightarrow> False
      | Some u \<Rightarrow>
          (let path = u_path u in
           if u_host u \<noteq> [] \<or> u_raw_path u \<noteq> [] \<or> has_sub path (js ''..'') then False
           else if starts_with path (js ''/ws/'') then False
           else if method \<notin> set methods then False
           else if has_suffix path (js ''/screen'') then
             starts_with path (js ''/api/devices/'') \<and> method = js ''GET'' \<and> u_single u = Some (js ''1'')
           else if path = js ''/api/broadcast/sync'' then method = js ''POST''
           else case find_first (\<lambda>w. path = w \<or> starts_with path (w @ js ''/'')) relay_trees of
             Some _ \<Rightarrow> \<not> has_suffix path (js ''/upload'')
           | None \<Rightarrow> path \<in> set relay_leaves))"

text \<open>The first check of \<open>Proxy\<close>.\<close>

definition proxy_accepts :: "jstr \<Rightarrow> go_url option \<Rightarrow> bool" where
  "proxy_accepts method parsed \<longleftrightarrow> allowed_relay_request method parsed
     \<and> \<not> (case parsed of None \<Rightarrow> False | Some u \<Rightarrow> starts_with (u_path u) (js ''/api/broadcast/''))"

section \<open>Lemmas\<close>

lemma starts_with_append [simp]: "starts_with (p @ r) p"
  by (simp add: starts_with_def)

lemma starts_with_Nil [simp]: "starts_with s []"
  by (simp add: starts_with_def)

lemma has_suffix_iff: "has_suffix s p \<longleftrightarrow> (\<exists>r. s = r @ p)"
proof -
  have "has_suffix s p \<longleftrightarrow> (\<exists>r. rev s = rev p @ r)" by (simp add: has_suffix_def starts_with_iff)
  also have "\<dots> \<longleftrightarrow> (\<exists>r. s = r @ p)" by (metis rev_append rev_rev_ident)
  finally show ?thesis .
qed

lemma split_query_append: "split_query raw = (h, q) \<Longrightarrow> raw = h @ q \<and> 63 \<notin> set h \<and> (q = [] \<or> hd q = 63)"
proof (cases "index_of 63 raw")
  case None
  then show "split_query raw = (h, q) \<Longrightarrow> ?thesis" by (auto simp: split_query_def index_of_None)
next
  case (Some i)
  then have "i < length raw" "raw ! i = 63" "63 \<notin> set (take i raw)" using index_of_Some [OF Some] by auto
  then show "split_query raw = (h, q) \<Longrightarrow> ?thesis" using Some
    by (auto simp: split_query_def hd_drop_conv_nth)
qed

lemma under_cases: "under ws h \<longleftrightarrow> (\<exists>w\<in>set ws. h = w \<or> (\<exists>r. h = w @ js ''/'' @ r))"
proof -
  have "starts_with h w \<and> at_boundary (drop (length w) h) \<longleftrightarrow> h = w \<or> (\<exists>r. h = w @ js ''/'' @ r)" for w
  proof -
    have "at_boundary (drop (length w) (w @ r)) \<longleftrightarrow> r = [] \<or> (\<exists>t. r = 47 # t)" for r
      by (cases r) (auto simp: at_boundary_def)
    then show ?thesis by (auto simp: starts_with_iff js_def)
  qed
  then show ?thesis by (simp add: under_def)
qed

lemma relay_trees_map: "relay_trees = map ((@) (js ''/api/'')) tree_heads"
  by (simp add: relay_trees_def tree_heads_def js_def)

lemma relay_leaves_map: "relay_leaves = map ((@) (js ''/api/'')) leaf_heads"
  by (simp add: relay_leaves_def leaf_heads_def js_def)

lemma relay_tree_iff:
  "(find_first (\<lambda>w. js ''/api/'' @ h = w \<or> starts_with (js ''/api/'' @ h) (w @ js ''/'')) relay_trees \<noteq> None)
   \<longleftrightarrow> under tree_heads h"
  unfolding relay_trees_map under_cases by (auto simp: find_first_None starts_with_iff)

lemma relay_leaf_iff: "js ''/api/'' @ h \<in> set relay_leaves \<longleftrightarrow> h \<in> set leaf_heads"
  by (auto simp: relay_leaves_map)

text \<open>A head under a tree starts with the tree's first letter, which rules out the other families.\<close>

lemma heads_letter: "\<forall>w\<in>set tree_heads \<union> set leaf_heads. w \<noteq> [] \<and> hd w \<noteq> 98"
  by (simp add: tree_heads_def leaf_heads_def js_def)

lemma proxied_letter: "proxied h \<Longrightarrow> h \<noteq> [] \<and> hd h \<noteq> 98"
  using heads_letter unfolding proxied_def under_cases by (metis UnCI append_is_Nil_conv hd_append2)

lemma proxied_first: "proxied h \<Longrightarrow> \<not> starts_with h (js ''broadcast/'') \<and> h \<noteq> js ''broadcast/sync''"
  using proxied_letter [of h] by (auto simp: starts_with_iff js_def)

section \<open>Paths by their segments\<close>

text \<open>What a room has of its own, by the first segments of a path below \<^verbatim>\<open>/api\<close>: everything below the first
  nine names, and below two of the settings.\<close>

definition room_heads :: "jstr list" where
  "room_heads = map js [''devices'', ''commands'', ''stats'', ''checkin'', ''network'', ''power'', ''presets'', ''distribution'', ''snapshots'']"

definition room_resource :: "jstr list \<Rightarrow> bool" where
  "room_resource segs \<longleftrightarrow> (\<exists>s rest. segs = s # rest \<and> s \<in> set room_heads)
     \<or> (\<exists>s rest. segs = js ''settings'' # s # rest \<and> s \<in> {js ''presets'', js ''checkin''})"

definition segments :: "jstr list \<Rightarrow> bool" where
  "segments segs \<longleftrightarrow> segs \<noteq> [] \<and> (\<forall>s\<in>set segs. 47 \<notin> set s \<and> 63 \<notin> set s)"

abbreviation path_of :: "jstr list \<Rightarrow> jstr" where
  "path_of segs \<equiv> join (js ''/'') segs"

definition tail_of :: "jstr list \<Rightarrow> jstr" where
  "tail_of rest = (if rest = [] then [] else 47 # path_of rest)"

lemma path_Cons: "path_of (s # rest) = s @ tail_of rest"
  by (cases rest) (simp_all add: tail_of_def js_def)

lemma segmentsD: "segments (s # rest) \<Longrightarrow> 47 \<notin> set s \<and> 63 \<notin> set s \<and> (rest = [] \<or> segments rest)"
  by (auto simp: segments_def)

lemma split_slash:
  assumes "47 \<notin> set a" "47 \<notin> set b" "x = [] \<or> hd x = 47" "y = [] \<or> hd y = 47" "a @ x = b @ y"
  shows "a = b \<and> x = y"
  using assms
proof (induction a arbitrary: b)
  case Nil
  then show ?case by (cases b) auto
next
  case (Cons c a)
  then show ?case by (cases b) auto
qed

lemma tail_hd: "tail_of rest = [] \<or> hd (tail_of rest) = 47"
  by (simp add: tail_of_def)

lemma path_head:
  assumes "segments (s # rest)" "47 \<notin> set w" "y = [] \<or> hd y = 47"
  shows "path_of (s # rest) = w @ y \<longleftrightarrow> s = w \<and> tail_of rest = y"
  using split_slash [of s w "tail_of rest" y] segmentsD [OF assms(1)] assms(2,3) tail_hd by (auto simp: path_Cons)

lemma under_one:
  assumes "segments segs" "47 \<notin> set w"
  shows "(path_of segs = w \<or> (\<exists>r. path_of segs = w @ js ''/'' @ r)) \<longleftrightarrow> hd segs = w"
proof -
  obtain s rest where segs: "segs = s # rest" using assms(1) by (cases segs) (auto simp: segments_def)
  have "path_of segs = w @ [] \<longleftrightarrow> s = w \<and> tail_of rest = []"
    unfolding segs using path_head [of s rest w "[]"] assms segs by simp
  moreover have "path_of segs = w @ (47 # r) \<longleftrightarrow> s = w \<and> tail_of rest = 47 # r" for r
    unfolding segs using path_head [of s rest w "47 # r"] assms segs by simp
  moreover have "tail_of rest = [] \<or> (\<exists>r. tail_of rest = 47 # r)" by (simp add: tail_of_def)
  ultimately show ?thesis using segs by (auto simp: js_def)
qed

lemma under_two:
  assumes "segments segs" "47 \<notin> set v" "47 \<notin> set w"
  shows "(path_of segs = v @ js ''/'' @ w \<or> (\<exists>r. path_of segs = (v @ js ''/'' @ w) @ js ''/'' @ r)) \<longleftrightarrow> (\<exists>rest. segs = v # w # rest)"
proof -
  obtain s rest where segs: "segs = s # rest" using assms(1) by (cases segs) (auto simp: segments_def)
  have h: "path_of segs = v @ (47 # y) \<longleftrightarrow> s = v \<and> rest \<noteq> [] \<and> path_of rest = y" for y
    unfolding segs using path_head [of s rest v "47 # y"] assms segs by (auto simp: tail_of_def)
  have e: "v @ js ''/'' @ w = v @ 47 # w" "(v @ js ''/'' @ w) @ js ''/'' @ r = v @ 47 # (w @ js ''/'' @ r)" for r
    by (simp_all add: js_def)
  show ?thesis
  proof (cases rest)
    case Nil
    then show ?thesis unfolding e(2) unfolding e(1) h using segs by simp
  next
    case (Cons t rs)
    then have "segments rest" using segmentsD [of s rest] assms(1) segs by simp
    then have "(path_of rest = w \<or> (\<exists>r. path_of rest = w @ js ''/'' @ r)) \<longleftrightarrow> t = w"
      using under_one [of rest w] assms(3) Cons by simp
    then show ?thesis unfolding e(2) unfolding e(1) h using segs Cons by blast
  qed
qed

text \<open>Paths of one and of two segments.\<close>

lemma path_one:
  assumes "segments segs" "47 \<notin> set w"
  shows "path_of segs = w \<longleftrightarrow> segs = [w]"
proof -
  obtain s rest where segs: "segs = s # rest" using assms(1) by (cases segs) (auto simp: segments_def)
  show ?thesis using path_head [of s rest w "[]"] assms by (auto simp: segs tail_of_def split: if_splits)
qed

lemma path_two:
  assumes "segments segs" "47 \<notin> set v" "47 \<notin> set w"
  shows "path_of segs = v @ js ''/'' @ w \<longleftrightarrow> segs = [v, w]"
proof -
  obtain s rest where segs: "segs = s # rest" using assms(1) by (cases segs) (auto simp: segments_def)
  have e: "v @ js ''/'' @ w = v @ 47 # w" by (simp add: js_def)
  have "path_of segs = v @ 47 # w \<longleftrightarrow> s = v \<and> rest \<noteq> [] \<and> path_of rest = w"
    unfolding segs using path_head [of s rest v "47 # w"] assms segs by (auto simp: tail_of_def)
  moreover have "path_of rest = w \<longleftrightarrow> rest = [w]" if "rest \<noteq> []"
    using path_one [of rest w] segmentsD [of s rest] assms segs that by blast
  ultimately show ?thesis unfolding e using segs by auto
qed

lemma seg_names: "\<forall>w\<in>set room_heads. 47 \<notin> set w" "47 \<notin> set (js ''settings'')" "47 \<notin> set (js ''presets'')" "47 \<notin> set (js ''checkin'')"
  "js ''settings/presets'' = js ''settings'' @ js ''/'' @ js ''presets''" "js ''settings/checkin'' = js ''settings'' @ js ''/'' @ js ''checkin''"
proof -
  have "list_all (\<lambda>w. 47 \<notin> set w) room_heads" by code_simp
  then show "\<forall>w\<in>set room_heads. 47 \<notin> set w" by (simp only: list_all_iff)
qed (simp_all add: js_def)

lemma head_lists: "set tree_heads \<subseteq> set room_heads" "set room_heads = set tree_heads \<union> {js ''stats'', js ''presets''}"
proof -
  show "set room_heads = set tree_heads \<union> {js ''stats'', js ''presets''}"
    unfolding room_heads_def tree_heads_def by (simp only: list.map list.set) blast
  then show "set tree_heads \<subseteq> set room_heads" by blast
qed

lemma tree_segments: "segments segs \<Longrightarrow> under tree_heads (path_of segs) \<longleftrightarrow> hd segs \<in> set tree_heads"
proof -
  assume s: "segments segs"
  have "(path_of segs = w \<or> (\<exists>r. path_of segs = w @ js ''/'' @ r)) \<longleftrightarrow> hd segs = w" if w: "w \<in> set tree_heads" for w
    by (rule under_one [OF s bspec [OF seg_names(1) subsetD [OF head_lists(1) w]]])
  then show ?thesis unfolding under_cases by (simp cong: bex_cong)
qed

lemma proxied_segments:
  assumes "segments segs"
  shows "proxied (path_of segs) \<longleftrightarrow> room_resource segs"
proof -
  have ne: "segs \<noteq> []" using assms by (simp add: segments_def)
  have one: "(path_of segs = w \<or> (\<exists>r. path_of segs = w @ js ''/'' @ r)) \<longleftrightarrow> hd segs = w" if "w \<in> set room_heads" for w
    by (rule under_one [OF assms bspec [OF seg_names(1) that]])
  note two = under_two [OF assms seg_names(2)]
  have in_heads: "js ''stats'' \<in> set room_heads" "js ''presets'' \<in> set room_heads" using head_lists(2) by auto
  let ?below = "\<lambda>w. path_of segs = w \<or> (\<exists>r. path_of segs = w @ js ''/'' @ r)"
  have "under leaf_heads (path_of segs) \<longleftrightarrow>
      ?below (js ''stats'') \<or> ?below (js ''presets'') \<or> ?below (js ''settings/presets'') \<or> ?below (js ''settings/checkin'')"
    by (simp only: under_cases leaf_heads_def list.set bex_simps simp_thms)
  also have "\<dots> \<longleftrightarrow> hd segs = js ''stats'' \<or> hd segs = js ''presets''
      \<or> (\<exists>rest. segs = js ''settings'' # js ''presets'' # rest) \<or> (\<exists>rest. segs = js ''settings'' # js ''checkin'' # rest)"
    unfolding one [OF in_heads(1)] one [OF in_heads(2)] seg_names(5,6) two [OF seg_names(3)] two [OF seg_names(4)] by (rule refl)
  finally have leaf: "under leaf_heads (path_of segs) \<longleftrightarrow> hd segs = js ''stats'' \<or> hd segs = js ''presets''
      \<or> (\<exists>rest. segs = js ''settings'' # js ''presets'' # rest) \<or> (\<exists>rest. segs = js ''settings'' # js ''checkin'' # rest)" .
  have "(\<exists>s rest. segs = s # rest \<and> s \<in> set room_heads) \<longleftrightarrow> hd segs \<in> set room_heads"
    using ne by (cases segs) simp_all
  then show ?thesis unfolding proxied_def tree_segments [OF assms] leaf room_resource_def head_lists(2) by blast
qed

lemma path_plain: "segments segs \<Longrightarrow> 63 \<notin> set (path_of segs)"
proof (induction segs)
  case (Cons s segs)
  then show ?case by (cases "segs = []") (auto simp: path_Cons tail_of_def segments_def)
qed (simp add: segments_def)

lemma split_path:
  assumes "segments segs" "q = [] \<or> hd q = 63"
  shows "split_query (path_of segs @ q) = (path_of segs, q)"
proof (cases q)
  case Nil
  then show ?thesis using path_plain [OF assms(1)] by (simp add: split_query_def index_of_None [THEN iffD2])
next
  case (Cons c t)
  then have "index_of 63 (path_of segs @ q) = Some (length (path_of segs))"
    using assms path_plain [OF assms(1)] by (simp add: index_of_append)
  then show ?thesis by (simp add: split_query_def)
qed

text \<open>The last segment decides the suffix of a path.\<close>

lemma path_snoc: "path_of (segs @ [t]) = (if segs = [] then t else path_of segs @ 47 # t)"
  by (induction segs) (auto simp: path_Cons tail_of_def)

lemma path_suffix:
  assumes "segments segs" "47 \<notin> set w"
  shows "has_suffix (js ''/api/'' @ path_of segs) (47 # w) \<longleftrightarrow> last segs = w"
proof -
  obtain init t where segs: "segs = init @ [t]" using assms(1) by (metis append_butlast_last_id segments_def)
  have t: "47 \<notin> set t" using assms(1) by (simp add: segs segments_def)
  obtain pre where pre: "js ''/api/'' @ path_of segs = pre @ 47 # t"
    unfolding segs path_snoc by (cases "init = []") (auto simp: js_def)
  have "pre @ 47 # t = r @ 47 # w \<longleftrightarrow> r = pre \<and> t = w" for r
  proof
    assume "pre @ 47 # t = r @ 47 # w"
    then have "rev t @ 47 # rev pre = rev w @ 47 # rev r" by (metis append.assoc append_Cons append_Nil rev.simps(2) rev_append)
    then have "rev t = rev w \<and> 47 # rev pre = 47 # rev r" by (intro split_slash) (use t assms(2) in auto)
    then show "r = pre \<and> t = w" by simp
  qed simp
  then show ?thesis unfolding has_suffix_iff pre using segs by auto
qed

section \<open>Properties\<close>

text \<open>C21: Choosing a room changes where a request goes exactly when its path, split at the slashes, begins with one of
  the names of the room's own resources: devices, commands, stats, checkin, network, power, presets, distribution,
  snapshots, settings/presets or settings/checkin, each with everything below it and nothing that merely begins with the
  same letters. Such a request goes to the proxy of the room, with the same segments and the same query; every other one
  goes where it would go with no room, which for a path with a leading slash is the path itself. The path may be given
  with \<^verbatim>\<open>/api/\<close>, with a slash, or without.\<close>

theorem resolve_scope:
  assumes "encode_uri room = Some r" "room \<noteq> []" "segments segs" "q = [] \<or> hd q = 63"
    and "p = pre @ path_of segs @ q" "pre \<in> {js ''/api/'', js ''/'', []}"
    and "pre \<noteq> js ''/api/'' \<Longrightarrow> \<not> starts_with p (js ''/api/'')" "pre = [] \<Longrightarrow> \<not> starts_with p (js ''/'')"
  shows "resolve room p = (if room_resource segs then Some (js ''/api/cluster/rooms/'' @ r @ js ''/proxy/'' @ path_of segs @ q)
      else resolve [] p)
    \<and> resolve [] p = Some (if pre = [] then js ''/api/'' @ p else p)"
proof -
  have len: "length (js ''/api/'') = 5" "length (js ''/'') = 1" "js ''/'' \<noteq> []" "js ''/'' \<noteq> js ''/api/''" "js ''/api/'' \<noteq> []"
    by (simp_all add: js_def)
  have raw: "raw_path p = path_of segs @ q"
    using assms(5-8) len by (auto simp: raw_path_def)
  have slash: "starts_with p (js ''/'') \<longleftrightarrow> pre \<noteq> []"
    using assms(5,6,8) len by (auto simp: starts_with_def js_def)
  have split: "split_query (path_of segs @ q) = (path_of segs, q)" by (rule split_path [OF assms(3,4)])
  have "pre = [] \<Longrightarrow> p = path_of segs @ q" using assms(5) by simp
  then show ?thesis
    using assms(1,2) split slash by (auto simp: resolve_def raw proxied_segments [OF assms(3)])
qed

text \<open>C22: Which of the requests for the resources of a room the filter of the cloud lets through, with or without a
  query, when the URL parser of Go reads the path as it is written: those with one of the five methods and without two
  dots in a row, except uploads, the screen of a device other than a single picture asked for with GET, and paths below
  stats, presets, settings/presets and settings/checkin, of which only the resource itself passes.\<close>

theorem relay_admits_proxied:
  assumes "segments segs" "room_resource segs"
    and "parse (js ''/api/'' @ path_of segs @ q)
      = Some \<lparr>u_host = [], u_path = js ''/api/'' @ path_of segs, u_raw_path = [], u_single = sg\<rparr>"
  shows "proxy_accepts m (parse (js ''/api/'' @ path_of segs @ q)) \<longleftrightarrow>
     m \<in> set methods \<and> \<not> has_sub (js ''/api/'' @ path_of segs) (js ''..'') \<and>
     (if last segs = js ''screen'' then hd segs = js ''devices'' \<and> m = js ''GET'' \<and> sg = Some (js ''1'')
      else hd segs \<in> set tree_heads \<and> last segs \<noteq> js ''upload''
        \<or> segs \<in> {[js ''stats''], [js ''presets''], [js ''settings'', js ''presets''], [js ''settings'', js ''checkin'']})"
proof -
  let ?p = "js ''/api/'' @ path_of segs"
  have px: "proxied (path_of segs)" using assms(1,2) proxied_segments by blast
  have other: "\<not> starts_with ?p (js ''/ws/'')" "?p \<noteq> js ''/api/broadcast/sync''" "\<not> starts_with ?p (js ''/api/broadcast/'')"
    using proxied_first [OF px] by (auto simp: js_def starts_with_def)
  have ends: "has_suffix ?p (js ''/screen'') \<longleftrightarrow> last segs = js ''screen''" "has_suffix ?p (js ''/upload'') \<longleftrightarrow> last segs = js ''upload''"
    using path_suffix [OF assms(1), of "js ''screen''"] path_suffix [OF assms(1), of "js ''upload''"] by (simp_all add: js_def)
  have dev: "starts_with ?p (js ''/api/devices/'') \<longleftrightarrow> hd segs = js ''devices''" if "last segs = js ''screen''"
  proof -
    obtain s rest where segs: "segs = s # rest" using assms(1) by (cases segs) (auto simp: segments_def)
    have "starts_with ?p (js ''/api/devices/'') \<longleftrightarrow> (\<exists>r. path_of segs = js ''devices'' @ 47 # r)"
      by (auto simp: starts_with_iff js_def)
    also have "\<dots> \<longleftrightarrow> s = js ''devices'' \<and> rest \<noteq> []"
      using path_head [of s rest "js ''devices''"] assms(1) by (auto simp: segs tail_of_def js_def)
    also have "\<dots> \<longleftrightarrow> hd segs = js ''devices''" using that by (cases rest) (auto simp: segs js_eq)
    finally show ?thesis .
  qed
  have leaf: "path_of segs \<in> set leaf_heads \<longleftrightarrow>
      segs \<in> {[js ''stats''], [js ''presets''], [js ''settings'', js ''presets''], [js ''settings'', js ''checkin'']}"
    unfolding leaf_heads_def seg_names(5,6)
    using path_one [OF assms(1), of "js ''stats''"] path_one [OF assms(1), of "js ''presets''"]
      path_two [OF assms(1) seg_names(2,3)] path_two [OF assms(1) seg_names(2,4)] seg_names(1) head_lists(2) by simp
  have tree: "(case find_first (\<lambda>w. ?p = w \<or> starts_with ?p (w @ js ''/'')) relay_trees of Some x \<Rightarrow> A | None \<Rightarrow> B)
      = (if hd segs \<in> set tree_heads then A else B)" for A B
    using relay_tree_iff [of "path_of segs"] tree_segments [OF assms(1)]
    by (cases "find_first (\<lambda>w. ?p = w \<or> starts_with ?p (w @ js ''/'')) relay_trees") simp_all
  have names: "js ''stats'' \<noteq> js ''upload''" "js ''presets'' \<noteq> js ''upload''" "js ''checkin'' \<noteq> js ''upload''"
    "js ''stats'' \<notin> set tree_heads" "js ''presets'' \<notin> set tree_heads" "js ''settings'' \<notin> set tree_heads"
    by (simp_all add: tree_heads_def js_eq)
  have no_tree: "hd segs \<notin> set tree_heads" if "path_of segs \<in> set leaf_heads"
    using that names(4-6) unfolding leaf by auto
  show ?thesis
    unfolding assms(3) proxy_accepts_def allowed_relay_request_def Let_def option.case go_url.select_convs tree ends relay_leaf_iff
    using other dev no_tree leaf by (cases "last segs = js ''screen''") auto
qed

text \<open>An upload to the file library of a chosen room never arrives: the console proxies it and the
  cloud rejects every proxied upload.\<close>

theorem room_upload_rejected:
  assumes "encode_uri room = Some r" "room \<noteq> []"
    and "\<And>u. parse (js ''/api/distribution/upload'') = Some u \<Longrightarrow> u_path u = js ''/api/distribution/upload''"
  shows "resolve room (js ''/api/distribution/upload'') = Some (js ''/api/cluster/rooms/'' @ r @ js ''/proxy/distribution/upload'')
       \<and> \<not> proxy_accepts m (parse (js ''/api/distribution/upload''))"
proof
  have "proxied (js ''distribution/upload'')" by code_simp
  moreover have "split_query (raw_path (js ''/api/distribution/upload'')) = (js ''distribution/upload'', [])" by code_simp
  ultimately show "resolve room (js ''/api/distribution/upload'')
      = Some (js ''/api/cluster/rooms/'' @ r @ js ''/proxy/distribution/upload'')"
    using assms(1,2) by (simp add: resolve_def js_def)
  have "has_suffix (js ''/api/distribution/upload'') (js ''/upload'')"
    "\<not> has_suffix (js ''/api/distribution/upload'') (js ''/screen'')"
    "find_first (\<lambda>w. js ''/api/distribution/upload'' = w \<or> starts_with (js ''/api/distribution/upload'') (w @ js ''/'')) relay_trees
       = Some (js ''/api/distribution'')" "js ''/api/distribution/upload'' \<noteq> js ''/api/broadcast/sync''"
    by code_simp+
  then show "\<not> proxy_accepts m (parse (js ''/api/distribution/upload''))"
    using assms(3) by (auto simp: proxy_accepts_def allowed_relay_request_def Let_def split: option.splits)
qed

text \<open>A refused request never passes for a result: its answer becomes an error that carries the
  status and a message that is not empty, or the parser's exception when the body is not JSON.\<close>

theorem api_error_reported:
  assumes "\<not> rs_ok r"
  shows "(\<exists>msg. api_result parse r = Api_error (rs_status r) msg \<and> msg \<noteq> [])
       \<or> (rs_text r \<noteq> [] \<and> parse (rs_text r) = None \<and> api_result parse r = Syntax_error)"
  using assms
  by (auto simp: api_result_def str_or_def text_fail_def split: option.splits)

section \<open>Witnesses\<close>

definition demo_room :: jstr where
  "demo_room = js ''room 1''"

lemma demo_room_enc: "encode_uri demo_room = Some (js ''room%201'')"
  by (simp add: encode_uri_def demo_room_def js_def is_low_def is_high_def enc_cp_def uri_plain_def utf8_def pct_def hexd_def)

definition plain_parse :: "jstr \<Rightarrow> go_url option" where
  "plain_parse p = Some \<lparr>u_host = [], u_path = p, u_raw_path = [], u_single = None\<rparr>"

lemma demo_segments: "segments [js ''commands'']" "segments [js ''commands'', js ''7'', js ''cancel'']" "segments [js ''stats'', js ''x'']"
  "room_resource [js ''commands'']" "room_resource [js ''commands'', js ''7'', js ''cancel'']" "room_resource [js ''stats'', js ''x'']"
  by (simp_all add: segments_def room_resource_def room_heads_def) (simp_all add: js_def)

lemma resolve_scope_witness:
  "resolve demo_room (js ''/api/commands?limit=30'') = Some (js ''/api/cluster/rooms/room%201/proxy/commands?limit=30'')"
proof -
  have "demo_room \<noteq> []" "js ''/api/commands?limit=30'' = js ''/api/'' @ path_of [js ''commands''] @ js ''?limit=30''"
    by (simp_all add: demo_room_def js_def)
  then show ?thesis
    using resolve_scope [OF demo_room_enc _ demo_segments(1), of "js ''?limit=30''" "js ''/api/commands?limit=30''" "js ''/api/''"]
      demo_segments(4) by (simp add: js_def)
qed

lemma relay_admits_proxied_witness:
  "proxy_accepts (js ''POST'') (plain_parse (js ''/api/commands/7/cancel'')) \<and> \<not> proxy_accepts (js ''GET'') (plain_parse (js ''/api/stats/x''))"
proof
  have p: "js ''/api/commands/7/cancel'' = js ''/api/'' @ path_of [js ''commands'', js ''7'', js ''cancel''] @ []"
    "js ''/api/stats/x'' = js ''/api/'' @ path_of [js ''stats'', js ''x''] @ []" by (simp_all add: js_def)
  have "\<not> has_sub (js ''/api/'' @ path_of [js ''commands'', js ''7'', js ''cancel'']) (js ''..'')" "js ''POST'' \<in> set methods"
    by code_simp+
  then show "proxy_accepts (js ''POST'') (plain_parse (js ''/api/commands/7/cancel''))" unfolding p
    using relay_admits_proxied [OF demo_segments(2,5), of plain_parse "[]" None "js ''POST''"]
    by (simp add: plain_parse_def tree_heads_def js_eq)
  show "\<not> proxy_accepts (js ''GET'') (plain_parse (js ''/api/stats/x''))" unfolding p
    using relay_admits_proxied [OF demo_segments(3,6), of plain_parse "[]" None "js ''GET''"]
    by (simp add: plain_parse_def tree_heads_def js_eq)
qed

lemma room_upload_rejected_witness:
  "\<not> proxy_accepts (js ''POST'') (plain_parse (js ''/api/distribution/upload''))"
  using room_upload_rejected [OF demo_room_enc, of plain_parse] by (simp add: plain_parse_def demo_room_def js_def)

lemma api_error_reported_witness:
  "\<exists>msg. api_result (\<lambda>_. Some JNull) \<lparr>rs_status = 502, rs_text = js ''null'', rs_status_text = []\<rparr> = Api_error 502 msg \<and> msg \<noteq> []"
  using api_error_reported [of "\<lparr>rs_status = 502, rs_text = js ''null'', rs_status_text = []\<rparr>" "\<lambda>_. Some JNull"]
  by (simp add: rs_ok_def)

end
