(* ===== verification/Labels.thy ===== *)
theory Labels
  imports Api_Route
begin

text \<open>
  The small functions of \<^verbatim>\<open>frontend/src/lib/utils.ts\<close> every page prints with: labels of states,
  relative times, addresses, and the key of a device in a selection that spans rooms
  (\<^verbatim>\<open>deviceKey\<close>); and \<^verbatim>\<open>statusTone\<close> of \<^verbatim>\<open>components/ui.tsx\<close>. Chinese texts are written
  as their UTF-16 code units.
\<close>

definition dash :: jstr where
  "dash = [0x2014]"

definition status_table :: "(jstr \<times> jstr) list" where
  "status_table =
    [(js ''idle'', [0x672A, 0x8FD0, 0x884C]),
     (js ''downloading'', [0x4E0B, 0x8F7D, 0x4E2D]),
     (js ''pending'', [0x7B49, 0x5F85, 0x4E2D]),
     (js ''dispatched'', [0x5DF2, 0x6D3E, 0x53D1]),
     (js ''running'', [0x8FD0, 0x884C, 0x4E2D]),
     (js ''completed'', [0x5DF2, 0x5B8C, 0x6210]),
     (js ''failed'', [0x5931, 0x8D25]),
     (js ''timeout'', [0x8D85, 0x65F6]),
     (js ''stalled'', [0x5361, 0x4F4F]),
     (js ''cancelled'', [0x5DF2, 0x53D6, 0x6D88]),
     (js ''verifying'', [0x6821, 0x9A8C, 0x4E2D]),
     (js ''executing'', [0x540E, 0x7F6E, 0x547D, 0x4EE4]),
     (js ''stopped'', [0x5DF2, 0x505C, 0x6B62]),
     (js ''queued'', [0x7B49, 0x5F85, 0x4E2D, 0x8F6C]),
     (js ''sent'', [0x5DF2, 0x6295, 0x9012]),
     (js ''unknown'', [0x5F85, 0x6838, 0x5B9E])]"

text \<open>\<open>STATUS_LABEL[status || ""] || status || dash\<close>\<close>

definition status_label :: "jstr option \<Rightarrow> jstr" where
  "status_label st = (case map_of status_table (str_or st []) of Some l \<Rightarrow> l | None \<Rightarrow> str_or st dash)"

definition checkin_label :: "int \<Rightarrow> jstr" where
  "checkin_label st = (case nth_opt [[0x672A, 0x7B7E, 0x5230], [0x5DF2, 0x7B7E, 0x5230], [0x5DF2, 0x7B7E, 0x9000]] st of
     Some l \<Rightarrow> l | None \<Rightarrow> [0x672A, 0x77E5])"

datatype tone = T_muted | T_ok | T_bad | T_run | T_warn

definition status_tone :: "jstr option \<Rightarrow> tone" where
  "status_tone st = (case st of
     None \<Rightarrow> T_muted
   | Some x \<Rightarrow>
       (if x = js ''completed'' \<or> x = js ''online'' then T_ok
        else if x = js ''failed'' \<or> x = js ''timeout'' \<or> x = js ''stopped'' then T_bad
        else if x = js ''running'' \<or> x = js ''downloading'' \<or> x = js ''dispatched'' \<or> x = js ''executing'' then T_run
        else if x = js ''stalled'' \<or> x = js ''verifying'' then T_warn
        else T_muted))"

definition ago_sec :: jstr where "ago_sec = [0x0020, 0x79D2, 0x524D]"
definition ago_min :: jstr where "ago_min = [0x0020, 0x5206, 0x949F, 0x524D]"
definition ago_hour :: jstr where "ago_hour = [0x0020, 0x5C0F, 0x65F6, 0x524D]"
definition ago_day :: jstr where "ago_day = [0x0020, 0x5929, 0x524D]"

definition time_ago :: "(jstr \<Rightarrow> jint) \<Rightarrow> int \<Rightarrow> jstr option \<Rightarrow> jstr" where
  "time_ago date now since =
     (case since of
        None \<Rightarrow> dash
      | Some t \<Rightarrow>
          (if t = [] then dash
           else case date t of
             None \<Rightarrow> t
           | Some v \<Rightarrow>
               (let s = max 0 ((now - v) div 1000) in
                if s < 60 then int_str s @ ago_sec
                else if s < 3600 then int_str (s div 60) @ ago_min
                else if s < 86400 then int_str (s div 3600) @ ago_hour
                else int_str (s div 86400) @ ago_day)))"

definition jfield :: "json \<Rightarrow> string \<Rightarrow> json option" where
  "jfield v k = (case v of JObj fs \<Rightarrow> map_of fs (js k) | _ \<Rightarrow> None)"

fun json_truthy :: "json option \<Rightarrow> bool" where
  "json_truthy None = False"
| "json_truthy (Some JNull) = False"
| "json_truthy (Some (JBool b)) = b"
| "json_truthy (Some (JNum r)) = (r \<noteq> 0)"
| "json_truthy (Some (JStr s)) = (s \<noteq> [])"
| "json_truthy (Some (JArr _)) = True"
| "json_truthy (Some (JObj _)) = True"

text \<open>The first truthy one of the address fields of an interface.\<close>

definition iface_addr :: "json \<Rightarrow> json option" where
  "iface_addr v = find_first (\<lambda>x. json_truthy (Some x)) (List.map_filter (jfield v) [''addr'', ''ip'', ''ipv4''])"

definition parse_ip :: "(jstr \<Rightarrow> json option) \<Rightarrow> jstr option \<Rightarrow> json" where
  "parse_ip parse raw =
     (case raw of
        None \<Rightarrow> JStr []
      | Some r \<Rightarrow>
          (if r = [] then JStr []
           else case parse r of
             Some (JArr vs) \<Rightarrow>
               (case find_first (\<lambda>v. json_truthy (Some v) \<and> iface_addr v \<noteq> None) vs of
                  None \<Rightarrow> JStr []
                | Some v \<Rightarrow> (case iface_addr v of Some a \<Rightarrow> a | None \<Rightarrow> JStr []))
           | _ \<Rightarrow> JStr r))"

definition device_key :: "jstr \<Rightarrow> int \<Rightarrow> jstr" where
  "device_key room i = room @ js '':'' @ int_str i"

section \<open>Properties\<close>

lemma device_key_split:
  assumes "58 \<notin> set room"
  shows "index_of 58 (device_key room i) = Some (length room)"
    "take (length room) (device_key room i) = room" "drop (Suc (length room)) (device_key room i) = int_str i"
  using assms index_of_append [of 58 room "int_str i"] by (simp_all add: device_key_def js_def)

lemma device_key_inj:
  assumes "58 \<notin> set r" "58 \<notin> set r'" "device_key r i = device_key r' i'"
  shows "r = r' \<and> i = i'"
proof -
  have "length r = length r'"
    using device_key_split(1) [OF assms(1), of i] device_key_split(1) [OF assms(2), of i'] assms(3) by simp
  then show ?thesis using assms(3) by (simp add: device_key_def int_str_inj)
qed

text \<open>A relative time never overstates an age and is exact to its unit: the printed number times the
  unit is at most the age in whole seconds, one unit more would exceed it, and the unit is the largest
  that fits. An instant in the future counts as now.\<close>

theorem time_ago_exact:
  assumes "t \<noteq> []" "date t = Some v" "age = max 0 ((now - v) div 1000)"
  shows "\<exists>n unit lbl. time_ago date now (Some t) = int_str n @ lbl
      \<and> (unit, lbl) \<in> {(1, ago_sec), (60, ago_min), (3600, ago_hour), (86400, ago_day)}
      \<and> n * unit \<le> age \<and> age < (n + 1) * unit \<and> (1 \<le> n \<or> unit = 1)
      \<and> (\<forall>u\<in>{60, 3600, 86400}. unit < u \<longrightarrow> age < u)"
proof -
  have ex: "age div u * u \<le> age \<and> age < (age div u + 1) * u \<and> (u \<le> age \<longrightarrow> 1 \<le> age div u)" if "0 < u" for u :: int
  proof -
    have "age = age div u * u + age mod u" "0 \<le> age mod u" "age mod u < u" using that by simp_all
    then have "age div u * u \<le> age" "age < age div u * u + u" by linarith+
    moreover have "1 \<le> age div u" if "u \<le> age"
      using \<open>0 < u\<close> that zdiv_mono1 [of u age u] by simp
    ultimately show ?thesis by (simp add: distrib_right)
  qed
  have age: "0 \<le> age" by (simp add: assms(3))
  have t: "time_ago date now (Some t) = (if age < 60 then int_str age @ ago_sec
      else if age < 3600 then int_str (age div 60) @ ago_min
      else if age < 86400 then int_str (age div 3600) @ ago_hour else int_str (age div 86400) @ ago_day)"
    using assms(1,2) by (simp add: time_ago_def Let_def assms(3))
  consider (s) "age < 60" | (m) "60 \<le> age" "age < 3600" | (h) "3600 \<le> age" "age < 86400" | (d) "86400 \<le> age"
    by linarith
  then show ?thesis
  proof cases
    case s
    then show ?thesis by (intro exI [of _ age] exI [of _ 1] exI [of _ ago_sec]) (simp add: t)
  next
    case m
    then show ?thesis using ex [of 60]
      by (intro exI [of _ "age div 60"] exI [of _ 60] exI [of _ ago_min]) (simp add: t)
  next
    case h
    then show ?thesis using ex [of 3600]
      by (intro exI [of _ "age div 3600"] exI [of _ 3600] exI [of _ ago_hour]) (simp add: t)
  next
    case d
    then show ?thesis using ex [of 86400]
      by (intro exI [of _ "age div 86400"] exI [of _ 86400] exI [of _ ago_day]) (simp add: t)
  qed
qed

lemma time_ago_exact_witness: "\<exists>n unit lbl. time_ago (\<lambda>_. Some 0) 7300000 (Some (js ''x'')) = int_str n @ lbl \<and> n * unit \<le> 7300"
  using time_ago_exact [of "js ''x''" "\<lambda>_. Some 0" 0 7300 7300000] by (auto simp: js_def)

end
