(* ===== verification/Selection.thy ===== *)
theory Selection
  imports Labels
begin

text \<open>
  Choosing targets. The check boxes of the console keep a list of chosen keys and toggle one at a
  time: the fleet across rooms (\<^verbatim>\<open>toggleFleet\<close> of \<^verbatim>\<open>state.tsx\<close>) and the inline handler that
  the pages \<^verbatim>\<open>commands\<close>, \<^verbatim>\<open>network\<close>, \<^verbatim>\<open>power\<close>, \<^verbatim>\<open>distribute\<close> and \<^verbatim>\<open>broadcast\<close> share. The
  locale states what a toggle promises and proves what a sequence of clicks does; both handlers are
  interpretations.
\<close>

section \<open>The contract of a toggle\<close>

locale toggle_box =
  fixes toggle :: "'a \<Rightarrow> 'a list \<Rightarrow> 'a list"
  assumes toggle_set: "set (toggle x xs) = (if x \<in> set xs then set xs - {x} else insert x (set xs))"
    and toggle_distinct: "distinct xs \<Longrightarrow> distinct (toggle x xs)"
begin

lemma toggle_twice: "set (toggle x (toggle x xs)) = set xs"
  by (auto simp: toggle_set)

lemma toggles_distinct: "distinct xs \<Longrightarrow> distinct (fold toggle ks xs)"
  by (induction ks arbitrary: xs) (auto simp: toggle_distinct)

text \<open>After any sequence of clicks a key is chosen iff it was and was clicked an even number of times,
  or was not and was clicked an odd number of times.\<close>

lemma toggles_parity: "x \<in> set (fold toggle ks xs) \<longleftrightarrow> (x \<in> set xs) = even (count_list ks x)"
  by (induction ks arbitrary: xs) (auto simp: toggle_set)

end

section \<open>The handlers\<close>

definition toggle_fleet :: "jstr \<Rightarrow> bool option \<Rightarrow> jstr list \<Rightarrow> jstr list" where
  "toggle_fleet key on xs =
     (let has = key \<in> set xs; target = (case on of Some b \<Rightarrow> b | None \<Rightarrow> \<not> has) in
      if target \<and> \<not> has then xs @ [key]
      else if \<not> target \<and> has then filter (\<lambda>x. x \<noteq> key) xs
      else xs)"

definition toggle_pick :: "'a \<Rightarrow> 'a list \<Rightarrow> 'a list" where
  "toggle_pick x xs = (if x \<in> set xs then filter (\<lambda>y. y \<noteq> x) xs else xs @ [x])"

text \<open>\<open>Array.from(new Set(keys))\<close>: the first occurrence of every key, in order.\<close>

fun uniq :: "'a list \<Rightarrow> 'a list" where
  "uniq [] = []"
| "uniq (x # xs) = x # filter (\<lambda>y. y \<noteq> x) (uniq xs)"

definition select_fleet :: "jstr list \<Rightarrow> jstr list \<Rightarrow> jstr list" where
  "select_fleet keys xs = uniq keys"

definition clear_fleet :: "jstr list \<Rightarrow> jstr list" where
  "clear_fleet xs = []"

interpretation fleet_box: toggle_box "\<lambda>k. toggle_fleet k None"
  by unfold_locales (auto simp: toggle_fleet_def Let_def)

interpretation pick_box: toggle_box toggle_pick
  by unfold_locales (auto simp: toggle_pick_def)

lemma uniq_set [simp]: "set (uniq xs) = set xs"
  by (induction xs) auto

lemma uniq_distinct [simp]: "distinct (uniq xs)"
  by (induction xs) auto

lemma uniq_id: "distinct xs \<Longrightarrow> uniq xs = xs"
  by (induction xs) (auto simp: filter_id_conv)

lemma uniq_length: "length (uniq xs) = card (set xs)"
  by (metis distinct_card uniq_distinct uniq_set)

section \<open>The fleet\<close>

datatype fleet_ev = Toggle jstr | Force jstr bool | Select_all "jstr list" | Clear

fun fleet_step :: "fleet_ev \<Rightarrow> jstr list \<Rightarrow> jstr list" where
  "fleet_step (Toggle k) xs = toggle_fleet k None xs"
| "fleet_step (Force k b) xs = toggle_fleet k (Some b) xs"
| "fleet_step (Select_all ks) xs = select_fleet ks xs"
| "fleet_step Clear xs = clear_fleet xs"

interpretation fleet: invariant_machine "\<lambda>xs. xs = []" "\<lambda>_ _. True" fleet_step distinct
proof
  show "distinct (fleet_step e s)" if "distinct s" for s e
    using that by (cases e) (auto simp: toggle_fleet_def Let_def select_fleet_def clear_fleet_def)
qed simp

definition fleet_reach :: "jstr list \<Rightarrow> bool" where
  "fleet_reach = reach (\<lambda>xs. xs = []) (\<lambda>_ _. True) fleet_step"

lemma fleet_distinct: "fleet_reach xs \<Longrightarrow> distinct xs"
  unfolding fleet_reach_def by (rule fleet.inv_reach)

section \<open>Properties\<close>

text \<open>However its boxes are clicked, the device table never holds a key twice, and a device is
  selected iff its box has been clicked an odd number of times since it was last not selected.\<close>

theorem fleet_clicks:
  assumes "fleet_reach xs"
  shows "distinct (fold (\<lambda>k. toggle_fleet k None) ks xs)
       \<and> (k \<in> set (fold (\<lambda>k. toggle_fleet k None) ks xs) \<longleftrightarrow> (k \<in> set xs) = even (count_list ks k))"
  using fleet_box.toggles_parity [of k ks xs] fleet_box.toggles_distinct [OF fleet_distinct [OF assms], of ks] by simp

lemma fleet_clicks_witness: "js ''a:1'' \<notin> set (fold (\<lambda>k. toggle_fleet k None) [js ''a:1'', js ''a:1''] [])"
  using fleet_clicks [of "[]" "[js ''a:1'', js ''a:1'']" "js ''a:1''"] reach_init [of "\<lambda>xs. xs = []" "[]" "\<lambda>_ _. True" fleet_step]
  by (simp add: fleet_reach_def)

end
