(* ===== verification/Fleet.thy ===== *)
theory Fleet
  imports Selection
begin

text \<open>
  Operations across rooms: the flattened device list and its filter, the request that hands a
  selection to the cloud (\<^verbatim>\<open>queueFleet\<close> of \<^verbatim>\<open>components/fleet.tsx\<close>), the filter of the target
  picker, and the handler that receives it (\<^verbatim>\<open>Queue\<close> of \<^verbatim>\<open>internal/service/federation.go\<close>): its
  validation and the job it stores for each room. The order of \<open>Object.keys\<close> is the order of
  insertion, as it is for every key that is not the decimal form of an array index.
\<close>

section \<open>The device list\<close>

record fleet_device =
  fd_device :: device
  fd_room_id :: jstr
  fd_room_name :: jstr
  fd_key :: jstr

definition fleet_devices :: "room list \<Rightarrow> fleet_device list" where
  "fleet_devices rooms = concat (map (\<lambda>r. map (\<lambda>d.
     \<lparr>fd_device = d, fd_room_id = room_id r, fd_room_name = rm_name r, fd_key = device_key (room_id r) (assigned_id d)\<rparr>)
       (devices r)) rooms)"

text \<open>\<open>join\<close> writes nothing for an absent field.\<close>

definition or_empty :: "jstr option \<Rightarrow> jstr" where
  "or_empty x = (case x of None \<Rightarrow> [] | Some s \<Rightarrow> s)"

definition fleet_shown :: "(jstr \<Rightarrow> jstr) \<Rightarrow> jstr \<Rightarrow> jstr \<Rightarrow> fleet_device list \<Rightarrow> fleet_device list" where
  "fleet_shown lower query room = filter (\<lambda>d.
     if room \<noteq> [] \<and> fd_room_id d \<noteq> room then False
     else let q = lower (trim query) in
       if q = [] then True
       else has_sub (lower (join (js '' '') [fd_room_name d, hostname (fd_device d), or_empty (student_name (fd_device d)),
              or_empty (student_num (fd_device d)), int_str (assigned_id (fd_device d))])) q)"

definition select_shown_online :: "fleet_device list \<Rightarrow> jstr list \<Rightarrow> jstr list" where
  "select_shown_online shown = select_fleet (map fd_key (filter (\<lambda>d. connected (fd_device d)) shown))"

definition select_shown :: "fleet_device list \<Rightarrow> jstr list \<Rightarrow> jstr list" where
  "select_shown shown = select_fleet (map fd_key shown)"

definition picker_shown :: "(jstr \<Rightarrow> jstr) \<Rightarrow> (jstr option \<Rightarrow> jstr) \<Rightarrow> jstr \<Rightarrow> device list \<Rightarrow> device list" where
  "picker_shown lower ip query = filter (\<lambda>d. let q = lower (trim query) in
     q = [] \<or> has_sub (lower (join (js '' '') [hostname d, or_empty (student_name d), or_empty (student_num d),
       int_str (assigned_id d), ip (local_ip d)])) q)"

definition picker_online :: "device list \<Rightarrow> int list" where
  "picker_online shown = map assigned_id (filter connected shown)"

section \<open>The request\<close>

definition key_room :: "jstr \<Rightarrow> jstr" where
  "key_room key = (case index_of 58 key of Some n \<Rightarrow> take n key | None \<Rightarrow> butlast key)"

definition key_id :: "jstr \<Rightarrow> jsnum" where
  "key_id key = js_number (case index_of 58 key of Some n \<Rightarrow> drop (Suc n) key | None \<Rightarrow> key)"

fun push_target :: "jstr \<Rightarrow> 'a \<Rightarrow> (jstr \<times> 'a list) list \<Rightarrow> (jstr \<times> 'a list) list" where
  "push_target room i [] = [(room, [i])]"
| "push_target room i ((r, xs) # ts) = (if r = room then (r, xs @ [i]) # ts else (r, xs) # push_target room i ts)"

definition group_targets :: "jstr list \<Rightarrow> (jstr \<times> jsnum list) list" where
  "group_targets selection = fold (\<lambda>k. push_target (key_room k) (key_id k)) selection []"

definition num_json :: "jsnum \<Rightarrow> json" where
  "num_json v = (case v of Fin r \<Rightarrow> JNum r | _ \<Rightarrow> JNull)"

definition queue_fleet :: "jstr list \<Rightarrow> string \<Rightarrow> (jstr \<times> json) list \<Rightarrow> http" where
  "queue_fleet selection op extra =
     (let targets = group_targets selection in
      http_send ''POST'' (js ''/api/cluster/jobs'') (Json (JObj
        ([(js ''operation'', JStr (js op)),
          (js ''room_ids'', JArr (map (\<lambda>t. JStr (fst t)) targets)),
          (js ''targets'', JObj (map (\<lambda>(r, is). (r, JArr (map num_json is))) targets))] @ extra))))"

section \<open>The handler of the cloud\<close>

record queue_req =
  q_rooms :: "jstr list"
  q_targets :: "(jstr \<times> int list) list"
  q_op :: jstr
  q_command :: jstr
  q_files :: "jstr list"
  q_save_dir :: jstr
  q_post_cmd :: jstr
  q_rules :: "net_rule list"
  q_action :: jstr
  q_run_at :: jstr
  q_note :: jstr

text \<open>Decoding of the body: an absent field or \<open>null\<close> leaves the zero value, a value of another type
  is an error.\<close>

definition go_str :: "json option \<Rightarrow> jstr option" where
  "go_str v = (case v of None \<Rightarrow> Some [] | Some JNull \<Rightarrow> Some [] | Some (JStr s) \<Rightarrow> Some s | _ \<Rightarrow> None)"

definition go_int :: "json \<Rightarrow> int option" where
  "go_int v = (case v of JNull \<Rightarrow> Some 0 | JNum r \<Rightarrow> if of_int \<lfloor>r\<rfloor> = r then Some \<lfloor>r\<rfloor> else None | _ \<Rightarrow> None)"

fun all_some :: "'a option list \<Rightarrow> 'a list option" where
  "all_some [] = Some []"
| "all_some (None # xs) = None"
| "all_some (Some x # xs) = map_option ((#) x) (all_some xs)"

definition go_list :: "(json \<Rightarrow> 'a option) \<Rightarrow> json option \<Rightarrow> 'a list option" where
  "go_list f v = (case v of None \<Rightarrow> Some [] | Some JNull \<Rightarrow> Some [] | Some (JArr xs) \<Rightarrow> all_some (map f xs) | _ \<Rightarrow> None)"

definition go_rule :: "json \<Rightarrow> net_rule option" where
  "go_rule v = (case (go_str (jfield v ''type''), go_str (jfield v ''value'')) of
     (Some t, Some x) \<Rightarrow> Some \<lparr>rule_type = t, rule_value = x\<rparr> | _ \<Rightarrow> None)"

definition go_targets :: "json option \<Rightarrow> (jstr \<times> int list) list option" where
  "go_targets v = (case v of None \<Rightarrow> Some [] | Some JNull \<Rightarrow> Some []
     | Some (JObj fs) \<Rightarrow> all_some (map (\<lambda>(k, x). map_option (Pair k) (go_list go_int (Some x))) fs) | _ \<Rightarrow> None)"

definition decode_queue :: "json \<Rightarrow> queue_req option" where
  "decode_queue v =
     (let f = jfield v; s = (\<lambda>x. go_str (Some x)) in
      Option.bind (go_list s (f ''room_ids'')) (\<lambda>rooms.
      Option.bind (go_targets (f ''targets'')) (\<lambda>ts.
      Option.bind (go_str (f ''operation'')) (\<lambda>op.
      Option.bind (go_str (f ''command'')) (\<lambda>cmd.
      Option.bind (go_list s (f ''files'')) (\<lambda>files.
      Option.bind (go_str (f ''save_dir'')) (\<lambda>dir.
      Option.bind (go_str (f ''post_cmd'')) (\<lambda>post.
      Option.bind (go_list go_rule (f ''rules'')) (\<lambda>rules.
      Option.bind (go_str (f ''action'')) (\<lambda>act.
      Option.bind (go_str (f ''run_at'')) (\<lambda>run_at.
      Option.bind (go_str (f ''note'')) (\<lambda>note.
        Some \<lparr>q_rooms = rooms, q_targets = ts, q_op = op, q_command = cmd, q_files = files, q_save_dir = dir,
          q_post_cmd = post, q_rules = rules, q_action = act, q_run_at = run_at, q_note = note\<rparr>))))))))))))"

text \<open>What the handler asks of the rest of the server: whether a snapshot is active, the stored rooms in
  order with the devices they last reported, the shell commands of the network rules, the files of the
  library, the clock, and two string functions.\<close>

record 'f queue_env =
  qe_cloud :: bool
  qe_active :: bool
  qe_stored :: "(jstr \<times> int list) list"
  qe_apply :: "net_rule list \<Rightarrow> jstr"
  qe_remove :: jstr
  qe_file :: "jstr \<Rightarrow> 'f option"
  qe_future :: "jstr \<Rightarrow> bool"
  qe_blank :: "jstr \<Rightarrow> bool"
  qe_bytes :: "jstr \<Rightarrow> nat"

datatype queue_error = Q_mode | Q_body | Q_rule | Q_operation | Q_schedule | Q_command | Q_files | Q_no_room
  | Q_unknown_room | Q_no_device | Q_bad_device

datatype 'f job = Job_broadcast jstr | Job_list "int list" jstr
  | Job_distribute "'f list" jstr jstr "int list option"
  | Job_wol "int list option" | Job_schedule "int list option" jstr jstr jstr

definition rule_ok :: "'f queue_env \<Rightarrow> net_rule \<Rightarrow> bool" where
  "rule_ok \<epsilon> r \<longleftrightarrow> \<not> qe_blank \<epsilon> (rule_value r)
     \<and> rule_type r \<in> {js ''DOMAIN'', js ''DOMAIN-SUFFIX'', js ''DOMAIN-KEYWORD''}"

definition qe_known :: "'f queue_env \<Rightarrow> jstr \<Rightarrow> bool" where
  "qe_known \<epsilon> room \<longleftrightarrow> room \<in> fst ` set (qe_stored \<epsilon>)"

definition targets_of :: "(jstr \<times> int list) list \<Rightarrow> jstr \<Rightarrow> int list" where
  "targets_of ts room = (case map_of ts room of None \<Rightarrow> [] | Some xs \<Rightarrow> xs)"

text \<open>\<open>allDevicesSelected\<close>: the request names every device of every room that reported any.\<close>

definition all_devices_selected :: "(jstr \<times> int list) list \<Rightarrow> queue_req \<Rightarrow> bool" where
  "all_devices_selected stored q \<longleftrightarrow>
     (\<exists>(room, ds)\<in>set stored. ds \<noteq> [])
   \<and> (\<forall>(room, ds)\<in>set stored. ds \<noteq> [] \<longrightarrow> room \<in> set (q_rooms q) \<and> set ds \<subseteq> set (targets_of (q_targets q) room))"

text \<open>The first rewriting: network operations become commands.\<close>

definition queue_rewrite :: "'f queue_env \<Rightarrow> queue_req \<Rightarrow> queue_error + queue_req" where
  "queue_rewrite \<epsilon> q =
     (if q_op q = js ''network_apply'' then
        (if \<exists>r\<in>set (q_rules q). \<not> rule_ok \<epsilon> r then Inl Q_rule
         else Inr (q\<lparr>q_command := qe_apply \<epsilon> (q_rules q), q_op := js ''command''\<rparr>))
      else if q_op q = js ''network_remove'' then Inr (q\<lparr>q_command := qe_remove \<epsilon>, q_op := js ''command''\<rparr>)
      else Inr q)"

definition queue_check :: "'f queue_env \<Rightarrow> queue_req \<Rightarrow> queue_error option" where
  "queue_check \<epsilon> q =
     (if q_rooms q = [] \<or> q_op q \<notin> {js ''command'', js ''distribute'', js ''wol'', js ''schedule''} then Some Q_operation
      else if q_op q = js ''schedule'' \<and> (\<not> qe_future \<epsilon> (q_run_at q)
                \<or> q_action q \<notin> {js ''shutdown'', js ''reboot'', js ''wol''}) then Some Q_schedule
      else if q_op q = js ''command'' \<and> (qe_blank \<epsilon> (q_command q) \<or> 65536 < qe_bytes \<epsilon> (q_command q)) then Some Q_command
      else if q_op q = js ''distribute'' \<and> (q_files q = [] \<or> (\<exists>f\<in>set (q_files q). qe_file \<epsilon> f = None)) then Some Q_files
      else None)"

definition room_job :: "'f queue_env \<Rightarrow> queue_req \<Rightarrow> bool \<Rightarrow> int list \<Rightarrow> 'f job" where
  "room_job \<epsilon> q snap ts =
     (let ids = (if snap then None else Some ts) in
      if q_op q = js ''command'' then
        (if snap then Job_broadcast (q_command q) else Job_list (uniq (filter (\<lambda>i. 0 < i) ts)) (q_command q))
      else if q_op q = js ''distribute'' then
        Job_distribute (map (\<lambda>f. the (qe_file \<epsilon> f)) (q_files q)) (q_save_dir q) (q_post_cmd q) ids
      else if q_op q = js ''wol'' then Job_wol ids
      else Job_schedule ids (q_action q) (q_run_at q) (q_note q))"

fun queue_rooms :: "'f queue_env \<Rightarrow> queue_req \<Rightarrow> bool \<Rightarrow> jstr list \<Rightarrow> jstr list \<Rightarrow> queue_error + (jstr \<times> 'f job) list" where
  "queue_rooms \<epsilon> q snap seen [] = Inr []"
| "queue_rooms \<epsilon> q snap seen (room # rooms) =
     (if room \<in> set seen then queue_rooms \<epsilon> q snap seen rooms
      else if \<not> qe_known \<epsilon> room then Inl Q_unknown_room
      else let ts = targets_of (q_targets q) room in
        if \<not> snap \<and> ts = [] then Inl Q_no_device
        else if \<not> snap \<and> (\<exists>t\<in>set ts. t \<le> 0) then Inl Q_bad_device
        else case queue_rooms \<epsilon> q snap (room # seen) rooms of
          Inl e \<Rightarrow> Inl e
        | Inr jobs \<Rightarrow> Inr ((room, room_job \<epsilon> q snap ts) # jobs))"

text \<open>Rooms and devices of a snapshot operation replace the ones asked for. Nothing is stored unless every
  room passes: the insertions are one transaction.\<close>

definition queue_handler :: "'f queue_env \<Rightarrow> json \<Rightarrow> queue_error + (jstr \<times> 'f job) list" where
  "queue_handler \<epsilon> v =
     (if \<not> qe_cloud \<epsilon> then Inl Q_mode
      else case decode_queue v of
        None \<Rightarrow> Inl Q_body
      | Some q0 \<Rightarrow>
          (case queue_rewrite \<epsilon> q0 of
             Inl e \<Rightarrow> Inl e
           | Inr q \<Rightarrow>
               (case queue_check \<epsilon> q of
                  Some e \<Rightarrow> Inl e
                | None \<Rightarrow>
                    (if qe_active \<epsilon> \<and> all_devices_selected (qe_stored \<epsilon>) q then
                       (let rooms = map fst (qe_stored \<epsilon>) in
                        if rooms = [] then Inl Q_no_room
                        else queue_rooms \<epsilon> (q\<lparr>q_rooms := rooms, q_targets := []\<rparr>) True [] rooms)
                     else queue_rooms \<epsilon> q False [] (q_rooms q)))))"

section \<open>Grouping\<close>

definition grp :: "(jstr \<times> 'a) list \<Rightarrow> (jstr \<times> 'a list) list" where
  "grp ps = fold (\<lambda>(r, i). push_target r i) ps []"

definition ids_of :: "jstr \<Rightarrow> (jstr \<times> 'a) list \<Rightarrow> 'a list" where
  "ids_of r ps = map snd (filter (\<lambda>p. fst p = r) ps)"

lemma uniq_snoc: "uniq (xs @ [x]) = (if x \<in> set xs then uniq xs else uniq xs @ [x])"
  by (induction xs) auto

lemma push_fst: "map fst (push_target r i ts) = (if r \<in> fst ` set ts then map fst ts else map fst ts @ [r])"
  by (induction r i ts rule: push_target.induct) auto

lemma push_map:
  "map_of (push_target r i ts) r' =
     (if r' = r then Some ((case map_of ts r of None \<Rightarrow> [] | Some xs \<Rightarrow> xs) @ [i]) else map_of ts r')"
  by (induction r i ts rule: push_target.induct) auto

lemma grp_snoc: "grp (ps @ [(r, i)]) = push_target r i (grp ps)"
  by (simp add: grp_def)

lemma grp_fst: "map fst (grp ps) = uniq (map fst ps)"
proof (induction ps rule: rev_induct)
  case (snoc p ps)
  obtain r i where p: "p = (r, i)" by force
  have "fst ` set (grp ps) = fst ` set ps" using arg_cong [OF snoc, of set] by simp
  then show ?case using snoc by (simp add: p grp_snoc push_fst uniq_snoc)
qed (simp add: grp_def)

lemma grp_map: "map_of (grp ps) r = (if r \<in> fst ` set ps then Some (ids_of r ps) else None)"
proof (induction ps rule: rev_induct)
  case (snoc p ps)
  obtain r' i where p: "p = (r', i)" by force
  have "filter (\<lambda>p. fst p = r) ps = []" if "r \<notin> fst ` set ps" using that by (force simp: filter_empty_conv)
  then show ?case using snoc by (auto simp: p grp_snoc push_map ids_of_def)
qed (simp add: grp_def)

lemma push_apsnd: "push_target r (f i) (map (apsnd (map f)) ts) = map (apsnd (map f)) (push_target r i ts)"
  by (induction r i ts rule: push_target.induct) auto

lemma grp_apsnd: "grp (map (apsnd f) ps) = map (apsnd (map f)) (grp ps)"
proof (induction ps rule: rev_induct)
  case (snoc p ps)
  then show ?case by (cases p) (simp add: grp_snoc push_apsnd)
qed (simp add: grp_def)

definition keys_of :: "(jstr \<times> int) list \<Rightarrow> jstr list" where
  "keys_of sel = map (\<lambda>(r, i). device_key r i) sel"

definition sel_ok :: "(jstr \<times> int) list \<Rightarrow> bool" where
  "sel_ok sel \<longleftrightarrow> (\<forall>(r, i)\<in>set sel. 58 \<notin> set r \<and> 0 < i)"

lemma key_parts:
  assumes "58 \<notin> set r" "0 < i"
  shows "key_room (device_key r i) = r" "key_id (device_key r i) = Fin (of_int i)"
  using device_key_split [OF assms(1)] js_number_int_str [of i] assms(2) by (simp_all add: key_room_def key_id_def)

lemma group_targets_keys:
  assumes "sel_ok sel"
  shows "group_targets (keys_of sel) = map (apsnd (map (\<lambda>i. Fin (of_int i)))) (grp sel)"
proof -
  have "fold (\<lambda>k. push_target (key_room k) (key_id k)) (keys_of ps) ts
      = fold (\<lambda>(r, i). push_target r i) (map (apsnd (\<lambda>i. Fin (of_int i))) ps) ts" if "sel_ok ps" for ps ts
    using that by (induction ps arbitrary: ts) (auto simp: keys_of_def sel_ok_def key_parts)
  from this [OF assms, of "[]"] show ?thesis by (simp add: group_targets_def grp_def [symmetric] grp_apsnd)
qed

lemma all_some_map [simp]: "all_some (map (\<lambda>x. Some (f x)) xs) = Some (map f xs)"
  by (induction xs) auto

lemma all_some_ints: "all_some (map (\<lambda>i. go_int (JInt i)) is) = Some is"
  by (induction "is") (auto simp: go_int_def)

lemma go_targets_grp:
  "go_targets (Some (JObj (map (\<lambda>(r, is). (r, JArr (map num_json is))) (map (apsnd (map (\<lambda>i. Fin (of_int i)))) ts)))) = Some ts"
proof -
  have "map (\<lambda>(k, x). map_option (Pair k) (go_list go_int (Some x)))
      (map (\<lambda>(r, is). (r, JArr (map num_json is))) (map (apsnd (map (\<lambda>i. Fin (of_int i)))) ts)) = map (\<lambda>x. Some x) ts"
    by (auto simp: go_list_def o_def num_json_def all_some_ints)
  then show ?thesis unfolding go_targets_def by (simp only: option.case json.case all_some_map) simp
qed

definition request_json :: "http \<Rightarrow> json" where
  "request_json h = (case rq_body h of Json v \<Rightarrow> v | _ \<Rightarrow> JNull)"

text \<open>What the cloud decodes from a request of the console.\<close>

lemma decode_command:
  assumes "sel_ok sel"
  shows "decode_queue (request_json (queue_fleet (keys_of sel) ''command'' [(js ''command'', JStr cmd)]))
     = Some \<lparr>q_rooms = uniq (map fst sel), q_targets = grp sel, q_op = js ''command'', q_command = cmd, q_files = [],
         q_save_dir = [], q_post_cmd = [], q_rules = [], q_action = [], q_run_at = [], q_note = []\<rparr>"
proof -
  let ?v = "request_json (queue_fleet (keys_of sel) ''command'' [(js ''command'', JStr cmd)])"
  let ?ts = "map (apsnd (map (\<lambda>i. Fin (of_int i)))) (grp sel)"
  have f: "jfield ?v ''room_ids'' = Some (JArr (map (\<lambda>t. JStr (fst t)) ?ts))"
    "jfield ?v ''targets'' = Some (JObj (map (\<lambda>(r, is). (r, JArr (map num_json is))) ?ts))"
    "jfield ?v ''operation'' = Some (JStr (js ''command''))" "jfield ?v ''command'' = Some (JStr cmd)"
    "jfield ?v ''files'' = None" "jfield ?v ''save_dir'' = None" "jfield ?v ''post_cmd'' = None" "jfield ?v ''rules'' = None"
    "jfield ?v ''action'' = None" "jfield ?v ''run_at'' = None" "jfield ?v ''note'' = None"
    by (simp_all add: jfield_def request_json_def queue_fleet_def http_send_def Let_def group_targets_keys [OF assms])
      (simp_all add: js_def)
  have "go_list (\<lambda>x. go_str (Some x)) (Some (JArr (map (\<lambda>t. JStr (fst t)) ?ts))) = Some (map fst ?ts)"
    by (simp add: go_list_def go_str_def o_def)
  moreover have "map fst ?ts = uniq (map fst sel)" by (simp add: grp_fst [symmetric] o_def)
  ultimately show ?thesis
    unfolding decode_queue_def Let_def f go_targets_grp by (simp add: go_str_def go_list_def)
qed

section \<open>The handler\<close>

lemma queue_rooms_ok:
  assumes "distinct rooms" "set rooms \<inter> set seen = {}"
    and "\<forall>r\<in>set rooms. qe_known \<epsilon> r \<and> (\<exists>ts. map_of (q_targets q) r = Some ts \<and> ts \<noteq> [] \<and> (\<forall>t\<in>set ts. 0 < t))"
  shows "queue_rooms \<epsilon> q False seen rooms = Inr (map (\<lambda>r. (r, room_job \<epsilon> q False (the (map_of (q_targets q) r)))) rooms)"
  using assms
proof (induction rooms arbitrary: seen)
  case (Cons r rooms)
  have "queue_rooms \<epsilon> q False (r # seen) rooms
      = Inr (map (\<lambda>r. (r, room_job \<epsilon> q False (the (map_of (q_targets q) r)))) rooms)"
    using Cons.prems by (intro Cons.IH) auto
  moreover obtain ts where "map_of (q_targets q) r = Some ts" "ts \<noteq> []" "\<forall>t\<in>set ts. 0 < t" using Cons.prems(3) by auto
  ultimately show ?case using Cons.prems by (auto simp: Let_def not_le targets_of_def)
qed simp

lemma queue_rooms_targets:
  assumes "queue_rooms \<epsilon> q False seen rooms = Inr jobs" "(r, j) \<in> set jobs"
  shows "r \<in> set rooms \<and> (\<exists>ts. map_of (q_targets q) r = Some ts \<and> ts \<noteq> [] \<and> (\<forall>t\<in>set ts. 0 < t) \<and> j = room_job \<epsilon> q False ts)"
  using assms
proof (induction rooms arbitrary: seen jobs)
  case (Cons room rooms)
  show ?case
  proof (cases "room \<in> set seen")
    case True
    then show ?thesis using Cons by fastforce
  next
    case False
    then obtain ts rest where ts: "map_of (q_targets q) room = Some ts" "ts \<noteq> []" "\<forall>t\<in>set ts. 0 < t"
      and rest: "queue_rooms \<epsilon> q False (room # seen) rooms = Inr rest" "jobs = (room, room_job \<epsilon> q False ts) # rest"
      using Cons.prems(1) by (auto simp: Let_def not_le targets_of_def split: if_splits option.splits sum.splits)
    then show ?thesis using Cons.IH [OF rest(1)] Cons.prems(2) by auto
  qed
qed simp

lemma snapshot_job: "queue_rooms \<epsilon> q True seen rooms = Inr jobs \<Longrightarrow> (r, j) \<in> set jobs \<Longrightarrow> \<exists>ts. j = room_job \<epsilon> q True ts"
proof (induction rooms arbitrary: seen jobs)
  case (Cons room rooms)
  then show ?case by (fastforce simp: Let_def split: if_splits sum.splits)
qed simp

text \<open>The devices a job is addressed to; \<^term>\<open>None\<close> is everybody.\<close>

definition job_ids :: "'f job \<Rightarrow> int list option" where
  "job_ids j = (case j of Job_broadcast _ \<Rightarrow> None | Job_list is _ \<Rightarrow> Some is | Job_distribute _ _ _ ids \<Rightarrow> ids
     | Job_wol ids \<Rightarrow> ids | Job_schedule ids _ _ _ \<Rightarrow> ids)"

lemma room_job_ids: "\<forall>t\<in>set ts. 0 < t \<Longrightarrow> \<exists>is. job_ids (room_job \<epsilon> q False ts) = Some is \<and> set is = set ts"
  by (auto simp: room_job_def job_ids_def Let_def)

text \<open>A snapshot operation goes to every stored room.\<close>

lemma queue_rooms_everybody:
  assumes "\<forall>r\<in>set rooms. qe_known \<epsilon> r"
  shows "queue_rooms \<epsilon> q True seen rooms
    = Inr (map (\<lambda>r. (r, room_job \<epsilon> q True (targets_of (q_targets q) r))) (filter (\<lambda>r. r \<notin> set seen) (uniq rooms)))"
  using assms
proof (induction rooms arbitrary: seen)
  case (Cons r rooms)
  show ?case
  proof (cases "r \<in> set seen")
    case True
    then have "filter (\<lambda>x. x \<notin> set seen) (filter (\<lambda>y. y \<noteq> r) (uniq rooms)) = filter (\<lambda>x. x \<notin> set seen) (uniq rooms)"
      by (auto intro: filter_cong)
    then show ?thesis using Cons True by simp
  next
    case False
    have "filter (\<lambda>x. x \<notin> set seen) (filter (\<lambda>y. y \<noteq> r) (uniq rooms)) = filter (\<lambda>x. x \<notin> set (r # seen)) (uniq rooms)"
      by (auto intro: filter_cong)
    then show ?thesis using Cons False by (simp add: Let_def)
  qed
qed simp

text \<open>A selection covers the stored rooms when some room has devices and all of them, in every room, are selected.\<close>

definition covers :: "(jstr \<times> int list) list \<Rightarrow> (jstr \<times> int) list \<Rightarrow> bool" where
  "covers stored sel \<longleftrightarrow> (\<exists>(room, ds)\<in>set stored. ds \<noteq> []) \<and> (\<forall>(room, ds)\<in>set stored. \<forall>d\<in>set ds. (room, d) \<in> set sel)"

lemma all_selected_covers:
  assumes "q_rooms q = uniq (map fst sel)" "q_targets q = grp sel"
  shows "all_devices_selected stored q \<longleftrightarrow> covers stored sel"
proof -
  have t: "set (targets_of (grp sel) room) = {i. (room, i) \<in> set sel}" for room
    by (force simp: targets_of_def grp_map ids_of_def)
  have "(ds \<noteq> [] \<longrightarrow> room \<in> set (q_rooms q) \<and> set ds \<subseteq> set (targets_of (q_targets q) room))
      \<longleftrightarrow> (\<forall>d\<in>set ds. (room, d) \<in> set sel)" for room ds
    unfolding assms t by (cases ds) force+
  then show ?thesis by (simp add: all_devices_selected_def covers_def)
qed

lemma queue_command_sel:
  assumes "sel_ok sel" "sel \<noteq> []" "distinct sel" "\<forall>(r, i)\<in>set sel. qe_known \<epsilon> r" "qe_cloud \<epsilon>"
    and "\<not> qe_blank \<epsilon> cmd" "qe_bytes \<epsilon> cmd \<le> 65536"
  shows "queue_handler \<epsilon> (request_json (queue_fleet (keys_of sel) ''command'' [(js ''command'', JStr cmd)]))
       = Inr (if qe_active \<epsilon> \<and> covers (qe_stored \<epsilon>) sel
              then map (\<lambda>r. (r, Job_broadcast cmd)) (uniq (map fst (qe_stored \<epsilon>)))
              else map (\<lambda>r. (r, Job_list (ids_of r sel) cmd)) (uniq (map fst sel)))"
proof -
  let ?q = "\<lparr>q_rooms = uniq (map fst sel), q_targets = grp sel, q_op = js ''command'', q_command = cmd, q_files = [],
         q_save_dir = [], q_post_cmd = [], q_rules = [], q_action = [], q_run_at = [], q_note = []\<rparr>"
  have ne: "js ''command'' \<noteq> js ''network_apply''" "js ''command'' \<noteq> js ''network_remove''"
    "js ''command'' \<noteq> js ''schedule''" "js ''command'' \<noteq> js ''distribute''" by (simp_all add: js_def)
  have rooms: "uniq (map fst sel) \<noteq> []" using assms(2) by (cases sel) auto
  have pos: "\<forall>t\<in>set (ids_of r sel). 0 < t" for r using assms(1) by (auto simp: ids_of_def sel_ok_def)
  have dis: "distinct (ids_of r sel)" for r
    using assms(3) by (auto simp: ids_of_def distinct_map inj_on_def)
  have nonempty: "ids_of r sel \<noteq> []" if "r \<in> fst ` set sel" for r
    using that by (auto simp: ids_of_def filter_empty_conv)
  have "queue_rooms \<epsilon> ?q False [] (uniq (map fst sel))
      = Inr (map (\<lambda>r. (r, room_job \<epsilon> ?q False (the (map_of (grp sel) r)))) (uniq (map fst sel)))"
    using assms(4) pos nonempty by (subst queue_rooms_ok) (auto simp: grp_map)
  also have "\<dots> = Inr (map (\<lambda>r. (r, Job_list (ids_of r sel) cmd)) (uniq (map fst sel)))"
    using pos dis by (auto simp: grp_map room_job_def uniq_id filter_id_conv)
  finally have listed: "queue_rooms \<epsilon> ?q False [] (q_rooms ?q) = Inr (map (\<lambda>r. (r, Job_list (ids_of r sel) cmd)) (uniq (map fst sel)))"
    by simp
  let ?all = "map fst (qe_stored \<epsilon>)"
  have cov: "all_devices_selected (qe_stored \<epsilon>) ?q \<longleftrightarrow> covers (qe_stored \<epsilon>) sel" by (intro all_selected_covers) simp_all
  have ever: "queue_rooms \<epsilon> (?q\<lparr>q_rooms := ?all, q_targets := []\<rparr>) True [] ?all
      = Inr (map (\<lambda>r. (r, Job_broadcast cmd)) (uniq ?all))"
    by (subst queue_rooms_everybody) (auto simp: qe_known_def room_job_def)
  have "qe_stored \<epsilon> \<noteq> []" if "covers (qe_stored \<epsilon>) sel" using that by (auto simp: covers_def)
  then show ?thesis
    unfolding queue_handler_def decode_command [OF assms(1)]
    using assms(5-7) ne rooms listed cov ever by (auto simp: queue_rewrite_def queue_check_def)
qed

lemma queue_rooms_snapshot: "queue_rooms \<epsilon> q True seen rooms = Inr jobs \<Longrightarrow> (r, j) \<in> set jobs \<Longrightarrow> job_ids j = None"
  using snapshot_job [of \<epsilon> q seen rooms jobs r j] by (auto simp: room_job_def job_ids_def Let_def)

section \<open>Properties\<close>

text \<open>C9: a command queued on the cloud, not blank and at most 64 KiB, for a selection of at least one device, all
  in rooms the cloud knows, is accepted. Unless a snapshot is active and the selection covers every device of every
  stored room, it is stored as it was made: one job per room, in the order the rooms were first selected,
  addressed to exactly the devices selected in that room, with the command unchanged. With an active snapshot and
  every device selected it is stored as a broadcast to every stored room, those without a device included.\<close>

theorem queued_command_exact:
  assumes "sel_ok sel" "sel \<noteq> []" "distinct sel" "\<forall>(r, i)\<in>set sel. qe_known \<epsilon> r" "qe_cloud \<epsilon>"
    and "\<not> qe_blank \<epsilon> cmd" "qe_bytes \<epsilon> cmd \<le> 65536"
  shows "queue_handler \<epsilon> (request_json (queue_fleet (keys_of sel) ''command'' [(js ''command'', JStr cmd)]))
       = Inr (if qe_active \<epsilon> \<and> covers (qe_stored \<epsilon>) sel
              then map (\<lambda>r. (r, Job_broadcast cmd)) (uniq (map fst (qe_stored \<epsilon>)))
              else map (\<lambda>r. (r, Job_list (ids_of r sel) cmd)) (uniq (map fst sel)))"
  using assms by (rule queue_command_sel)

text \<open>C10: the cloud never turns a request into a broadcast by accident: a stored job addressed to everybody
  exists only while a snapshot is active and the request names every device of every room; every other
  job, of any operation and from any request, names devices, at least one, all with positive numbers,
  and exactly those the request gives for its room.\<close>

theorem queue_never_broadcasts:
  assumes "queue_handler \<epsilon> v = Inr jobs" "(r, j) \<in> set jobs"
  shows "\<exists>q. decode_queue v = Some q \<and> (case job_ids j of
       None \<Rightarrow> qe_active \<epsilon> \<and> all_devices_selected (qe_stored \<epsilon>) q
     | Some is \<Rightarrow> r \<in> set (q_rooms q) \<and> is \<noteq> [] \<and> set is = set (targets_of (q_targets q) r) \<and> (\<forall>i\<in>set is. 0 < i))"
proof -
  obtain q0 q where q: "decode_queue v = Some q0" "queue_rewrite \<epsilon> q0 = Inr q"
    and out: "(if qe_active \<epsilon> \<and> all_devices_selected (qe_stored \<epsilon>) q then
        queue_rooms \<epsilon> (q\<lparr>q_rooms := map fst (qe_stored \<epsilon>), q_targets := []\<rparr>) True [] (map fst (qe_stored \<epsilon>))
      else queue_rooms \<epsilon> q False [] (q_rooms q)) = Inr jobs"
    using assms(1) by (auto simp: queue_handler_def Let_def split: if_splits option.splits sum.splits)
  have same: "q_rooms q = q_rooms q0" "q_targets q = q_targets q0"
    using q(2) by (auto simp: queue_rewrite_def split: if_splits)
  show ?thesis
  proof (cases "qe_active \<epsilon> \<and> all_devices_selected (qe_stored \<epsilon>) q")
    case True
    have "job_ids j = None" using queue_rooms_snapshot [of \<epsilon> _ "[]"] out assms(2) True by auto
    moreover have "all_devices_selected (qe_stored \<epsilon>) q0" using True by (simp add: all_devices_selected_def same)
    ultimately show ?thesis using True q(1) by auto
  next
    case False
    then have "queue_rooms \<epsilon> q False [] (q_rooms q) = Inr jobs" using out by (simp only: if_False)
    then obtain ts where ts: "r \<in> set (q_rooms q)" "map_of (q_targets q) r = Some ts" "ts \<noteq> []" "\<forall>t\<in>set ts. 0 < t"
      "j = room_job \<epsilon> q False ts"
      using queue_rooms_targets assms(2) by blast
    obtain "is" where "is": "job_ids j = Some is" "set is = set ts" using room_job_ids [OF ts(4)] ts(5) by blast
    then have "is \<noteq> []" using ts(3) by auto
    then show ?thesis using q(1) same ts "is" by (intro exI [of _ q0]) (auto simp: targets_of_def)
  qed
qed

section \<open>Witnesses\<close>

definition demo_sel :: "(jstr \<times> int) list" where
  "demo_sel = [(js ''a'', 1), (js ''b'', 1), (js ''a'', 12)]"

definition demo_qenv :: "unit queue_env" where
  "demo_qenv = \<lparr>qe_cloud = True, qe_active = False, qe_stored = [(js ''a'', [1, 12, 13]), (js ''b'', [1])], qe_apply = (\<lambda>_. []), qe_remove = [],
     qe_file = (\<lambda>_. None), qe_future = (\<lambda>_. True), qe_blank = (\<lambda>s. trim s = []), qe_bytes = length\<rparr>"

lemma demo_sel_ok: "sel_ok demo_sel"
  by (simp add: sel_ok_def demo_sel_def js_def)

lemma demo_uptime: "trim (js ''uptime'') \<noteq> []"
  by (simp add: trim_empty_iff js_def is_ws_def)

lemma queued_command_exact_witness:
  "queue_handler demo_qenv (request_json (queue_fleet [js ''a:1'', js ''b:1'', js ''a:12''] ''command'' [(js ''command'', JStr (js ''uptime''))]))
     = Inr [(js ''a'', Job_list [1, 12] (js ''uptime'')), (js ''b'', Job_list [1] (js ''uptime''))]
   \<and> queue_handler (demo_qenv\<lparr>qe_active := True, qe_stored := [(js ''a'', [1, 12]), (js ''b'', [1]), (js ''c'', [])]\<rparr>)
       (request_json (queue_fleet [js ''a:1'', js ''b:1'', js ''a:12''] ''command'' [(js ''command'', JStr (js ''uptime''))]))
     = Inr (map (\<lambda>r. (r, Job_broadcast (js ''uptime''))) [js ''a'', js ''b'', js ''c''])"
proof -
  have k: "keys_of demo_sel = [js ''a:1'', js ''b:1'', js ''a:12'']"
    by (simp add: keys_of_def demo_sel_def device_key_def int_str_nonneg nat_digits.simps js_def)
  have r: "map (\<lambda>r. (r, Job_list (ids_of r demo_sel) (js ''uptime''))) (uniq (map fst demo_sel))
      = [(js ''a'', Job_list [1, 12] (js ''uptime'')), (js ''b'', Job_list [1] (js ''uptime''))]"
    by (simp add: demo_sel_def ids_of_def js_def)
  have "demo_sel \<noteq> []" "distinct demo_sel" by (simp_all add: demo_sel_def js_def)
  note q = queued_command_exact [OF demo_sel_ok this, of _ "js ''uptime''", unfolded k r]
  show ?thesis
  proof
    show "queue_handler demo_qenv (request_json (queue_fleet [js ''a:1'', js ''b:1'', js ''a:12''] ''command'' [(js ''command'', JStr (js ''uptime''))]))
      = Inr [(js ''a'', Job_list [1, 12] (js ''uptime'')), (js ''b'', Job_list [1] (js ''uptime''))]"
      by (subst q) (use demo_uptime in \<open>simp_all add: demo_qenv_def qe_known_def demo_sel_def js_def\<close>)
    show "queue_handler (demo_qenv\<lparr>qe_active := True, qe_stored := [(js ''a'', [1, 12]), (js ''b'', [1]), (js ''c'', [])]\<rparr>)
       (request_json (queue_fleet [js ''a:1'', js ''b:1'', js ''a:12''] ''command'' [(js ''command'', JStr (js ''uptime''))]))
      = Inr (map (\<lambda>r. (r, Job_broadcast (js ''uptime''))) [js ''a'', js ''b'', js ''c''])"
      by (subst q) (use demo_uptime in \<open>simp_all add: demo_qenv_def qe_known_def demo_sel_def covers_def js_def\<close>)
  qed
qed

lemma queue_never_broadcasts_witness:
  "\<exists>is. job_ids (Job_list [1, 12] (js ''uptime'') :: unit job) = Some is \<and> is \<noteq> [] \<and> (\<forall>i\<in>set is. 0 < i)"
proof -
  have e: "map (\<lambda>r. (r, Job_list (ids_of r demo_sel) (js ''uptime''))) (uniq (map fst demo_sel))
      = [(js ''a'', Job_list [1, 12] (js ''uptime'')), (js ''b'', Job_list [1] (js ''uptime'') :: unit job)]"
    by (simp add: demo_sel_def ids_of_def js_def)
  have "demo_sel \<noteq> []" "distinct demo_sel" by (simp_all add: demo_sel_def js_def)
  then have "queue_handler demo_qenv (request_json (queue_fleet (keys_of demo_sel) ''command'' [(js ''command'', JStr (js ''uptime''))]))
     = Inr [(js ''a'', Job_list [1, 12] (js ''uptime'')), (js ''b'', Job_list [1] (js ''uptime''))]"
    using queue_command_sel [OF demo_sel_ok, of demo_qenv "js ''uptime''"] demo_uptime
    by (simp add: e demo_qenv_def qe_known_def) (simp add: js_def demo_sel_def)
  from queue_never_broadcasts [OF this, of "js ''a''" "Job_list [1, 12] (js ''uptime'')"]
  show ?thesis by (auto simp: job_ids_def)
qed

end
