(* ===== verification/Command_Page.thy ===== *)
theory Command_Page
  imports Fleet "HOL-Library.AList" "HOL-Library.Multiset"
begin

text \<open>
  Running a command in a room, \<^verbatim>\<open>RoomCommands\<close> of \<^verbatim>\<open>frontend/src/pages/commands.tsx\<close>: the table of
  results by device, the listener that feeds it from the administration socket, and \<^verbatim>\<open>run\<close>, split
  at its request: what it does when the button is pressed, and what it does when the answer comes,
  with any events in between. \<open>rows\<close> is an association list in which a device occurs once, and so is
  \<open>known\<close>.
\<close>

section \<open>State\<close>

datatype pick_mode = M_online | M_picked

datatype toast_tone = Toast_info | Toast_ok | Toast_bad

record cmd_row =
  rw_device :: int
  rw_command :: int
  rw_status :: jstr
  rw_output :: jstr
  rw_duration :: int

record cmd_page =
  cp_command :: jstr
  cp_mode :: pick_mode
  cp_picked :: "int list"
  cp_rows :: "(int \<times> cmd_row) list"
  cp_known :: "(int \<times> int) list"
  cp_active :: "int option"
  cp_busy :: bool
  cp_waiting :: "nat list" \<comment> \<open>the number of targets of each request not answered yet\<close>
  cp_sent :: "http list"
  cp_toasts :: "(toast_tone \<times> jstr) list"

definition cp_send :: "http \<Rightarrow> cmd_page \<Rightarrow> cmd_page" where
  "cp_send h s = s\<lparr>cp_sent := cp_sent s @ [h]\<rparr>"

definition cp_toast :: "toast_tone \<Rightarrow> jstr \<Rightarrow> cmd_page \<Rightarrow> cmd_page" where
  "cp_toast t m s = s\<lparr>cp_toasts := cp_toasts s @ [(t, m)]\<rparr>"

definition load_history :: "cmd_page \<Rightarrow> cmd_page" where
  "load_history s = cp_send (http_get (js ''/api/commands?limit=30'')) s"

section \<open>Events of the administration socket\<close>

text \<open>The fields the listener reads, after \<open>Number(x || 0)\<close> and \<open>String(x || d)\<close>.\<close>

record admin_event =
  ad_event :: jstr
  ad_command :: int
  ad_device :: int
  ad_line :: "jstr option"
  ad_error :: "jstr option"
  ad_status :: "jstr option"
  ad_duration :: int

definition fresh_row :: "int \<Rightarrow> int \<Rightarrow> cmd_row" where
  "fresh_row d c = \<lparr>rw_device = d, rw_command = c, rw_status = js ''running'', rw_output = [], rw_duration = 0\<rparr>"

definition current_row :: "admin_event \<Rightarrow> cmd_row option \<Rightarrow> cmd_row" where
  "current_row e r = (case r of Some x \<Rightarrow> x | None \<Rightarrow> fresh_row (ad_device e) (ad_command e))"

definition newline :: jstr where
  "newline = [10]"

definition output_row :: "admin_event \<Rightarrow> cmd_row option \<Rightarrow> cmd_row" where
  "output_row e r = (let x = current_row e r in
     x\<lparr>rw_output := rw_output x @ str_or (ad_line e) [] @ newline,
       rw_status := (if rw_status x = js ''dispatched'' then js ''running'' else rw_status x)\<rparr>)"

definition result_row :: "admin_event \<Rightarrow> cmd_row option \<Rightarrow> cmd_row" where
  "result_row e r =
     (let x = current_row e r;
          extra = (if truthy_str (ad_error e) then the (ad_error e) @ newline else [])
      in x\<lparr>rw_status := str_or (ad_status e) (js ''completed''), rw_output := rw_output x @ extra,
           rw_duration := ad_duration e\<rparr>)"

definition set_row :: "int \<Rightarrow> (cmd_row option \<Rightarrow> cmd_row) \<Rightarrow> cmd_page \<Rightarrow> cmd_page" where
  "set_row d f s = s\<lparr>cp_rows := AList.update d (f (map_of (cp_rows s) d)) (cp_rows s)\<rparr>"

definition tracked :: "admin_event \<Rightarrow> cmd_page \<Rightarrow> bool" where
  "tracked e s \<longleftrightarrow> ad_command e \<noteq> 0 \<and> map_of (cp_known s) (ad_command e) \<noteq> None"

definition on_command_event :: "admin_event \<Rightarrow> cmd_page \<Rightarrow> cmd_page" where
  "on_command_event e s =
     (if \<not> tracked e s then s
      else let s1 = (if ad_event e = js ''command_output'' then set_row (ad_device e) (output_row e) s else s)
        in if ad_event e = js ''command_result'' then load_history (set_row (ad_device e) (result_row e) s1) else s1)"

section \<open>Running\<close>

definition t_enter_command :: jstr where "t_enter_command = [0x8BF7, 0x8F93, 0x5165, 0x547D, 0x4EE4]"
definition t_none_online :: jstr where "t_none_online = [0x6CA1, 0x6709, 0x5728, 0x7EBF, 0x8BBE, 0x5907]"
definition t_pick_first :: jstr where "t_pick_first = [0x8BF7, 0x5148, 0x6307, 0x5B9A, 0x8BBE, 0x5907]"
definition t_run_failed :: jstr where "t_run_failed = [0x6267, 0x884C, 0x5931, 0x8D25]"
definition t_dispatched :: "nat \<Rightarrow> jstr" where
  "t_dispatched n = [0x5DF2, 0x4E00, 0x6B21, 0x6D3E, 0x53D1, 0x5230, 0x0020] @ nat_digits n @ [0x0020, 0x53F0]"

definition run_targets :: "int list option \<Rightarrow> device list \<Rightarrow> cmd_page \<Rightarrow> int list" where
  "run_targets ids devs s = (case ids of
     Some xs \<Rightarrow> xs
   | None \<Rightarrow> if cp_mode s = M_online then map assigned_id (filter connected devs) else cp_picked s)"

definition run_body :: "int list option \<Rightarrow> int list \<Rightarrow> jstr \<Rightarrow> pick_mode \<Rightarrow> json" where
  "run_body ids targets cmd m =
     (if m = M_online \<and> ids = None
      then JObj [(js ''target_type'', JStr (js ''broadcast'')), (js ''command'', JStr cmd)]
      else JObj [(js ''target_type'', JStr (js ''list'')), (js ''target_ids'', JArr (map JInt targets)), (js ''command'', JStr cmd)])"

definition run_start :: "int list option \<Rightarrow> device list \<Rightarrow> cmd_page \<Rightarrow> cmd_page" where
  "run_start ids devs s =
     (let cmd = trim (cp_command s); targets = run_targets ids devs s in
      if cmd = [] then cp_toast Toast_bad t_enter_command s
      else if targets = [] then cp_toast Toast_bad (if cp_mode s = M_online then t_none_online else t_pick_first) s
      else cp_send (http_send ''POST'' (js ''/api/commands'') (Json (run_body ids targets cmd (cp_mode s))))
             (s\<lparr>cp_busy := True, cp_waiting := cp_waiting s @ [length targets]\<rparr>))"

definition child_row :: "int \<Rightarrow> command_log \<Rightarrow> cmd_row" where
  "child_row d c = \<lparr>rw_device = d, rw_command = cl_id c, rw_status = cl_status c, rw_output = cl_error_output c, rw_duration = 0\<rparr>"

fun next_rows :: "command_log list \<Rightarrow> (int \<times> cmd_row) list \<Rightarrow> (int \<times> cmd_row) list" where
  "next_rows [] acc = acc"
| "next_rows (c # cs) acc = (case cl_target_id c of None \<Rightarrow> next_rows cs acc
     | Some d \<Rightarrow> next_rows cs (AList.update d (child_row d c) acc))"

fun next_known :: "command_log list \<Rightarrow> (int \<times> int) list \<Rightarrow> (int \<times> int) list" where
  "next_known [] acc = acc"
| "next_known (c # cs) acc = (case cl_target_id c of None \<Rightarrow> next_known cs acc
     | Some d \<Rightarrow> next_known cs (AList.update (cl_id c) d acc))"

definition run_created :: "nat \<Rightarrow> command_log \<Rightarrow> cmd_page \<Rightarrow> cmd_page" where
  "run_created n created s =
     (let cs = (case cl_children created of None \<Rightarrow> [] | Some cs \<Rightarrow> cs);
          s1 = s\<lparr>cp_waiting := remove1 n (cp_waiting s), cp_rows := next_rows cs [], cp_known := next_known cs [], cp_active := None\<rparr>;
          s2 = load_history (cp_toast Toast_ok (t_dispatched (if cs = [] then n else length cs)) s1)
      in s2\<lparr>cp_busy := False\<rparr>)"

definition run_failed :: "nat \<Rightarrow> jstr option \<Rightarrow> cmd_page \<Rightarrow> cmd_page" where
  "run_failed n msg s =
     (cp_toast Toast_bad (case msg of Some m \<Rightarrow> m | None \<Rightarrow> t_run_failed) (s\<lparr>cp_waiting := remove1 n (cp_waiting s)\<rparr>))
       \<lparr>cp_busy := False\<rparr>"

section \<open>What the table shows\<close>

definition row_list :: "cmd_page \<Rightarrow> cmd_row list" where
  "row_list s = sort_key rw_device (map snd (cp_rows s))"

definition row_done :: "cmd_row \<Rightarrow> bool" where
  "row_done r \<longleftrightarrow> rw_status r \<in> {js ''completed'', js ''failed'', js ''timeout''}"

definition done_count :: "cmd_page \<Rightarrow> nat" where
  "done_count s = length (filter row_done (row_list s))"

definition failed_ids :: "cmd_page \<Rightarrow> int list" where
  "failed_ids s = map rw_device (filter (\<lambda>r. rw_status r = js ''failed'' \<or> rw_status r = js ''timeout'') (row_list s))"

section \<open>The machine\<close>

datatype cmd_ev = Run_clicked "device list" | Rerun_clicked "device list" | Created nat command_log | Refused nat "jstr option"
  | Admin admin_event | Row_clicked int | Edit jstr | Set_mode pick_mode | Pick int | Set_picked "int list"

fun cmd_step :: "cmd_ev \<Rightarrow> cmd_page \<Rightarrow> cmd_page" where
  "cmd_step (Run_clicked devs) s = run_start None devs s"
| "cmd_step (Rerun_clicked devs) s = run_start (Some (failed_ids s)) devs s"
| "cmd_step (Created n c) s = run_created n c s"
| "cmd_step (Refused n m) s = run_failed n m s"
| "cmd_step (Admin e) s = on_command_event e s"
| "cmd_step (Row_clicked d) s = s\<lparr>cp_active := (if cp_active s = Some d then None else Some d)\<rparr>"
| "cmd_step (Edit t) s = s\<lparr>cp_command := t\<rparr>"
| "cmd_step (Set_mode m) s = s\<lparr>cp_mode := m\<rparr>"
| "cmd_step (Pick d) s = s\<lparr>cp_picked := toggle_pick d (cp_picked s)\<rparr>"
| "cmd_step (Set_picked ds) s = s\<lparr>cp_picked := ds\<rparr>"

text \<open>A button that is disabled cannot be pressed; an answer comes to a request that waits.\<close>

fun cmd_enabled :: "cmd_page \<Rightarrow> cmd_ev \<Rightarrow> bool" where
  "cmd_enabled s (Run_clicked devs) = (\<not> cp_busy s)"
| "cmd_enabled s (Rerun_clicked devs) = (failed_ids s \<noteq> [])"
| "cmd_enabled s (Created n c) = (n \<in> set (cp_waiting s))"
| "cmd_enabled s (Refused n m) = (n \<in> set (cp_waiting s))"
| "cmd_enabled s _ = True"

definition cmd_init :: cmd_page where
  "cmd_init = load_history (cp_send (http_get (js ''/api/presets''))
     \<lparr>cp_command = js ''hostname && uptime'', cp_mode = M_online, cp_picked = [], cp_rows = [], cp_known = [], cp_active = None,
      cp_busy = False, cp_waiting = [], cp_sent = [], cp_toasts = []\<rparr>)"

section \<open>The table\<close>

definition rows_ok :: "cmd_page \<Rightarrow> bool" where
  "rows_ok s \<longleftrightarrow> distinct (map fst (cp_rows s)) \<and> (\<forall>(d, r)\<in>set (cp_rows s). rw_device r = d)"

lemma page_fields [simp]:
  "cp_rows (cp_send h s) = cp_rows s" "cp_rows (cp_toast t m s) = cp_rows s" "cp_rows (load_history s) = cp_rows s"
  "cp_known (cp_send h s) = cp_known s" "cp_known (cp_toast t m s) = cp_known s" "cp_known (load_history s) = cp_known s"
  "cp_known (set_row d f s) = cp_known s"
  by (simp_all add: cp_send_def cp_toast_def load_history_def set_row_def)

lemma rows_ok_cong: "cp_rows s' = cp_rows s \<Longrightarrow> rows_ok s' = rows_ok s"
  by (simp add: rows_ok_def)

lemma rows_ok_lookup: "rows_ok s \<Longrightarrow> map_of (cp_rows s) d = Some r \<Longrightarrow> rw_device r = d"
  by (auto simp: rows_ok_def dest: map_of_SomeD)

lemma set_row_lookup: "map_of (cp_rows (set_row d f s)) d' = (if d' = d then Some (f (map_of (cp_rows s) d)) else map_of (cp_rows s) d')"
  by (simp add: set_row_def AList.update_conv')

lemma update_entries: "(d', r') \<in> set (AList.update d r xs) \<Longrightarrow> distinct (map fst xs) \<Longrightarrow> (d', r') = (d, r) \<or> (d', r') \<in> set xs"
  by (induction xs) (auto split: if_splits)

lemma set_row_ok: "rows_ok s \<Longrightarrow> rw_device (f (map_of (cp_rows s) d)) = d \<Longrightarrow> rows_ok (set_row d f s)"
  by (auto simp: rows_ok_def set_row_def AList.distinct_update dest!: update_entries)

lemma row_device:
  assumes "rows_ok s"
  shows "rw_device (output_row e (map_of (cp_rows s) (ad_device e))) = ad_device e"
    "rw_device (result_row e (map_of (cp_rows s) (ad_device e))) = ad_device e"
  using rows_ok_lookup [OF assms]
  by (simp_all add: output_row_def result_row_def current_row_def fresh_row_def Let_def split: option.splits)

lemma event_ok: "rows_ok s \<Longrightarrow> rows_ok (on_command_event e s)"
proof -
  assume s: "rows_ok s"
  let ?s1 = "if ad_event e = js ''command_output'' then set_row (ad_device e) (output_row e) s else s"
  have "rows_ok ?s1" using s by (simp add: set_row_ok row_device)
  then have "rows_ok (set_row (ad_device e) (result_row e) s)" "rows_ok ?s1" using s by (simp_all add: set_row_ok row_device)
  then show "rows_ok (on_command_event e s)" using s
    by (auto simp: on_command_event_def Let_def js_def elim: rows_ok_cong [THEN iffD2, rotated])
qed

lemma next_rows_ok:
  assumes "distinct (map fst acc)" "\<forall>(d, r)\<in>set acc. rw_device r = d"
  shows "distinct (map fst (next_rows cs acc)) \<and> (\<forall>(d, r)\<in>set (next_rows cs acc). rw_device r = d)"
  using assms
proof (induction cs acc rule: next_rows.induct)
  case (2 c cs acc)
  show ?case
  proof (cases "cl_target_id c")
    case (Some d)
    have "distinct (map fst (AList.update d (child_row d c) acc))" using 2(3) by (rule AList.distinct_update)
    moreover have "\<forall>(d', r)\<in>set (AList.update d (child_row d c) acc). rw_device r = d'"
      using 2(3,4) by (auto simp: child_row_def dest!: update_entries)
    ultimately show ?thesis using 2(2) [OF Some] Some by simp
  qed (use 2 in simp)
qed simp

lemma created_rows: "cp_rows (run_created n c s) = next_rows (case cl_children c of None \<Rightarrow> [] | Some cs \<Rightarrow> cs) []"
  "cp_known (run_created n c s) = next_known (case cl_children c of None \<Rightarrow> [] | Some cs \<Rightarrow> cs) []"
  by (simp_all add: run_created_def Let_def)

lemma step_rows_ok: "rows_ok s \<Longrightarrow> rows_ok (cmd_step e s)"
proof (cases e)
  case (Created n c)
  then show ?thesis using next_rows_ok [of "[]"] by (simp add: rows_ok_def created_rows)
next
  case (Admin a)
  then show "rows_ok s \<Longrightarrow> ?thesis" by (simp add: event_ok)
qed (auto simp: run_start_def run_failed_def Let_def elim: rows_ok_cong [THEN iffD2, rotated])

lemma init_rows_ok: "rows_ok cmd_init"
  by (simp add: cmd_init_def rows_ok_def)

interpretation command_page: invariant_machine "\<lambda>s. s = cmd_init" cmd_enabled cmd_step rows_ok
  by unfold_locales (simp_all add: step_rows_ok init_rows_ok)

definition cmd_reach :: "cmd_page \<Rightarrow> bool" where
  "cmd_reach = reach (\<lambda>s. s = cmd_init) cmd_enabled cmd_step"

lemma cmd_reach_ok: "cmd_reach s \<Longrightarrow> rows_ok s"
  unfolding cmd_reach_def by (rule command_page.inv_reach)

text \<open>The table as it is shown: the rows, sorted by device.\<close>

lemma table_fst: "rows_ok s \<Longrightarrow> map rw_device (map snd (cp_rows s)) = map fst (cp_rows s)"
  by (auto simp: rows_ok_def)

lemma table_distinct: "rows_ok s \<Longrightarrow> distinct (map rw_device (row_list s))"
proof -
  assume ok: "rows_ok s"
  have "distinct (map rw_device (map snd (cp_rows s)))" unfolding table_fst [OF ok] using ok by (simp add: rows_ok_def)
  moreover have "mset (map rw_device (row_list s)) = mset (map rw_device (map snd (cp_rows s)))"
    unfolding row_list_def mset_map mset_sort ..
  ultimately show ?thesis using mset_eq_imp_distinct_iff by blast
qed

lemma table_sorted: "rows_ok s \<Longrightarrow> sorted_wrt (<) (map rw_device (row_list s))"
  using table_distinct by (simp add: strict_sorted_iff row_list_def)

lemma table_rows: "rows_ok s \<Longrightarrow> set (row_list s) = {r. \<exists>d. map_of (cp_rows s) d = Some r}"
  by (force simp: row_list_def rows_ok_def)

lemma table_filter:
  "rows_ok s \<Longrightarrow> set (map rw_device (filter P (row_list s))) = {d. \<exists>r. map_of (cp_rows s) d = Some r \<and> P r}"
  using rows_ok_lookup [of s] by (auto simp: table_rows)

lemma table_length: "rows_ok s \<Longrightarrow> length (row_list s) = card (dom (map_of (cp_rows s)))"
  using distinct_card [of "map fst (cp_rows s)"] by (simp add: row_list_def rows_ok_def dom_map_of_conv_image_fst)

section \<open>Streams of events\<close>

text \<open>The events that reach the row of device \<open>d\<close>.\<close>

definition for_row :: "(int \<times> int) list \<Rightarrow> int \<Rightarrow> admin_event \<Rightarrow> bool" where
  "for_row known d e \<longleftrightarrow> ad_command e \<noteq> 0 \<and> map_of known (ad_command e) \<noteq> None \<and> ad_device e = d
     \<and> (ad_event e = js ''command_output'' \<or> ad_event e = js ''command_result'')"

definition row_step :: "admin_event \<Rightarrow> cmd_row option \<Rightarrow> cmd_row option" where
  "row_step e r = Some (if ad_event e = js ''command_output'' then output_row e r else result_row e r)"

lemma event_known: "cp_known (on_command_event e s) = cp_known s"
  by (simp add: on_command_event_def Let_def)

lemma event_row:
  "map_of (cp_rows (on_command_event e s)) d =
     (if for_row (cp_known s) d e then row_step e (map_of (cp_rows s) d) else map_of (cp_rows s) d)"
proof -
  have ne: "js ''command_output'' \<noteq> js ''command_result''" by (simp add: js_def)
  then show ?thesis
    by (auto simp: on_command_event_def tracked_def for_row_def row_step_def Let_def set_row_lookup)
qed

lemma events_row:
  "map_of (cp_rows (fold on_command_event es s)) d = fold row_step (filter (for_row (cp_known s) d) es) (map_of (cp_rows s) d)"
  by (induction es arbitrary: s) (simp_all add: event_row event_known)

text \<open>What an event adds to the output.\<close>

definition piece :: "admin_event \<Rightarrow> jstr" where
  "piece e = (if ad_event e = js ''command_output'' then str_or (ad_line e) [] @ newline
     else if truthy_str (ad_error e) then the (ad_error e) @ newline else [])"

definition is_result :: "admin_event \<Rightarrow> bool" where
  "is_result e \<longleftrightarrow> ad_event e \<noteq> js ''command_output''"

lemma row_step_fields:
  "\<exists>y. row_step e (Some x) = Some y \<and> rw_output y = rw_output x @ piece e \<and> rw_command y = rw_command x \<and> rw_device y = rw_device x
     \<and> rw_status y = (if is_result e then str_or (ad_status e) (js ''completed'')
         else if rw_status x = js ''dispatched'' then js ''running'' else rw_status x)
     \<and> rw_duration y = (if is_result e then ad_duration e else rw_duration x)"
  by (auto simp: row_step_def piece_def output_row_def result_row_def current_row_def Let_def is_result_def)

text \<open>What a stream of its events makes of a row, told by the stream as a whole: the last result gives status and
  duration; a line that comes later, or with no result, only turns a dispatched row into a running one; every event
  adds its piece to the output.\<close>

definition status_after :: "admin_event list \<Rightarrow> jstr \<Rightarrow> jstr" where
  "status_after es st =
     (let rs = filter is_result es; base = (if rs = [] then st else str_or (ad_status (last rs)) (js ''completed''))
      in if es \<noteq> [] \<and> \<not> is_result (last es) \<and> base = js ''dispatched'' then js ''running'' else base)"

definition duration_after :: "admin_event list \<Rightarrow> int \<Rightarrow> int" where
  "duration_after es n = (let rs = filter is_result es in if rs = [] then n else ad_duration (last rs))"

definition row_after :: "admin_event list \<Rightarrow> cmd_row \<Rightarrow> cmd_row" where
  "row_after es x = \<lparr>rw_device = rw_device x, rw_command = rw_command x, rw_status = status_after es (rw_status x),
     rw_output = rw_output x @ concat (map piece es), rw_duration = duration_after es (rw_duration x)\<rparr>"

lemma row_fold: "fold row_step es (Some x) = Some (row_after es x)"
proof (induction es rule: rev_induct)
  case Nil
  then show ?case by (simp add: row_after_def status_after_def duration_after_def)
next
  case (snoc e es)
  obtain y where y: "row_step e (Some (row_after es x)) = Some y" "rw_output y = rw_output (row_after es x) @ piece e"
    "rw_command y = rw_command x" "rw_device y = rw_device x"
    "rw_status y = (if is_result e then str_or (ad_status e) (js ''completed'')
         else if rw_status (row_after es x) = js ''dispatched'' then js ''running'' else rw_status (row_after es x))"
    "rw_duration y = (if is_result e then ad_duration e else rw_duration (row_after es x))"
    using row_step_fields [of e "row_after es x"] by (auto simp: row_after_def)
  have ne: "js ''running'' \<noteq> js ''dispatched''" by (simp add: js_eq)
  have "y = row_after (es @ [e]) x"
    using y(2-6) ne by (auto intro!: cmd_row.equality simp: row_after_def status_after_def duration_after_def Let_def)
  then show ?case using snoc y(1) by simp
qed

lemma row_step_fresh: "row_step e None = row_step e (Some (fresh_row (ad_device e) (ad_command e)))"
  by (simp add: row_step_def output_row_def result_row_def current_row_def)

text \<open>Output after a result leaves its status alone.\<close>

lemma row_fold_quiet:
  assumes "\<forall>e\<in>set es. \<not> is_result e" "rw_status x \<noteq> js ''dispatched''"
  shows "\<exists>y. fold row_step es (Some x) = Some y \<and> rw_status y = rw_status x \<and> rw_duration y = rw_duration x"
  using assms
proof (induction es arbitrary: x)
  case (Cons e es)
  obtain y where "row_step e (Some x) = Some y" "rw_status y = rw_status x" "rw_duration y = rw_duration x"
    using row_step_fields [of e x] Cons.prems by auto
  then show ?case using Cons.IH [of y] Cons.prems by auto
qed simp

section \<open>Properties\<close>

text \<open>C29: whatever commands, answers and events came in whatever order: the table shows exactly the rows the page
  holds, every device once, by increasing number; the counter of finished rows is the number of devices whose row is
  completed, failed or timed out, out of the number of devices with a row; and the devices offered for a rerun are
  exactly those whose row failed or timed out, each once, by increasing number.\<close>

theorem command_table_sound:
  assumes "cmd_reach s"
  shows "set (row_list s) = {r. \<exists>d. map_of (cp_rows s) d = Some r} \<and> sorted_wrt (<) (map rw_device (row_list s))
     \<and> (\<forall>d r. map_of (cp_rows s) d = Some r \<longrightarrow> rw_device r = d)
     \<and> length (row_list s) = card (dom (map_of (cp_rows s)))
     \<and> done_count s = card {d. \<exists>r. map_of (cp_rows s) d = Some r \<and> rw_status r \<in> {js ''completed'', js ''failed'', js ''timeout''}}
     \<and> set (failed_ids s) = {d. \<exists>r. map_of (cp_rows s) d = Some r \<and> rw_status r \<in> {js ''failed'', js ''timeout''}}
     \<and> sorted_wrt (<) (failed_ids s)"
proof -
  have ok: "rows_ok s" using assms by (rule cmd_reach_ok)
  note t = table_rows [OF ok]
  have "done_count s = length (map rw_device (filter row_done (row_list s)))" by (simp add: done_count_def)
  also have "\<dots> = card (set (map rw_device (filter row_done (row_list s))))"
    by (rule distinct_card [symmetric]) (rule distinct_map_filter [OF table_distinct [OF ok]])
  also have "set (map rw_device (filter row_done (row_list s)))
      = {d. \<exists>r. map_of (cp_rows s) d = Some r \<and> rw_status r \<in> {js ''completed'', js ''failed'', js ''timeout''}}"
    unfolding table_filter [OF ok] row_done_def ..
  finally have finished: "done_count s
      = card {d. \<exists>r. map_of (cp_rows s) d = Some r \<and> rw_status r \<in> {js ''completed'', js ''failed'', js ''timeout''}}" .
  have "set (failed_ids s) = {d. \<exists>r. map_of (cp_rows s) d = Some r \<and> rw_status r \<in> {js ''failed'', js ''timeout''}}"
    unfolding failed_ids_def table_filter [OF ok] by simp
  moreover have "sorted_wrt (<) (failed_ids s)"
    unfolding failed_ids_def using table_sorted [OF ok] by (simp add: sorted_wrt_map sorted_wrt_filter)
  ultimately show ?thesis
    using finished t table_sorted [OF ok] table_length [OF ok] rows_ok_lookup [OF ok] by blast
qed

text \<open>C28: interleaving does not mix devices. After any stream of events the row of a device is what its own events
  make of it, in their order and whatever lies between them; these are the lines and results that name the device and a
  command of the current run. They settle every column: device and command stay, status and duration are those of the
  last result (a line turns a dispatched row into a running one), and each event adds its line or error text to the
  output. A device without a row gets one with its first event; a device without events keeps what it had.\<close>

theorem command_streams_independent:
  "map_of (cp_rows (fold on_command_event es s)) d =
     (let own = filter (for_row (cp_known s) d) es in
      case map_of (cp_rows s) d of
        Some x \<Rightarrow> Some (row_after own x)
      | None \<Rightarrow> if own = [] then None else Some (row_after own (fresh_row d (ad_command (hd own)))))"
proof (cases "map_of (cp_rows s) d")
  case (Some x)
  then show ?thesis by (simp add: events_row row_fold)
next
  case None
  show ?thesis
  proof (cases "filter (for_row (cp_known s) d) es")
    case (Cons e own)
    then have "e \<in> set (filter (for_row (cp_known s) d) es)" by simp
    then have "for_row (cp_known s) d e" by simp
    then have "ad_device e = d" by (simp add: for_row_def)
    then have "fold row_step (e # own) None = fold row_step (e # own) (Some (fresh_row d (ad_command e)))"
      by (simp add: row_step_fresh)
    then show ?thesis unfolding events_row Cons None by (simp only: row_fold Let_def) simp
  qed (simp add: events_row None)
qed

text \<open>A result is final: once the result of a device has come, lines of output that arrive late are
  appended but neither its status nor its duration changes, until another result comes.\<close>

theorem command_result_final:
  assumes "map_of (cp_rows s) d = Some x" "for_row (cp_known s) d e" "ad_event e = js ''command_result''"
    and "\<forall>e'\<in>set es. ad_event e' \<noteq> js ''command_result''" "ad_status e \<noteq> Some (js ''dispatched'')"
  shows "\<exists>y. map_of (cp_rows (fold on_command_event es (on_command_event e s))) d = Some y
     \<and> rw_status y = str_or (ad_status e) (js ''completed'') \<and> rw_duration y = ad_duration e"
proof -
  have res: "is_result e" using assms(3) by (simp add: is_result_def js_def)
  obtain x1 where x1: "row_step e (Some x) = Some x1" "rw_status x1 = str_or (ad_status e) (js ''completed'')"
    "rw_duration x1 = ad_duration e"
    using row_step_fields [of e x] res by auto
  have "rw_status x1 \<noteq> js ''dispatched''"
    using assms(5) x1(2) by (auto simp: str_or_def js_def split: option.splits if_splits)
  moreover have "\<forall>e\<in>set (filter (for_row (cp_known s) d) es). \<not> is_result e"
    using assms(4) by (auto simp: for_row_def is_result_def)
  ultimately obtain y where "fold row_step (filter (for_row (cp_known s) d) es) (Some x1) = Some y"
    "rw_status y = rw_status x1" "rw_duration y = rw_duration x1"
    using row_fold_quiet by blast
  then show ?thesis using x1 assms(1,2) by (simp add: events_row event_row event_known)
qed

text \<open>What a device reports before the answer of the request is lost: the table after the answer does not
  depend on the events before it, so a result that overtakes the answer leaves its row as dispatched.\<close>

theorem early_results_lost:
  "cp_rows (run_created n created (fold on_command_event es s)) = cp_rows (run_created n created s)"
  by (simp add: created_rows)

section \<open>Witnesses\<close>

definition demo_created :: command_log where
  "demo_created = CommandLog 7 (js ''broadcast'') None (js ''uptime'') (js ''dispatched'') [] [] [] 0
     (Some [CommandLog 8 (js ''single'') (Some 3) (js ''uptime'') (js ''dispatched'') [] [] [] 0 None])"

definition demo_dev :: "int \<Rightarrow> device" where
  "demo_dev i = \<lparr>assigned_id = i, hostname = js ''pc'', local_ip = None, connected = True, checkin_status = 0, student_name = None,
     student_num = None, mac_address = None, client_version = None\<rparr>"

definition demo_page_run :: "cmd_ev list" where
  "demo_page_run = [Run_clicked [demo_dev 3], Created 1 demo_created]"

definition demo_cmd :: cmd_page where
  "demo_cmd = run cmd_step demo_page_run cmd_init"

definition demo_line :: admin_event where
  "demo_line = \<lparr>ad_event = js ''command_output'', ad_command = 8, ad_device = 3, ad_line = Some (js ''up''), ad_error = None,
     ad_status = None, ad_duration = 0\<rparr>"

definition demo_result :: admin_event where
  "demo_result = demo_line\<lparr>ad_event := js ''command_result'', ad_status := Some (js ''completed''), ad_duration := 20\<rparr>"

lemma demo_start: "run_start None [demo_dev 3] cmd_init =
    cp_send (http_send ''POST'' (js ''/api/commands'') (Json (run_body None [3] (js ''hostname && uptime'') M_online)))
      (cmd_init\<lparr>cp_busy := True, cp_waiting := [1]\<rparr>)"
proof -
  have "trim (js ''hostname && uptime'') = js ''hostname && uptime''" by (simp add: trim_def js_def is_ws_def)
  moreover have "js ''hostname && uptime'' \<noteq> []" by (simp add: js_def)
  ultimately show ?thesis
    by (simp add: run_start_def run_targets_def cmd_init_def load_history_def cp_send_def demo_dev_def Let_def)
qed

lemma demo_cmd_ok: "run_ok cmd_enabled cmd_step demo_page_run cmd_init"
proof -
  have "\<not> cp_busy cmd_init" by (simp add: cmd_init_def load_history_def cp_send_def)
  then show ?thesis by (simp add: demo_page_run_def demo_start) (simp add: cp_send_def)
qed

lemma demo_cmd_reach: "cmd_reach demo_cmd"
  unfolding cmd_reach_def demo_cmd_def by (rule reach_runI) (simp_all add: demo_cmd_ok)

lemma demo_cmd_state:
  "cp_rows demo_cmd = [(3, child_row 3 (hd (the (cl_children demo_created))))]" "cp_known demo_cmd = [(8, 3)]"
  by (simp_all add: demo_cmd_def demo_page_run_def created_rows) (simp_all add: demo_created_def)

lemma demo_cmd_row: "map_of (cp_rows demo_cmd) 3 = Some (child_row 3 (hd (the (cl_children demo_created))))"
  by (simp add: demo_cmd_state)

lemma demo_for_row: "for_row (cp_known demo_cmd) 3 demo_line" "for_row (cp_known demo_cmd) 3 demo_result"
  by (simp_all add: for_row_def demo_cmd_state demo_line_def demo_result_def)

lemma command_table_sound_witness: "done_count demo_cmd = 0 \<and> set (failed_ids demo_cmd) = {} \<and> length (row_list demo_cmd) = 1"
proof -
  have d: "map_of (cp_rows demo_cmd) d = Some r \<longleftrightarrow> d = 3 \<and> r = child_row 3 (hd (the (cl_children demo_created)))" for d r
    by (auto simp: demo_cmd_state)
  have st: "rw_status (child_row 3 (hd (the (cl_children demo_created)))) = js ''dispatched''"
    by (simp add: child_row_def demo_created_def)
  have "dom (map_of (cp_rows demo_cmd)) = {3}" by (simp add: demo_cmd_state)
  then show ?thesis using command_table_sound [OF demo_cmd_reach] by (simp add: d st js_eq)
qed

lemma command_streams_independent_witness:
  "map_of (cp_rows (fold on_command_event [demo_line, demo_result, demo_line] demo_cmd)) 3
     = Some \<lparr>rw_device = 3, rw_command = 8, rw_status = js ''completed'', rw_output = js ''up'' @ newline @ js ''up'' @ newline, rw_duration = 20\<rparr>"
proof -
  have "is_result demo_result" "\<not> is_result demo_line" by (simp_all add: is_result_def demo_result_def demo_line_def js_eq)
  moreover have "piece demo_line = js ''up'' @ newline" "piece demo_result = []"
    by (simp_all add: piece_def demo_result_def demo_line_def str_or_def truthy_str_def) (simp_all add: js_def)
  moreover have "rw_device (child_row 3 (hd (the (cl_children demo_created)))) = 3" "rw_command (child_row 3 (hd (the (cl_children demo_created)))) = 8"
    "rw_output (child_row 3 (hd (the (cl_children demo_created)))) = []"
    by (simp_all add: child_row_def demo_created_def)
  moreover have "str_or (ad_status demo_result) (js ''completed'') = js ''completed''" "ad_duration demo_result = 20"
    "js ''completed'' \<noteq> js ''dispatched''"
    by (simp_all add: demo_result_def str_or_def js_eq)
  ultimately show ?thesis
    using command_streams_independent [of "[demo_line, demo_result, demo_line]" demo_cmd 3] demo_for_row
    by (simp add: demo_cmd_row row_after_def status_after_def duration_after_def)
qed

lemma command_result_final_witness:
  "\<exists>y. map_of (cp_rows (fold on_command_event [demo_line] (on_command_event demo_result demo_cmd))) 3 = Some y
     \<and> rw_status y = js ''completed'' \<and> rw_duration y = 20"
  using command_result_final [OF demo_cmd_row demo_for_row(2), of "[demo_line]"]
  by (auto simp: demo_result_def demo_line_def str_or_def js_def)

end
