(* ===== verification/Command_Server.thy ===== *)
theory Command_Server
  imports Command_Page
begin

text \<open>
  The room server's side of a command: \<open>Execute\<close> of \<open>internal/service/command_handler.go\<close>,
  the dispatcher (\<open>internal/biz/command_dispatcher.go\<close>), the rows of \<open>command_log\<close>
  (\<open>internal/data/command_repo.go\<close>) and the messages \<open>command_output\<close>,
  \<open>command_result\<close> and the disconnect in \<open>internal/service/tcp_handler.go\<close>.

  A request that has several targets writes its rows and leaves a loop that pushes the children one
  after the other, each from its copy in memory; a request for one device leaves a send followed by
  a write of the row. The turns of these loops interleave with the messages of the machines. The
  send buffer of a connection holds 64 messages; a message is in the log \<open>cs_sent\<close> once it is in
  the buffer. A connection that replaces another is \<open>Link_down\<close> followed by \<open>Link_up\<close>.

  Here are the operations. \<^theory_text>\<open>Command_Batch\<close> and \<^theory_text>\<open>Command_Settle\<close> have the invariants,
  \<^theory_text>\<open>Command_Faults\<close> the properties and where the code leaves them, \<^theory_text>\<open>Console_Sync\<close> the console's
  table beside these rows.
\<close>

section \<open>Rows and state\<close>

record cmd_job =
  jb_parent :: "int option"
  jb_kind :: jstr
  jb_target :: "int option"
  jb_command :: jstr
  jb_status :: jstr
  jb_output :: jstr
  jb_error :: jstr
  jb_stamped :: bool \<comment> \<open>\<open>dispatched_at\<close> is not empty\<close>
  jb_duration :: int

definition st_dispatched :: jstr where "st_dispatched = js ''dispatched''"
definition st_complete :: jstr where "st_complete = js ''completed''"
definition st_failed :: jstr where "st_failed = js ''failed''"
definition st_timeout :: jstr where "st_timeout = js ''timeout''"
definition st_pending :: jstr where "st_pending = js ''pending''"
definition k_single :: jstr where "k_single = js ''single''"
definition k_broadcast :: jstr where "k_broadcast = js ''broadcast''"
definition k_list :: jstr where "k_list = js ''list''"

lemmas st_defs = st_dispatched_def st_complete_def st_failed_def st_timeout_def st_pending_def

definition settled :: "jstr \<Rightarrow> bool" where
  "settled st \<longleftrightarrow> st = st_complete \<or> st = st_failed \<or> st = st_timeout"

lemma st_neq [simp]:
  "st_dispatched \<noteq> st_complete" "st_dispatched \<noteq> st_failed" "st_complete \<noteq> st_failed"
  "st_complete \<noteq> st_dispatched" "st_failed \<noteq> st_dispatched" "st_failed \<noteq> st_complete"
  "st_pending \<noteq> st_dispatched" "st_pending \<noteq> st_complete" "st_dispatched \<noteq> st_timeout"
  "st_pending \<noteq> st_failed" "st_pending \<noteq> st_timeout"
  by (simp_all add: st_defs js_eq)

lemma kind_neq [simp]: "k_single \<noteq> k_broadcast" "k_single \<noteq> k_list" "k_broadcast \<noteq> k_list"
  "k_broadcast \<noteq> k_single" "k_list \<noteq> k_single" "k_list \<noteq> k_broadcast"
  by (simp_all add: k_single_def k_broadcast_def k_list_def js_eq)

lemma settled_simps [simp]: "settled st_complete" "settled st_failed" "settled st_timeout"
  "\<not> settled st_dispatched" "\<not> settled st_pending"
  by (simp_all add: settled_def)

text \<open>A loop of \<open>SendPrepared\<close>: the copies still to be sent, and those done.\<close>

record send_loop =
  sl_todo :: "(int \<times> cmd_job) list"
  sl_done :: "(int \<times> cmd_job) list"

text \<open>\<open>DispatchSingle\<close>: before the send, and between the send and the write of the row.\<close>

datatype single = Before_send cmd_job | Before_write cmd_job

text \<open>\<open>cmdOutput\<close>, the accumulated output of a running command.\<close>

record out_buf =
  ob_text :: jstr
  ob_truncated :: bool
  ob_dirty :: bool

record cmd_srv =
  cs_jobs :: "int \<rightharpoonup> cmd_job"
  cs_last :: int
  cs_links :: "(int \<times> nat) list" \<comment> \<open>connected devices with the number of buffered messages\<close>
  cs_sent :: "(int \<times> int) list"
  cs_loops :: "int \<rightharpoonup> send_loop"
  cs_singles :: "int \<rightharpoonup> single"
  cs_flight :: "int \<Rightarrow> int list" \<comment> \<open>\<open>inFlightCmds\<close> of the device's connection\<close>
  cs_buf :: "int \<rightharpoonup> out_buf"

section \<open>The table\<close>

text \<open>\<open>UpdateStatus\<close> writes the fields of the copy that is in memory.\<close>

definition update_status :: "int \<Rightarrow> cmd_job \<Rightarrow> cmd_srv \<Rightarrow> cmd_srv" where
  "update_status i j s = (case cs_jobs s i of None \<Rightarrow> s | Some r \<Rightarrow>
     s\<lparr>cs_jobs := (cs_jobs s)(i \<mapsto> r\<lparr>jb_status := jb_status j, jb_output := jb_output j,
       jb_error := jb_error j, jb_stamped := jb_stamped j \<or> jb_status j = st_dispatched,
       jb_duration := jb_duration j\<rparr>)\<rparr>)"

text \<open>\<open>Create\<close> leaves \<open>dispatched_at\<close> empty.\<close>

definition create_job :: "cmd_job \<Rightarrow> cmd_srv \<Rightarrow> cmd_srv" where
  "create_job j s = s\<lparr>cs_jobs := (cs_jobs s)(cs_last s + 1 \<mapsto> j\<lparr>jb_stamped := False\<rparr>),
     cs_last := cs_last s + 1\<rparr>"

text \<open>\<open>CreateChildren\<close>: one insert, consecutive numbers in the order of the list.\<close>

fun number_from :: "int \<Rightarrow> cmd_job list \<Rightarrow> (int \<times> cmd_job) list" where
  "number_from n [] = []"
| "number_from n (j # rest) = (n, j) # number_from (n + 1) rest"

definition create_children :: "int \<Rightarrow> cmd_job list \<Rightarrow> cmd_srv \<Rightarrow> (int \<times> cmd_job) list \<times> cmd_srv" where
  "create_children p children s =
     (let rows = number_from (cs_last s + 1) (map (\<lambda>j. j\<lparr>jb_parent := Some p\<rparr>) children)
      in (rows, s\<lparr>cs_jobs := (cs_jobs s) ++ map_of rows, cs_last := cs_last s + int (length rows)\<rparr>))"

text \<open>\<open>GetByParentID\<close>, in the order of the numbers; numbers above \<open>cs_last\<close> are not used.\<close>

definition child_ids :: "cmd_srv \<Rightarrow> int \<Rightarrow> int list" where
  "child_ids s p = filter (\<lambda>i. case cs_jobs s i of None \<Rightarrow> False | Some j \<Rightarrow> jb_parent j = Some p)
     [1..cs_last s]"

definition children_of :: "cmd_srv \<Rightarrow> int \<Rightarrow> cmd_job list" where
  "children_of s p = map (\<lambda>i. the (cs_jobs s i)) (child_ids s p)"

section \<open>Dispatching\<close>

definition buffer_size :: nat where "buffer_size = 64"

definition connected_ids :: "cmd_srv \<Rightarrow> int list" where
  "connected_ids s = sort (map fst (cs_links s))"

text \<open>The send on the channel with a \<open>default\<close> branch.\<close>

definition try_send :: "int \<Rightarrow> int \<Rightarrow> cmd_srv \<Rightarrow> cmd_srv option" where
  "try_send d i s = (case map_of (cs_links s) d of None \<Rightarrow> None
     | Some q \<Rightarrow> if q < buffer_size
         then Some (s\<lparr>cs_links := AList.update d (q + 1) (cs_links s), cs_sent := cs_sent s @ [(d, i)]\<rparr>)
         else None)"

definition t_not_connected :: "int \<Rightarrow> jstr" where
  "t_not_connected d = js ''device '' @ int_str d @ js '' is not connected''"

definition t_buffer_full :: jstr where "t_buffer_full = js ''send buffer full''"
definition t_no_devices :: jstr where "t_no_devices = js ''no devices connected''"

definition fail_job :: "jstr \<Rightarrow> cmd_job \<Rightarrow> cmd_job" where
  "fail_job e j = j\<lparr>jb_status := st_failed, jb_error := e\<rparr>"

text \<open>\<open>uniqueDeviceIDs\<close>: positive numbers, first occurrences, at most 4000.\<close>

fun fresh_ids :: "int list \<Rightarrow> int list \<Rightarrow> int list" where
  "fresh_ids seen [] = []"
| "fresh_ids seen (i # is) =
     (if i \<le> 0 \<or> i \<in> set seen then fresh_ids seen is else i # fresh_ids (i # seen) is)"

definition unique_device_ids :: "int list \<Rightarrow> int list" where
  "unique_device_ids ids = take 4000 (fresh_ids [] ids)"

text \<open>\<open>Materialize\<close>.\<close>

definition child_job :: "cmd_job \<Rightarrow> int list \<Rightarrow> int \<Rightarrow> cmd_job" where
  "child_job p up d =
     (let j = \<lparr>jb_parent = None, jb_kind = k_single, jb_target = Some d, jb_command = jb_command p,
        jb_status = st_dispatched, jb_output = [], jb_error = [], jb_stamped = True, jb_duration = 0\<rparr>
      in if d \<in> set up then j else (fail_job (t_not_connected d) j)\<lparr>jb_stamped := False\<rparr>)"

definition materialize :: "int \<Rightarrow> cmd_job \<Rightarrow> int list \<Rightarrow> cmd_srv \<Rightarrow> ((int \<times> cmd_job) list \<times> cmd_srv) option" where
  "materialize p j ids s =
     (let cs = map (child_job j (connected_ids s)) (fresh_ids [] ids)
      in if cs = [] then None else Some (create_children p cs s))"

text \<open>\<open>commandBatchSettled\<close>, on the copies in memory.\<close>

definition batch_settled :: "cmd_job list \<Rightarrow> bool" where
  "batch_settled cs \<longleftrightarrow> cs \<noteq> [] \<and> list_all (\<lambda>j. settled (jb_status j)) cs"

text \<open>The summary of \<open>UpdateBroadcastParentStatus\<close>: how many succeeded, failed and timed out, and the
  devices that did not succeed, at most forty of them named.\<close>

definition count_status :: "jstr \<Rightarrow> cmd_job list \<Rightarrow> nat" where
  "count_status st cs = length (filter (\<lambda>j. jb_status j = st) cs)"

definition t_total :: jstr where "t_total = [0x5171, 0x20]"
definition t_units :: jstr where "t_units = [0x20, 0x53F0, 0xFF1A, 0x6210, 0x529F, 0x20]"
definition t_failures :: jstr where "t_failures = [0xFF0C, 0x5931, 0x8D25, 0x20]"
definition t_timeouts :: jstr where "t_timeouts = [0xFF0C, 0x8D85, 0x65F6, 0x20]"
definition t_unsuccessful :: jstr where
  "t_unsuccessful = [0x0A, 0x672A, 0x6210, 0x529F, 0x8BBE, 0x5907, 0xFF1A]"
definition t_further :: jstr where "t_further = [0x20, 0x2026, 0xFF08, 0x53E6, 0x20]"
definition t_further_end :: jstr where "t_further_end = [0x20, 0x53F0, 0xFF09]"
definition t_expand :: jstr where
  "t_expand = [0x0A, 0xFF08, 0x5C55, 0x5F00, 0x67E5, 0x770B, 0x6BCF, 0x53F0, 0x8BBE, 0x5907, 0x7684,
     0x8BE6, 0x7EC6, 0x8F93, 0x51FA, 0xFF09]"

definition failed_names :: "cmd_job list \<Rightarrow> jstr list" where
  "failed_names cs = map (\<lambda>j. js ''#'' @ int_str (the (jb_target j)))
     (filter (\<lambda>j. jb_status j \<noteq> st_complete \<and> jb_target j \<noteq> None) cs)"

definition batch_summary :: "cmd_job list \<Rightarrow> jstr" where
  "batch_summary cs =
     (let fs = failed_names cs in
      t_total @ nat_digits (length cs) @ t_units @ nat_digits (count_status st_complete cs) @
      t_failures @ nat_digits (count_status st_failed cs) @
      t_timeouts @ nat_digits (count_status st_timeout cs) @
      (if fs = [] then [] else t_unsuccessful @ join (js '' '') (take 40 fs) @
        (if 40 < length fs then t_further @ nat_digits (length fs - 40) @ t_further_end else [])) @
      t_expand)"

definition settle_parent :: "int \<Rightarrow> cmd_srv \<Rightarrow> cmd_srv" where
  "settle_parent p s =
     (let cs = children_of s p in
      if list_all (\<lambda>j. settled (jb_status j)) cs
      then (case cs_jobs s p of None \<Rightarrow> s | Some j \<Rightarrow>
        update_status p (j\<lparr>jb_status := st_complete, jb_output := batch_summary cs,
          jb_duration := sum_list (map jb_duration cs)\<rparr>) s)
      else s)"

text \<open>One turn of the loop of \<open>SendPrepared\<close>, with \<open>dispatchToClient\<close>; the copy of a child is
  already stamped, so a successful send does not write its row.\<close>

definition send_child :: "int \<Rightarrow> cmd_job \<Rightarrow> cmd_srv \<Rightarrow> cmd_job \<times> cmd_srv" where
  "send_child i j s = (case jb_target j of None \<Rightarrow> (j, s) | Some d \<Rightarrow>
     if jb_status j \<noteq> st_dispatched then (j, s)
     else (case map_of (cs_links s) d of
       None \<Rightarrow> let f = fail_job (t_not_connected d) j in (f, update_status i f s)
     | Some _ \<Rightarrow> (case try_send d i s of
         None \<Rightarrow> let f = fail_job t_buffer_full j in (f, update_status i f s)
       | Some s' \<Rightarrow> if jb_stamped j then (j, s') else (j, update_status i j s'))))"

definition send_next :: "int \<Rightarrow> cmd_srv \<Rightarrow> cmd_srv" where
  "send_next p s = (case cs_loops s p of None \<Rightarrow> s | Some l \<Rightarrow> (case sl_todo l of
       [] \<Rightarrow> s
     | (i, j) # rest \<Rightarrow> let (j', s') = send_child i j s in
         s'\<lparr>cs_loops := (cs_loops s')(p \<mapsto> \<lparr>sl_todo = rest, sl_done = sl_done l @ [(i, j')]\<rparr>)\<rparr>))"

definition loop_end :: "int \<Rightarrow> cmd_srv \<Rightarrow> cmd_srv" where
  "loop_end p s = (case cs_loops s p of None \<Rightarrow> s | Some l \<Rightarrow>
     let s' = s\<lparr>cs_loops := (cs_loops s)(p := None)\<rparr>
     in if batch_settled (map snd (sl_done l)) then settle_parent p s' else s')"

definition single_send :: "int \<Rightarrow> cmd_srv \<Rightarrow> cmd_srv" where
  "single_send i s = (case cs_singles s i of
     Some (Before_send j) \<Rightarrow> (case jb_target j of
         None \<Rightarrow> s\<lparr>cs_singles := (cs_singles s)(i := None)\<rparr>
       | Some d \<Rightarrow> (case map_of (cs_links s) d of
           None \<Rightarrow> (update_status i (fail_job (t_not_connected d) j) s)\<lparr>cs_singles := (cs_singles s)(i := None)\<rparr>
         | Some _ \<Rightarrow> (case try_send d i s of
             None \<Rightarrow> (update_status i (fail_job t_buffer_full j) s)\<lparr>cs_singles := (cs_singles s)(i := None)\<rparr>
           | Some s' \<Rightarrow> s'\<lparr>cs_singles := (cs_singles s)(i \<mapsto> Before_write j)\<rparr>)))
   | _ \<Rightarrow> s)"

definition single_write :: "int \<Rightarrow> cmd_srv \<Rightarrow> cmd_srv" where
  "single_write i s = (case cs_singles s i of
     Some (Before_write j) \<Rightarrow>
       (update_status i (j\<lparr>jb_status := st_dispatched\<rparr>) s)\<lparr>cs_singles := (cs_singles s)(i := None)\<rparr>
   | _ \<Rightarrow> s)"

text \<open>The number of bytes of a text in UTF-8; each half of a surrogate pair counts two.\<close>

definition unit_bytes :: "nat \<Rightarrow> nat" where
  "unit_bytes c = (if c < 0x80 then 1 else if c < 0x800 then 2 else if 0xD800 \<le> c \<and> c \<le> 0xDFFF then 2 else 3)"

definition byte_count :: "jstr \<Rightarrow> nat" where
  "byte_count s = sum_list (map unit_bytes s)"

section \<open>The request\<close>

record cmd_ask =
  ak_kind :: jstr
  ak_target :: "int option"
  ak_targets :: "int list"
  ak_command :: jstr

datatype ask_error = E_no_command | E_too_long | E_bad_kind | E_no_target | E_no_targets

definition ask_refused :: "cmd_ask \<Rightarrow> ask_error option" where
  "ask_refused a =
     (if ak_command a = [] then Some E_no_command
      else if 65536 < byte_count (ak_command a) then Some E_too_long
      else if ak_kind a \<noteq> k_single \<and> ak_kind a \<noteq> k_broadcast \<and> ak_kind a \<noteq> k_list then Some E_bad_kind
      else if ak_kind a = k_single \<and> ak_target a = None then Some E_no_target
      else if ak_kind a = k_list \<and> unique_device_ids (ak_targets a) = [] then Some E_no_targets
      else None)"

definition ask_job :: "cmd_ask \<Rightarrow> cmd_job" where
  "ask_job a = \<lparr>jb_parent = None, jb_kind = ak_kind a, jb_target = ak_target a, jb_command = ak_command a,
     jb_status = st_dispatched, jb_output = [], jb_error = [], jb_stamped = False, jb_duration = 0\<rparr>"

definition execute :: "cmd_ask \<Rightarrow> cmd_srv \<Rightarrow> cmd_srv" where
  "execute a s = (if ask_refused a \<noteq> None then s else
     let j = ask_job a; p = cs_last s + 1; s1 = create_job j s in
     if ak_kind a = k_single then s1\<lparr>cs_singles := (cs_singles s1)(p \<mapsto> Before_send j)\<rparr>
     else let ids = (if ak_kind a = k_broadcast then connected_ids s1 else unique_device_ids (ak_targets a)) in
       if ids = [] then update_status p (fail_job t_no_devices j) s1
       else (case materialize p j ids s1 of
           None \<Rightarrow> s1
         | Some (rows, s2) \<Rightarrow> s2\<lparr>cs_loops := (cs_loops s2)(p \<mapsto> \<lparr>sl_todo = rows, sl_done = []\<rparr>)\<rparr>))"

section \<open>Messages of the machines\<close>

definition max_output :: nat where "max_output = 262144"

definition t_truncated :: jstr where
  "t_truncated = [0x0A, 0x2026, 0x20, 0x5B, 0x8F93, 0x51FA, 0x8D85, 0x8FC7, 0x20] @ js ''256KB''
     @ [0xFF0C, 0x5DF2, 0x622A, 0x65AD, 0x5D, 0x20, 0x2026, 0x0A]"

text \<open>\<open>appendOutput\<close>: the limit, the marker at the first line that does not fit, and whether the text
  is to be written now, when it has changed and a second has passed since the last write (\<open>due\<close>).\<close>

definition append_line :: "jstr \<Rightarrow> out_buf \<Rightarrow> out_buf" where
  "append_line line b =
     (if ob_truncated b then b
      else if byte_count (ob_text b) + byte_count line + 1 > max_output
      then b\<lparr>ob_text := ob_text b @ t_truncated, ob_truncated := True, ob_dirty := True\<rparr>
      else b\<lparr>ob_text := ob_text b @ line @ newline, ob_dirty := True\<rparr>)"

definition buffer_of :: "int \<Rightarrow> cmd_srv \<Rightarrow> out_buf" where
  "buffer_of i s = (case cs_buf s i of None \<Rightarrow> \<lparr>ob_text = [], ob_truncated = False, ob_dirty = False\<rparr> | Some b \<Rightarrow> b)"

text \<open>\<open>UpdateOutput\<close> writes the column \<open>output\<close> only.\<close>

definition update_output :: "int \<Rightarrow> jstr \<Rightarrow> cmd_srv \<Rightarrow> cmd_srv" where
  "update_output i t s = s\<lparr>cs_jobs := (cs_jobs s)(i := map_option (\<lambda>j. j\<lparr>jb_output := t\<rparr>) (cs_jobs s i))\<rparr>"

definition cmd_output :: "int \<Rightarrow> int \<Rightarrow> jstr \<Rightarrow> bool \<Rightarrow> cmd_srv \<Rightarrow> cmd_srv" where
  "cmd_output d i line due s =
     (let b = append_line line (buffer_of i s);
          flush = (ob_dirty b \<and> due);
          s1 = s\<lparr>cs_flight := (cs_flight s)(d := List.insert i (cs_flight s d)),
                 cs_buf := (cs_buf s)(i \<mapsto> b\<lparr>ob_dirty := ob_dirty b \<and> \<not> due\<rparr>)\<rparr>
      in if flush then update_output i (ob_text b) s1 else s1)"

definition cmd_result :: "int \<Rightarrow> int \<Rightarrow> jstr \<Rightarrow> jstr \<Rightarrow> int \<Rightarrow> cmd_srv \<Rightarrow> cmd_srv" where
  "cmd_result d i st err dur s =
     (let s1 = s\<lparr>cs_flight := (cs_flight s)(d := removeAll i (cs_flight s d))\<rparr> in
      case cs_jobs s1 i of None \<Rightarrow> s1
      | Some j \<Rightarrow>
        let j' = j\<lparr>jb_status := st, jb_error := err, jb_duration := dur,
                   jb_output := (case cs_buf s1 i of None \<Rightarrow> jb_output j | Some b \<Rightarrow> ob_text b)\<rparr>;
            s2 = update_status i j' (s1\<lparr>cs_buf := (cs_buf s1)(i := None)\<rparr>)
        in (case jb_parent j of None \<Rightarrow> s2 | Some p \<Rightarrow> settle_parent p s2))"

text \<open>\<open>failInFlightCommands\<close> and \<open>dropOutputs\<close>, then the connection is gone.\<close>

definition t_disconnected :: jstr where "t_disconnected = js ''client disconnected''"

definition fail_flight :: "int \<Rightarrow> cmd_srv \<Rightarrow> cmd_srv" where
  "fail_flight i s = (case cs_jobs s i of None \<Rightarrow> s | Some j \<Rightarrow>
     if jb_status j = st_dispatched \<or> jb_status j = st_pending
     then let s' = update_status i (fail_job t_disconnected j) s
       in (case jb_parent j of None \<Rightarrow> s' | Some p \<Rightarrow> settle_parent p s')
     else s)"

definition link_down :: "int \<Rightarrow> cmd_srv \<Rightarrow> cmd_srv" where
  "link_down d s =
     (let s1 = fold fail_flight (cs_flight s d) s in
      s1\<lparr>cs_buf := (\<lambda>i. if i \<in> set (cs_flight s d) then None else cs_buf s1 i),
         cs_flight := (cs_flight s1)(d := []), cs_links := AList.delete d (cs_links s1)\<rparr>)"

text \<open>A new connection starts with its \<open>register_response\<close> in the buffer.\<close>

definition link_up :: "int \<Rightarrow> cmd_srv \<Rightarrow> cmd_srv" where
  "link_up d s = s\<lparr>cs_links := AList.update d 1 (cs_links s), cs_flight := (cs_flight s)(d := [])\<rparr>"

text \<open>The write pump takes a message out of the buffer; other parts of the server put one in.\<close>

definition set_load :: "int \<Rightarrow> (nat \<Rightarrow> nat) \<Rightarrow> cmd_srv \<Rightarrow> cmd_srv" where
  "set_load d f s = (case map_of (cs_links s) d of None \<Rightarrow> s
     | Some q \<Rightarrow> s\<lparr>cs_links := AList.update d (min buffer_size (f q)) (cs_links s)\<rparr>)"

definition clear_jobs :: "cmd_srv \<Rightarrow> cmd_srv" where
  "clear_jobs s = s\<lparr>cs_jobs := Map.empty\<rparr>"

section \<open>The machine\<close>

datatype sv_ev = Ask cmd_ask | Send_next int | Loop_end int | Single_send int | Single_write int
  | Link_up int | Link_down int | Pump int | Push int
  | Output int int jstr bool | Result int int jstr jstr int | Clear_jobs

fun sv_step :: "sv_ev \<Rightarrow> cmd_srv \<Rightarrow> cmd_srv" where
  "sv_step (Ask a) s = execute a s"
| "sv_step (Send_next p) s = send_next p s"
| "sv_step (Loop_end p) s = loop_end p s"
| "sv_step (Single_send i) s = single_send i s"
| "sv_step (Single_write i) s = single_write i s"
| "sv_step (Link_up d) s = link_up d s"
| "sv_step (Link_down d) s = link_down d s"
| "sv_step (Pump d) s = set_load d (\<lambda>q. q - 1) s"
| "sv_step (Push d) s = set_load d (\<lambda>q. q + 1) s"
| "sv_step (Output d i line due) s = cmd_output d i line due s"
| "sv_step (Result d i st err dur) s = cmd_result d i st err dur s"
| "sv_step Clear_jobs s = clear_jobs s"

text \<open>A connected machine reports on what was sent to it, and a result is one of the three the agent
  knows (\<open>runCommandStreaming\<close> of \<open>cmd/client/main.go\<close>).\<close>

fun sv_enabled :: "cmd_srv \<Rightarrow> sv_ev \<Rightarrow> bool" where
  "sv_enabled s (Send_next p) = (\<exists>l. cs_loops s p = Some l \<and> sl_todo l \<noteq> [])"
| "sv_enabled s (Loop_end p) = (\<exists>l. cs_loops s p = Some l \<and> sl_todo l = [])"
| "sv_enabled s (Single_send i) = (\<exists>j. cs_singles s i = Some (Before_send j))"
| "sv_enabled s (Single_write i) = (\<exists>j. cs_singles s i = Some (Before_write j))"
| "sv_enabled s (Link_up d) = (0 < d \<and> map_of (cs_links s) d = None)"
| "sv_enabled s (Link_down d) = (map_of (cs_links s) d \<noteq> None)"
| "sv_enabled s (Output d i line due) = (map_of (cs_links s) d \<noteq> None \<and> (d, i) \<in> set (cs_sent s))"
| "sv_enabled s (Result d i st err dur) =
     (map_of (cs_links s) d \<noteq> None \<and> (d, i) \<in> set (cs_sent s) \<and> settled st)"
| "sv_enabled s _ = True"

definition sv_init :: cmd_srv where
  "sv_init = \<lparr>cs_jobs = Map.empty, cs_last = 0, cs_links = [], cs_sent = [], cs_loops = Map.empty,
     cs_singles = Map.empty, cs_flight = (\<lambda>_. []), cs_buf = Map.empty\<rparr>"

definition sv_reach :: "cmd_srv \<Rightarrow> bool" where
  "sv_reach s \<longleftrightarrow> reach (\<lambda>s. s = sv_init) sv_enabled sv_step s"

end
