(* ===== verification/Command_Batch.thy ===== *)
theory Command_Batch
  imports Command_Server
begin

text \<open>
  The first two invariants of the server's side of a command: every message waits in one place and
  leaves it once, for the machine of its row (\<open>queue_ok\<close>); a batch that counts as completed has
  settled children only, and the copies a loop still has to send are stamped (\<open>batch_ok\<close>).
\<close>

section \<open>Frames\<close>

text \<open>What no update of a row changes.\<close>

definition frame :: "cmd_job \<Rightarrow> int option \<times> jstr \<times> int option" where
  "frame j = (jb_parent j, jb_kind j, jb_target j)"

definition frames :: "cmd_srv \<Rightarrow> int \<Rightarrow> (int option \<times> jstr \<times> int option) option" where
  "frames s i = map_option frame (cs_jobs s i)"

text \<open>Everything but the contents of the rows: two states with the same skeleton differ in statuses,
  texts, buffers and links only.\<close>

definition skeleton :: "cmd_srv \<Rightarrow> (int \<Rightarrow> (int option \<times> jstr \<times> int option) option) \<times> int \<times>
    (int \<times> int) list \<times> (int \<rightharpoonup> send_loop) \<times> (int \<rightharpoonup> single)" where
  "skeleton s = (frames s, cs_last s, cs_sent s, cs_loops s, cs_singles s)"

lemma update_status_fields [simp]:
  "cs_last (update_status i j s) = cs_last s" "cs_sent (update_status i j s) = cs_sent s"
  "cs_loops (update_status i j s) = cs_loops s" "cs_singles (update_status i j s) = cs_singles s"
  "cs_links (update_status i j s) = cs_links s" "cs_flight (update_status i j s) = cs_flight s"
  "cs_buf (update_status i j s) = cs_buf s"
  by (auto simp: update_status_def split: option.split)

lemma update_status_jobs:
  "cs_jobs (update_status i j s) k = (if k = i then map_option (\<lambda>r. r\<lparr>jb_status := jb_status j,
     jb_output := jb_output j, jb_error := jb_error j,
     jb_stamped := jb_stamped j \<or> jb_status j = st_dispatched, jb_duration := jb_duration j\<rparr>) (cs_jobs s i)
     else cs_jobs s k)"
  by (auto simp: update_status_def split: option.split)

lemma update_status_frames [simp]: "frames (update_status i j s) = frames s"
  by (rule ext) (auto simp: frames_def update_status_jobs frame_def option.map_comp comp_def intro: option.map_cong)

lemma settle_parent_fields [simp]:
  "cs_last (settle_parent p s) = cs_last s" "cs_sent (settle_parent p s) = cs_sent s"
  "cs_loops (settle_parent p s) = cs_loops s" "cs_singles (settle_parent p s) = cs_singles s"
  "cs_links (settle_parent p s) = cs_links s" "cs_flight (settle_parent p s) = cs_flight s"
  "cs_buf (settle_parent p s) = cs_buf s" "frames (settle_parent p s) = frames s"
  by (auto simp: settle_parent_def Let_def split: option.split)

lemma fail_flight_fields [simp]:
  "cs_last (fail_flight i s) = cs_last s" "cs_sent (fail_flight i s) = cs_sent s"
  "cs_loops (fail_flight i s) = cs_loops s" "cs_singles (fail_flight i s) = cs_singles s"
  "cs_links (fail_flight i s) = cs_links s" "cs_flight (fail_flight i s) = cs_flight s"
  "cs_buf (fail_flight i s) = cs_buf s" "frames (fail_flight i s) = frames s"
  by (auto simp: fail_flight_def Let_def split: option.split)

lemma fold_fail_fields [simp]:
  "cs_last (fold fail_flight is s) = cs_last s" "cs_sent (fold fail_flight is s) = cs_sent s"
  "cs_loops (fold fail_flight is s) = cs_loops s" "cs_singles (fold fail_flight is s) = cs_singles s"
  "cs_links (fold fail_flight is s) = cs_links s" "cs_flight (fold fail_flight is s) = cs_flight s"
  "cs_buf (fold fail_flight is s) = cs_buf s" "frames (fold fail_flight is s) = frames s"
  by (induction "is" arbitrary: s) auto

lemma update_output_fields [simp]:
  "cs_last (update_output i t s) = cs_last s" "cs_sent (update_output i t s) = cs_sent s"
  "cs_loops (update_output i t s) = cs_loops s" "cs_singles (update_output i t s) = cs_singles s"
  "cs_flight (update_output i t s) = cs_flight s" "cs_links (update_output i t s) = cs_links s"
  by (auto simp: update_output_def)

lemma update_output_frames [simp]: "frames (update_output i t s) = frames s"
  by (rule ext) (auto simp: frames_def update_output_def frame_def option.map_comp comp_def intro: option.map_cong)

lemma frames_cong: "cs_jobs s = cs_jobs t \<Longrightarrow> frames s = frames t"
  by (simp add: frames_def fun_eq_iff)

lemma skeleton_simps [simp]:
  "skeleton (update_status i j s) = skeleton s" "skeleton (settle_parent p s) = skeleton s"
  "skeleton (fail_flight i s) = skeleton s" "skeleton (fold fail_flight is s) = skeleton s"
  "skeleton (update_output i t s) = skeleton s"
  "skeleton (s\<lparr>cs_flight := f\<rparr>) = skeleton s" "skeleton (s\<lparr>cs_buf := b\<rparr>) = skeleton s"
  "skeleton (s\<lparr>cs_links := l\<rparr>) = skeleton s"
  by (auto simp: skeleton_def intro!: frames_cong)

text \<open>The messages of the machines and the comings and goings leave the skeleton alone.\<close>

lemma cmd_result_skeleton [simp]: "skeleton (cmd_result d i st err dur s) = skeleton s"
  by (auto simp: cmd_result_def Let_def split: option.split)

lemma cmd_output_skeleton [simp]: "skeleton (cmd_output d i line due s) = skeleton s"
  by (auto simp: cmd_output_def Let_def)

lemma links_skeleton [simp]:
  "skeleton (link_down d s) = skeleton s" "skeleton (link_up d s) = skeleton s"
  "skeleton (set_load d f s) = skeleton s"
  by (auto simp: link_down_def link_up_def set_load_def Let_def split: option.split)

section \<open>Every message to its device, once\<close>

text \<open>A number that stands for a message to device \<open>t\<close>: its row, when it is still there, is a row for
  one device, that one.\<close>

definition addressed :: "cmd_srv \<Rightarrow> int \<Rightarrow> int option \<Rightarrow> bool" where
  "addressed s i t \<longleftrightarrow> (\<forall>f. frames s i = Some f \<longrightarrow> fst (snd f) = k_single \<and> snd (snd f) = t)"

text \<open>The loop or single send a number is waiting in.\<close>

datatype place = In_loop int | In_single

definition waits :: "cmd_srv \<Rightarrow> place \<Rightarrow> int \<Rightarrow> int option \<Rightarrow> bool" where
  "waits s w i t \<longleftrightarrow> (case w of
     In_loop p \<Rightarrow> (\<exists>l j. cs_loops s p = Some l \<and> (i, j) \<in> set (sl_todo l) \<and> jb_target j = t)
   | In_single \<Rightarrow> (\<exists>j. cs_singles s i = Some (Before_send j) \<and> jb_target j = t))"

definition queue_ok :: "cmd_srv \<Rightarrow> bool" where
  "queue_ok s \<longleftrightarrow> 0 \<le> cs_last s \<and>
    (\<forall>i f. frames s i = Some f \<longrightarrow> 0 < i \<and> i \<le> cs_last s \<and> (\<forall>p. fst f = Some p \<longrightarrow> 0 < p \<and> p < i)) \<and>
    (\<forall>d i. (d, i) \<in> set (cs_sent s) \<longrightarrow> i \<le> cs_last s \<and> addressed s i (Some d)) \<and>
    (\<forall>p. cs_loops s p \<noteq> None \<longrightarrow> p \<le> cs_last s) \<and>
    (\<forall>i. cs_singles s i \<noteq> None \<longrightarrow> i \<le> cs_last s) \<and>
    (\<forall>w i t. waits s w i t \<longrightarrow> i \<le> cs_last s \<and> i \<notin> snd ` set (cs_sent s) \<and> addressed s i t) \<and>
    (\<forall>w w' i t t'. waits s w i t \<longrightarrow> waits s w' i t' \<longrightarrow> w = w') \<and>
    (\<forall>p l. cs_loops s p = Some l \<longrightarrow> distinct (map fst (sl_todo l))) \<and>
    distinct (map snd (cs_sent s))"

lemma queue_okI:
  assumes "0 \<le> cs_last s"
    and "\<And>i f. frames s i = Some f \<Longrightarrow> 0 < i \<and> i \<le> cs_last s \<and> (\<forall>p. fst f = Some p \<longrightarrow> 0 < p \<and> p < i)"
    and "\<And>d i. (d, i) \<in> set (cs_sent s) \<Longrightarrow> i \<le> cs_last s \<and> addressed s i (Some d)"
    and "\<And>p. cs_loops s p \<noteq> None \<Longrightarrow> p \<le> cs_last s"
    and "\<And>i. cs_singles s i \<noteq> None \<Longrightarrow> i \<le> cs_last s"
    and "\<And>w i t. waits s w i t \<Longrightarrow> i \<le> cs_last s \<and> i \<notin> snd ` set (cs_sent s) \<and> addressed s i t"
    and "\<And>w w' i t t'. waits s w i t \<Longrightarrow> waits s w' i t' \<Longrightarrow> w = w'"
    and "\<And>p l. cs_loops s p = Some l \<Longrightarrow> distinct (map fst (sl_todo l))"
    and "distinct (map snd (cs_sent s))"
  shows "queue_ok s"
  unfolding queue_ok_def using assms by blast

lemma queue_okD:
  assumes "queue_ok s"
  shows "0 \<le> cs_last s"
    and "frames s i = Some f \<Longrightarrow> 0 < i \<and> i \<le> cs_last s \<and> (\<forall>p. fst f = Some p \<longrightarrow> 0 < p \<and> p < i)"
    and "(d, i) \<in> set (cs_sent s) \<Longrightarrow> i \<le> cs_last s \<and> addressed s i (Some d)"
    and "cs_loops s p \<noteq> None \<Longrightarrow> p \<le> cs_last s"
    and "cs_singles s i \<noteq> None \<Longrightarrow> i \<le> cs_last s"
    and "waits s w i t \<Longrightarrow> i \<le> cs_last s \<and> i \<notin> snd ` set (cs_sent s) \<and> addressed s i t"
    and "waits s w i t \<Longrightarrow> waits s w' i t' \<Longrightarrow> w = w'"
    and "cs_loops s p = Some l \<Longrightarrow> distinct (map fst (sl_todo l))"
    and "distinct (map snd (cs_sent s))"
proof -
  note q = assms [unfolded queue_ok_def]
  note c1 = q [THEN conjunct1]
  note c2 = q [THEN conjunct2, THEN conjunct1]
  note c3 = q [THEN conjunct2, THEN conjunct2, THEN conjunct1]
  note c4 = q [THEN conjunct2, THEN conjunct2, THEN conjunct2, THEN conjunct1]
  note c5 = q [THEN conjunct2, THEN conjunct2, THEN conjunct2, THEN conjunct2, THEN conjunct1]
  note c6 = q [THEN conjunct2, THEN conjunct2, THEN conjunct2, THEN conjunct2, THEN conjunct2, THEN conjunct1]
  note c7 = q [THEN conjunct2, THEN conjunct2, THEN conjunct2, THEN conjunct2, THEN conjunct2, THEN conjunct2, THEN conjunct1]
  note c8 = q [THEN conjunct2, THEN conjunct2, THEN conjunct2, THEN conjunct2, THEN conjunct2, THEN conjunct2, THEN conjunct2, THEN conjunct1]
  note c9 = q [THEN conjunct2, THEN conjunct2, THEN conjunct2, THEN conjunct2, THEN conjunct2, THEN conjunct2, THEN conjunct2, THEN conjunct2]
  show "0 \<le> cs_last s" by (rule c1)
  show "0 < i \<and> i \<le> cs_last s \<and> (\<forall>p. fst f = Some p \<longrightarrow> 0 < p \<and> p < i)" if "frames s i = Some f" using that c2 by blast
  show "i \<le> cs_last s \<and> addressed s i (Some d)" if "(d, i) \<in> set (cs_sent s)" using that c3 by blast
  show "p \<le> cs_last s" if "cs_loops s p \<noteq> None" using that c4 by blast
  show "i \<le> cs_last s" if "cs_singles s i \<noteq> None" using that c5 by blast
  show "i \<le> cs_last s \<and> i \<notin> snd ` set (cs_sent s) \<and> addressed s i t" if "waits s w i t" using that c6 by blast
  show "w = w'" if "waits s w i t" "waits s w' i t'" using that c7 by blast
  show "distinct (map fst (sl_todo l))" if "cs_loops s p = Some l" using that c8 by blast
  show "distinct (map snd (cs_sent s))" by (rule c9)
qed

lemma queue_ok_skeleton:
  assumes "queue_ok s" "skeleton t = skeleton s"
  shows "queue_ok t"
proof -
  have eqs: "frames t = frames s" "cs_last t = cs_last s" "cs_sent t = cs_sent s" "cs_loops t = cs_loops s"
    "cs_singles t = cs_singles s"
    using assms(2) by (simp_all add: skeleton_def)
  have "waits t = waits s" by (intro ext, simp only: waits_def eqs)
  moreover have "addressed t = addressed s" by (intro ext, simp only: addressed_def eqs)
  ultimately have "queue_ok t = queue_ok s" by (simp only: queue_ok_def eqs)
  with assms(1) show ?thesis by (simp only:)
qed

text \<open>Less is waiting, nothing more is sent.\<close>

lemma queue_ok_less:
  assumes "queue_ok s" "frames t = frames s \<or> frames t = Map.empty" "cs_last t = cs_last s" "cs_sent t = cs_sent s"
    and "\<And>p. cs_loops t p \<noteq> None \<Longrightarrow> cs_loops s p \<noteq> None"
    and "\<And>i. cs_singles t i \<noteq> None \<Longrightarrow> cs_singles s i \<noteq> None"
    and "\<And>w i u. waits t w i u \<Longrightarrow> waits s w i u"
    and "\<And>p l. cs_loops t p = Some l \<Longrightarrow> distinct (map fst (sl_todo l))"
  shows "queue_ok t"
proof (rule queue_okI)
  have addr: "addressed t i u" if "addressed s i u" for i u
    using that assms(2) by (auto simp: addressed_def)
  show "i \<le> cs_last t \<and> addressed t i (Some d)" if "(d, i) \<in> set (cs_sent t)" for d i
    using that queue_okD(3) [OF assms(1)] addr assms(3,4) by simp
  show "i \<le> cs_last t \<and> i \<notin> snd ` set (cs_sent t) \<and> addressed t i u" if "waits t w i u" for w i u
    using assms(7) [OF that] queue_okD(6) [OF assms(1)] addr assms(3,4) by simp
  show "0 < i \<and> i \<le> cs_last t \<and> (\<forall>p. fst f = Some p \<longrightarrow> 0 < p \<and> p < i)" if "frames t i = Some f" for i f
    using that assms(2,3) queue_okD(2) [OF assms(1), of i f] by auto
qed (use assms queue_okD [OF assms(1)] in \<open>auto dest: assms(5,6)\<close>, metis+)

text \<open>One message leaves where it waited.\<close>

lemma queue_ok_send:
  assumes "queue_ok s" "waits s w i (Some d)" "frames t = frames s" "cs_last t = cs_last s"
    "cs_sent t = cs_sent s @ [(d, i)]"
    and "\<And>p. cs_loops t p \<noteq> None \<Longrightarrow> cs_loops s p \<noteq> None"
    and "\<And>i. cs_singles t i \<noteq> None \<Longrightarrow> cs_singles s i \<noteq> None"
    and sub: "\<And>v k u. waits t v k u \<Longrightarrow> waits s v k u \<and> \<not> (v = w \<and> k = i)"
    and "\<And>p l. cs_loops t p = Some l \<Longrightarrow> distinct (map fst (sl_todo l))"
  shows "queue_ok t"
proof (rule queue_okI)
  have addr: "addressed t = addressed s" using assms(3) by (simp add: addressed_def fun_eq_iff)
  note here = queue_okD(6) [OF assms(1,2)]
  show "k \<le> cs_last t \<and> addressed t k (Some e)" if "(e, k) \<in> set (cs_sent t)" for e k
    using that queue_okD(3) [OF assms(1)] assms(4,5) addr here by auto
  show "k \<le> cs_last t \<and> k \<notin> snd ` set (cs_sent t) \<and> addressed t k u" if "waits t v k u" for v k u
    using sub [OF that] queue_okD(6) [OF assms(1)] queue_okD(7) [OF assms(1) _ assms(2)] assms(4,5) addr by auto
  show "distinct (map snd (cs_sent t))"
    using queue_okD(9) [OF assms(1)] here assms(5) by auto
  show "v = v'" if "waits t v k u" "waits t v' k u'" for v v' k u u'
    using sub [OF that(1)] sub [OF that(2)] queue_okD(7) [OF assms(1)] by blast
qed (use assms queue_okD [OF assms(1)] in auto)

lemma try_send_fields:
  assumes "try_send d i s = Some t"
  shows "cs_jobs t = cs_jobs s" "cs_last t = cs_last s" "cs_loops t = cs_loops s"
    "cs_singles t = cs_singles s" "cs_sent t = cs_sent s @ [(d, i)]" "frames t = frames s"
    "cs_flight t = cs_flight s"
  using assms by (auto simp: try_send_def frames_def fun_eq_iff split: option.splits if_splits)

lemma send_child_effect:
  assumes "send_child i j s = (j', t)"
  shows "frames t = frames s" "cs_last t = cs_last s" "cs_loops t = cs_loops s"
    "cs_singles t = cs_singles s" "jb_target j' = jb_target j"
    "cs_sent t = cs_sent s \<or> (\<exists>d. jb_target j = Some d \<and> cs_sent t = cs_sent s @ [(d, i)])"
    "cs_flight t = cs_flight s"
  using assms
  by (auto simp: send_child_def fail_job_def Let_def try_send_fields split: option.splits if_splits)

lemma send_next_ok:
  assumes "queue_ok s"
  shows "queue_ok (send_next p s)"
proof (cases "cs_loops s p")
  case (Some l)
  show ?thesis
  proof (cases "sl_todo l")
    case (Cons ij rest)
    obtain i j where "ij = (i, j)" by fastforce
    note 3 = Some Cons [unfolded this]
    obtain j' t where send: "send_child i j s = (j', t)" by fastforce
    let ?t = "t\<lparr>cs_loops := (cs_loops t)(p \<mapsto> \<lparr>sl_todo = rest, sl_done = sl_done l @ [(i, j')]\<rparr>)\<rparr>"
    have eq: "send_next p s = ?t" by (simp add: send_next_def 3 send)
    have fr: "frames ?t = frames s" using send_child_effect(1) [OF send] by (simp add: frames_def fun_eq_iff)
    note eff = send_child_effect [OF send]
    have dist: "distinct (map fst ((i, j) # rest))" using queue_okD(8) [OF assms 3(1)] 3(2) by simp
    then have keep: "waits ?t w k u \<Longrightarrow> waits s w k u \<and> \<not> (w = In_loop p \<and> k = i)" for w k u
      using 3 eff(3,4) by (cases w) (auto simp: waits_def split: if_splits intro: rev_image_eqI)
    have loops: "distinct (map fst (sl_todo m))" if "cs_loops ?t q = Some m" for q m
      using that dist eff(3) queue_okD(8) [OF assms] by (auto split: if_splits)
    show ?thesis
    proof (cases "cs_sent t = cs_sent s")
      case True
      then show ?thesis unfolding eq
        by (intro queue_ok_less [OF assms]) (use keep loops eff fr 3 in \<open>auto split: if_splits\<close>)
    next
      case False
      then obtain d where d: "jb_target j = Some d" "cs_sent t = cs_sent s @ [(d, i)]" using eff(6) by blast
      show ?thesis unfolding eq
        by (intro queue_ok_send [OF assms, of "In_loop p" i d])
          (use keep loops eff fr 3 d in \<open>auto simp: waits_def split: if_splits\<close>)
    qed
  qed (simp add: send_next_def Some assms)
qed (simp add: send_next_def assms)

lemma loop_end_ok:
  assumes "queue_ok s"
  shows "queue_ok (loop_end p s)"
proof (cases "cs_loops s p")
  case (Some l)
  let ?t = "s\<lparr>cs_loops := (cs_loops s)(p := None)\<rparr>"
  have sub: "waits ?t w i u \<Longrightarrow> waits s w i u" for w i u
    by (cases w) (auto simp: waits_def split: if_splits)
  have "queue_ok ?t"
    by (intro queue_ok_less [OF assms])
      (use sub queue_okD(8) [OF assms] in \<open>auto simp: frames_def fun_eq_iff split: if_splits\<close>)
  then have "queue_ok (settle_parent p ?t)" by (rule queue_ok_skeleton) simp
  with \<open>queue_ok ?t\<close> show ?thesis by (simp add: loop_end_def Some Let_def)
qed (simp add: loop_end_def assms)

lemma single_gone:
  assumes "queue_ok s" "frames t = frames s" "cs_last t = cs_last s" "cs_sent t = cs_sent s"
    "cs_loops t = cs_loops s" "cs_singles t = (cs_singles s)(i := None)"
  shows "queue_ok t"
proof (intro queue_ok_less [OF assms(1)])
  show "waits t w k u \<Longrightarrow> waits s w k u" for w k u
    using assms(5,6) by (cases w) (auto simp: waits_def split: if_splits)
qed (use assms queue_okD(8) [OF assms(1)] in \<open>auto split: if_splits\<close>)

lemma frames_upd [simp]: "frames (s\<lparr>cs_singles := x\<rparr>) = frames s" "frames (s\<lparr>cs_loops := y\<rparr>) = frames s"
  by (simp_all add: frames_def fun_eq_iff)

lemma frames_new_row [simp]:
  "frames (s\<lparr>cs_jobs := (cs_jobs s)(i \<mapsto> j), cs_last := n\<rparr>) = (frames s)(i \<mapsto> frame j)"
  by (simp add: frames_def fun_eq_iff)

lemma single_write_ok: "queue_ok s \<Longrightarrow> queue_ok (single_write i s)"
  by (auto simp: single_write_def split: option.split single.split intro: single_gone)

lemma single_send_ok:
  assumes "queue_ok s"
  shows "queue_ok (single_send i s)"
proof (cases "\<exists>j d t. cs_singles s i = Some (Before_send j) \<and> jb_target j = Some d \<and> try_send d i s = Some t")
  case True
  then obtain j d t where j: "cs_singles s i = Some (Before_send j)" "jb_target j = Some d"
    and t: "try_send d i s = Some t" by blast
  have linked: "\<exists>q. map_of (cs_links s) d = Some q" using t by (auto simp: try_send_def split: option.splits)
  let ?t = "t\<lparr>cs_singles := (cs_singles s)(i \<mapsto> Before_write j)\<rparr>"
  have sub: "waits ?t v k u \<Longrightarrow> waits s v k u \<and> \<not> (v = In_single \<and> k = i)" for v k u
    using try_send_fields [OF t] by (cases v) (auto simp: waits_def split: if_splits)
  have "queue_ok ?t"
    by (intro queue_ok_send [OF assms, of In_single i d])
      (use sub try_send_fields [OF t] j queue_okD(8) [OF assms] in \<open>auto simp: waits_def split: if_splits\<close>)
  with j t linked show ?thesis by (auto simp: single_send_def)
next
  case False
  then show ?thesis
    using assms by (auto simp: single_send_def split: option.split single.split intro: single_gone)
qed

lemma clear_jobs_ok: "queue_ok s \<Longrightarrow> queue_ok (clear_jobs s)"
proof (rule queue_ok_less)
  show "waits (clear_jobs s) w i u \<Longrightarrow> waits s w i u" for w i u
    by (cases w) (auto simp: waits_def clear_jobs_def)
  show "frames (clear_jobs s) = frames s \<or> frames (clear_jobs s) = Map.empty"
    by (simp add: clear_jobs_def frames_def fun_eq_iff)
qed (auto simp: clear_jobs_def dest: queue_okD(8))

section \<open>New rows\<close>

lemma number_from_length [simp]: "length (number_from n cs) = length cs"
  by (induction n cs rule: number_from.induct) auto

lemma number_from_Nil [simp]: "number_from n cs = [] \<longleftrightarrow> cs = []"
  by (cases cs) auto

lemma number_from_fst: "map fst (number_from n cs) = [n..n + int (length cs) - 1]"
  by (induction n cs rule: number_from.induct) (simp_all add: upto_rec1 algebra_simps)

lemma number_from_snd: "map snd (number_from n cs) = cs"
  by (induction n cs rule: number_from.induct) auto

lemma number_from_mem: "(i, j) \<in> set (number_from n cs) \<Longrightarrow> n \<le> i \<and> i < n + int (length cs) \<and> j \<in> set cs"
proof -
  assume m: "(i, j) \<in> set (number_from n cs)"
  have "i \<in> set (map fst (number_from n cs))" "j \<in> set (map snd (number_from n cs))" using m by force+
  then show ?thesis by (simp only: number_from_fst number_from_snd set_upto) auto
qed

lemma number_from_map_of:
  "map_of (number_from n cs) i = Some j \<longleftrightarrow> (i, j) \<in> set (number_from n cs)"
  by (intro map_of_eq_Some_iff) (simp add: number_from_fst)

lemma fresh_ids_props:
  "distinct (fresh_ids seen is) \<and> set (fresh_ids seen is) = {i \<in> set is. 0 < i} - set seen"
  by (induction "is" arbitrary: seen) auto

lemma fresh_ids_id: "distinct is \<Longrightarrow> (\<And>i. i \<in> set is \<Longrightarrow> 0 < i \<and> i \<notin> set seen) \<Longrightarrow> fresh_ids seen is = is"
proof (induction "is" arbitrary: seen)
  case (Cons i "is")
  have "fresh_ids (i # seen) is = is" by (rule Cons.IH) (use Cons.prems in auto)
  then show ?case using Cons.prems(2) [of i] by simp
qed simp

text \<open>The rows of a batch for the devices \<open>ids\<close>, and the state with parent and children.\<close>

definition batch_rows :: "cmd_ask \<Rightarrow> int list \<Rightarrow> int list \<Rightarrow> int \<Rightarrow> (int \<times> cmd_job) list" where
  "batch_rows a up ids p = number_from (p + 1)
     (map (\<lambda>d. (child_job (ask_job a) up d)\<lparr>jb_parent := Some p\<rparr>) (fresh_ids [] ids))"

definition batch_state :: "cmd_ask \<Rightarrow> int list \<Rightarrow> cmd_srv \<Rightarrow> cmd_srv" where
  "batch_state a ids s =
     (let p = cs_last s + 1; rows = batch_rows a (connected_ids s) ids p
      in s\<lparr>cs_jobs := (cs_jobs s)(p \<mapsto> ask_job a) ++ map_of rows,
           cs_last := p + int (length rows),
           cs_loops := (cs_loops s)(p \<mapsto> \<lparr>sl_todo = rows, sl_done = []\<rparr>)\<rparr>)"

definition ask_ids :: "cmd_ask \<Rightarrow> cmd_srv \<Rightarrow> int list" where
  "ask_ids a s = (if ak_kind a = k_broadcast then connected_ids s else unique_device_ids (ak_targets a))"

lemma ask_job_simps [simp]: "jb_stamped (ask_job a) = False" "jb_parent (ask_job a) = None"
  "jb_kind (ask_job a) = ak_kind a" "jb_target (ask_job a) = ak_target a" "jb_status (ask_job a) = st_dispatched"
  by (simp_all add: ask_job_def)

lemma ask_job_create: "(ask_job a)\<lparr>jb_stamped := False\<rparr> = ask_job a"
  by (simp add: ask_job_def)

lemma create_job_fields [simp]: "cs_links (create_job j s) = cs_links s" "cs_last (create_job j s) = cs_last s + 1"
  by (simp_all add: create_job_def)

text \<open>The four ways a request ends.\<close>

lemma execute_cases:
  obtains (refused) "ask_refused a \<noteq> None" "execute a s = s"
    | (single) "ask_refused a = None" "ak_kind a = k_single"
        "execute a s = s\<lparr>cs_jobs := (cs_jobs s)(cs_last s + 1 \<mapsto> ask_job a), cs_last := cs_last s + 1,
           cs_singles := (cs_singles s)(cs_last s + 1 \<mapsto> Before_send (ask_job a))\<rparr>"
    | (nobody) st er where "ask_refused a = None" "ak_kind a \<noteq> k_single" "fresh_ids [] (ask_ids a s) = []"
        "execute a s = s\<lparr>cs_jobs := (cs_jobs s)(cs_last s + 1 \<mapsto> (ask_job a)\<lparr>jb_status := st, jb_error := er\<rparr>),
           cs_last := cs_last s + 1\<rparr>" "ask_ids a s = [] \<longrightarrow> st = st_failed" "st = st_failed \<or> st = st_dispatched"
    | (batch) "ask_refused a = None" "ak_kind a \<noteq> k_single" "fresh_ids [] (ask_ids a s) \<noteq> []"
        "execute a s = batch_state a (ask_ids a s) s"
proof (cases "ask_refused a = None")
  case False
  then show ?thesis by (intro refused) (auto simp: execute_def)
next
  case ok: True
  show ?thesis
  proof (cases "ak_kind a = k_single")
    case True
    with ok show ?thesis by (intro single) (auto simp: execute_def create_job_def ask_job_create Let_def)
  next
    case multi: False
    have ids: "ask_ids a s = (if ak_kind a = k_broadcast then connected_ids (create_job (ask_job a) s)
        else unique_device_ids (ak_targets a))"
      by (simp add: ask_ids_def connected_ids_def)
    show ?thesis
    proof (cases "fresh_ids [] (ask_ids a s) = []")
      case True
      show ?thesis
      proof (cases "ask_ids a s = []")
        case empty: True
        show ?thesis
          by (rule nobody [OF ok multi True, where st = st_failed and er = t_no_devices])
            (use ok multi empty ids in \<open>auto simp: execute_def Let_def update_status_def create_job_def
              fail_job_def ask_job_create ask_job_def\<close>)
      next
        case False
        show ?thesis
          by (rule nobody [OF ok multi True, where st = st_dispatched and er = "[]"])
            (use ok multi True False ids in \<open>auto simp: execute_def Let_def create_job_def
              ask_job_create ask_job_def materialize_def\<close>)
      qed
    next
      case False
      then have "ask_ids a s \<noteq> []" by auto
      with False show ?thesis
        by (intro batch [OF ok multi False])
          (use ok multi ids in \<open>auto simp: execute_def Let_def create_job_def ask_job_create materialize_def
            create_children_def batch_state_def batch_rows_def connected_ids_def comp_def algebra_simps\<close>)
    qed
  qed
qed

lemma child_job_simps [simp]:
  "jb_target (child_job j up d) = Some d" "jb_kind (child_job j up d) = k_single"
  "jb_status (child_job j up d) = (if d \<in> set up then st_dispatched else st_failed)"
  "jb_stamped (child_job j up d) = (d \<in> set up)"
  by (simp_all add: child_job_def Let_def fail_job_def)

lemma batch_rows_mem:
  assumes "(i, j) \<in> set (batch_rows a up ids p)"
  shows "p < i \<and> i \<le> p + int (length (batch_rows a up ids p)) \<and> jb_parent j = Some p \<and> jb_kind j = k_single \<and>
    (\<exists>d\<in>set ids. 0 < d \<and> jb_target j = Some d \<and> jb_status j = (if d \<in> set up then st_dispatched else st_failed)
      \<and> jb_stamped j = (d \<in> set up))"
proof -
  let ?cs = "map (\<lambda>d. (child_job (ask_job a) up d)\<lparr>jb_parent := Some p\<rparr>) (fresh_ids [] ids)"
  have n: "p + 1 \<le> i" "i < p + 1 + int (length ?cs)" "j \<in> set ?cs"
    using number_from_mem [OF assms [unfolded batch_rows_def]] by blast+
  have len: "length (batch_rows a up ids p) = length ?cs" by (simp add: batch_rows_def)
  obtain d where d: "d \<in> set (fresh_ids [] ids)" "j = (child_job (ask_job a) up d)\<lparr>jb_parent := Some p\<rparr>"
    using n(3) by auto
  then have "d \<in> set ids" "0 < d" using fresh_ids_props [of "[]" ids] by auto
  with n d(2) show ?thesis unfolding len by auto
qed

lemma batch_rows_distinct: "distinct (map fst (batch_rows a up ids p))"
  by (simp add: batch_rows_def number_from_fst)

lemma batch_rows_map_of: "map_of (batch_rows a up ids p) i = Some j \<longleftrightarrow> (i, j) \<in> set (batch_rows a up ids p)"
  by (simp add: batch_rows_def number_from_map_of)

lemma batch_jobs:
  "cs_jobs (batch_state a ids s) i =
     (case map_of (batch_rows a (connected_ids s) ids (cs_last s + 1)) i of
        Some j \<Rightarrow> Some j
      | None \<Rightarrow> if i = cs_last s + 1 then Some (ask_job a) else cs_jobs s i)"
  by (auto simp: batch_state_def Let_def map_add_def split: option.split)

lemma batch_frames:
  assumes "frames (batch_state a ids s) i = Some f"
  shows "frames s i = Some f \<or> (i = cs_last s + 1 \<and> fst f = None) \<or>
    (\<exists>j. (i, j) \<in> set (batch_rows a (connected_ids s) ids (cs_last s + 1)) \<and> f = frame j)"
  using assms by (auto simp: frames_def batch_jobs batch_rows_map_of [symmetric] frame_def
      split: option.splits if_splits)

lemma addressed_old: "addressed s i u \<Longrightarrow> (frames t i = frames s i) \<Longrightarrow> addressed t i u"
  by (simp add: addressed_def)

lemma batch_state_ok:
  assumes "queue_ok s"
  shows "queue_ok (batch_state a ids s)"
proof -
  define p where "p = cs_last s + 1"
  define rows where "rows = batch_rows a (connected_ids s) ids p"
  let ?t = "batch_state a ids s"
  note q = queue_okD [OF assms]
  have t: "cs_last ?t = p + int (length rows)" "cs_sent ?t = cs_sent s" "cs_singles ?t = cs_singles s"
    "cs_loops ?t = (cs_loops s)(p \<mapsto> \<lparr>sl_todo = rows, sl_done = []\<rparr>)"
    by (simp_all add: batch_state_def p_def rows_def Let_def)
  have old: "frames ?t i = frames s i" if "i \<le> cs_last s" for i
    using that batch_rows_mem [of i _ a "connected_ids s" ids p]
    by (auto simp: frames_def batch_jobs batch_rows_map_of p_def split: option.split)
  have new: "jb_target j = u \<Longrightarrow> (i, j) \<in> set rows \<Longrightarrow> addressed ?t i u" for i j u
    using batch_rows_mem [of i j a "connected_ids s" ids p]
    by (auto simp: addressed_def frames_def batch_jobs batch_rows_map_of [symmetric] rows_def p_def frame_def)
  have w: "waits ?t v i u \<longleftrightarrow> (waits s v i u \<and> v \<noteq> In_loop p \<or> v = In_loop p \<and> (\<exists>j. (i, j) \<in> set rows \<and> jb_target j = u))"
    for v i u
    using t(3,4) by (cases v) (auto simp: waits_def)
  have above: "cs_last s < i \<and> i \<le> cs_last ?t" if "(i, j) \<in> set rows" for i j
    using batch_rows_mem [OF that [unfolded rows_def]] t(1) by (auto simp: p_def rows_def)
  show ?thesis
  proof (rule queue_okI)
    show "0 < i \<and> i \<le> cs_last ?t \<and> (\<forall>r. fst f = Some r \<longrightarrow> 0 < r \<and> r < i)" if "frames ?t i = Some f" for i f
      using batch_frames [OF that]
    proof (elim disjE exE conjE)
      assume "frames s i = Some f"
      then show ?thesis using q(2) [of i f] t(1) by (auto simp: p_def)
    next
      fix j assume j: "(i, j) \<in> set (batch_rows a (connected_ids s) ids (cs_last s + 1))" "f = frame j"
      then have "cs_last s < i \<and> i \<le> cs_last ?t" using above by (simp add: rows_def p_def)
      moreover have "fst f = Some p" "p < i" using batch_rows_mem [OF j(1)] j(2) by (auto simp: frame_def p_def)
      ultimately show ?thesis using q(1) by (simp add: p_def)
    qed (use q(1) t(1) in \<open>auto simp: p_def\<close>)
    show "i \<le> cs_last ?t \<and> addressed ?t i (Some d)" if "(d, i) \<in> set (cs_sent ?t)" for d i
      using that q(3) [of d i] addressed_old [OF _ old] t(1,2) by (auto simp: p_def)
    show "i \<le> cs_last ?t \<and> i \<notin> snd ` set (cs_sent ?t) \<and> addressed ?t i u" if "waits ?t v i u" for v i u
    proof -
      consider "waits s v i u" | j where "(i, j) \<in> set rows" "jb_target j = u"
        using \<open>waits ?t v i u\<close> unfolding w by blast
      then show ?thesis
      proof cases
        case 1
        then show ?thesis using q(6) [OF 1] addressed_old [OF _ old] t(1,2) by (auto simp: p_def)
      next
        case 2
        then show ?thesis using new above [OF 2(1)] q(3) [of _ i] t(2) by force
      qed
    qed
    show "v = v'" if "waits ?t v i u" "waits ?t v' i u'" for v v' i u u'
    proof -
      have "\<not> (waits s v'' i u'' \<and> (i, j) \<in> set rows)" for v'' u'' j using q(6) [of v'' i u''] above [of i j] by auto
      then show ?thesis using that q(7) [of v i u v' u'] unfolding w by blast
    qed
    show "distinct (map fst (sl_todo l))" if "cs_loops ?t r = Some l" for r l
      using that q(8) t(4) batch_rows_distinct by (auto simp: rows_def split: if_splits)
    show "r \<le> cs_last ?t" if "cs_loops ?t r \<noteq> None" for r
      using that q(4) [of r] t(1,4) by (auto simp: p_def split: if_splits)
    show "i \<le> cs_last ?t" if "cs_singles ?t i \<noteq> None" for i
      using that q(5) [of i] t(1,3) by (auto simp: p_def)
  qed (use q t in \<open>auto simp: p_def\<close>)
qed

text \<open>A row without children and the single send that may wait for it.\<close>

lemma lone_row_ok:
  assumes "queue_ok s" "jb_parent j = None" "sg = None \<or> (sg = Some (Before_send j) \<and> jb_kind j = k_single)"
  shows "queue_ok (s\<lparr>cs_jobs := (cs_jobs s)(cs_last s + 1 \<mapsto> j), cs_last := cs_last s + 1,
    cs_singles := (case sg of None \<Rightarrow> cs_singles s | Some g \<Rightarrow> (cs_singles s)(cs_last s + 1 \<mapsto> g))\<rparr>)"
    (is "queue_ok ?t")
proof (rule queue_okI)
  note q = queue_okD [OF assms(1)]
  have w: "waits ?t v i u \<longleftrightarrow> (waits s v i u \<and> \<not> (v = In_single \<and> i = cs_last s + 1 \<and> sg \<noteq> None)) \<or>
      (v = In_single \<and> i = cs_last s + 1 \<and> sg \<noteq> None \<and> jb_target j = u)" for v i u
    using assms(3) by (cases v) (auto simp: waits_def split: option.split)
  show "0 < i \<and> i \<le> cs_last ?t \<and> (\<forall>r. fst f = Some r \<longrightarrow> 0 < r \<and> r < i)" if "frames ?t i = Some f" for i f
    using that q(1) q(2) [of i f] assms(2) by (auto simp: frame_def split: if_splits)
  show "i \<le> cs_last ?t \<and> addressed ?t i (Some d)" if "(d, i) \<in> set (cs_sent ?t)" for d i
    using that q(3) [of d i] by (auto simp: addressed_def)
  show "i \<le> cs_last ?t \<and> i \<notin> snd ` set (cs_sent ?t) \<and> addressed ?t i u" if "waits ?t v i u" for v i u
    using that q(3) [of _ i] q(6) [of v i u] assms(2,3) unfolding w addressed_def by (auto simp: frame_def)
  show "v = v'" if "waits ?t v i u" "waits ?t v' i u'" for v v' i u u'
    using that q(7) [of v i u v' u'] q(6) [of v i u] q(6) [of v' i u'] unfolding w by auto
  show "i \<le> cs_last ?t" if "cs_singles ?t i \<noteq> None" for i
    using that q(5) [of i] by (auto split: option.splits if_splits)
  show "r \<le> cs_last ?t" if "cs_loops ?t r \<noteq> None" for r
    using that q(4) [of r] by auto
  show "distinct (map fst (sl_todo l))" if "cs_loops ?t r = Some l" for r l
    using that q(8) by simp
qed (use queue_okD [OF assms(1)] in auto)

lemma execute_ok:
  assumes "queue_ok s"
  shows "queue_ok (execute a s)"
proof (cases rule: execute_cases [of a s])
  case single
  then show ?thesis using lone_row_ok [OF assms, of "ask_job a" "Some (Before_send (ask_job a))"] by simp
next
  case (nobody st er)
  then show ?thesis
    using lone_row_ok [OF assms, of "(ask_job a)\<lparr>jb_status := st, jb_error := er\<rparr>" None] by simp
qed (simp_all add: assms batch_state_ok)

lemma queue_ok_step:
  assumes "queue_ok s"
  shows "queue_ok (sv_step e s)"
  by (cases e) (auto simp: assms execute_ok send_next_ok loop_end_ok single_send_ok single_write_ok clear_jobs_ok
      intro: queue_ok_skeleton [OF assms])

lemma queue_ok_init: "queue_ok sv_init"
  by (rule queue_okI) (auto simp: sv_init_def waits_def frames_def split: place.splits)

interpretation queue: invariant_machine "\<lambda>s. s = sv_init" sv_enabled sv_step queue_ok
  by unfold_locales (simp_all add: queue_ok_init queue_ok_step)

section \<open>A completed batch is settled\<close>

definition all_children :: "cmd_srv \<Rightarrow> int \<Rightarrow> (cmd_job \<Rightarrow> bool) \<Rightarrow> bool" where
  "all_children s p P \<longleftrightarrow> (\<forall>i j. cs_jobs s i = Some j \<longrightarrow> jb_parent j = Some p \<longrightarrow> P j)"

definition is_settled :: "cmd_job \<Rightarrow> bool" where
  "is_settled j \<longleftrightarrow> settled (jb_status j)"

lemma children_all:
  assumes "queue_ok s"
  shows "list_all (\<lambda>j. settled (jb_status j)) (children_of s p) \<longleftrightarrow> all_children s p is_settled"
proof -
  have "1 \<le> i \<and> i \<le> cs_last s" if "cs_jobs s i = Some j" for i j
    using queue_okD(2) [OF assms, of i "frame j"] that by (simp add: frames_def)
  then have "set (child_ids s p) = {i. \<exists>j. cs_jobs s i = Some j \<and> jb_parent j = Some p}"
    by (auto simp: child_ids_def split: option.splits)
  then show ?thesis
    by (fastforce simp: children_of_def list_all_iff all_children_def is_settled_def)
qed

definition done_sound :: "cmd_srv \<Rightarrow> bool" where
  "done_sound s \<longleftrightarrow> (\<forall>p j. cs_jobs s p = Some j \<longrightarrow> jb_kind j \<noteq> k_single \<longrightarrow> jb_status j = st_complete \<longrightarrow>
     all_children s p is_settled)"

text \<open>The statuses with the frames decide it.\<close>

definition view :: "cmd_job \<Rightarrow> (int option \<times> jstr \<times> int option) \<times> jstr" where
  "view j = (frame j, jb_status j)"

definition views :: "cmd_srv \<Rightarrow> int \<Rightarrow> ((int option \<times> jstr \<times> int option) \<times> jstr) option" where
  "views s i = map_option view (cs_jobs s i)"

lemma viewsE:
  assumes "views t = views s" "cs_jobs t i = Some j"
  obtains j' where "cs_jobs s i = Some j'" "jb_parent j' = jb_parent j" "jb_kind j' = jb_kind j"
    "jb_status j' = jb_status j" "jb_target j' = jb_target j"
proof -
  have "views s i = Some (view j)" using assms by (metis option.simps(9) views_def)
  then show ?thesis using that by (auto simp: views_def view_def frame_def)
qed

lemma all_children_views:
  assumes "views t = views s" "all_children s p is_settled"
  shows "all_children t p is_settled"
  unfolding all_children_def
proof (intro allI impI)
  fix i j assume "cs_jobs t i = Some j" "jb_parent j = Some p"
  then obtain j' where "cs_jobs s i = Some j'" "jb_parent j' = Some p" "jb_status j' = jb_status j"
    by (metis viewsE [OF assms(1)])
  with assms(2) show "is_settled j" unfolding all_children_def is_settled_def by metis
qed

lemma done_sound_views:
  assumes "done_sound s" "views t = views s"
  shows "done_sound t"
  unfolding done_sound_def
proof (intro allI impI)
  fix p j assume "cs_jobs t p = Some j" "jb_kind j \<noteq> k_single" "jb_status j = st_complete"
  with assms(1) show "all_children t p is_settled"
    by (elim viewsE [OF assms(2)]) (auto simp: done_sound_def intro: all_children_views [OF assms(2)])
qed

lemma done_sound_upd [simp]:
  "done_sound (s\<lparr>cs_flight := f\<rparr>) = done_sound s" "done_sound (s\<lparr>cs_buf := b\<rparr>) = done_sound s"
  "done_sound (s\<lparr>cs_links := l\<rparr>) = done_sound s" "done_sound (s\<lparr>cs_loops := lo\<rparr>) = done_sound s"
  "done_sound (s\<lparr>cs_singles := g\<rparr>) = done_sound s"
  by (simp_all add: done_sound_def all_children_def)

lemma views_cong: "cs_jobs t = cs_jobs s \<Longrightarrow> views t = views s"
  by (simp add: views_def fun_eq_iff)

lemma update_output_views [simp]: "views (update_output i t s) = views s"
  by (rule ext) (auto simp: views_def update_output_def view_def frame_def option.map_comp comp_def intro: option.map_cong)

lemma update_status_view:
  "views (update_status i j s) k =
     (if k = i then map_option (\<lambda>v. (fst v, jb_status j)) (views s i) else views s k)"
  by (auto simp: views_def update_status_jobs view_def frame_def option.map_comp comp_def intro: option.map_cong)

text \<open>The two conditions under which a new status of a row is harmless.\<close>

lemma update_sound:
  assumes "done_sound s"
    and "\<And>r. cs_jobs s i = Some r \<Longrightarrow> jb_parent r \<noteq> None \<Longrightarrow> settled (jb_status j)"
    and "\<And>r. cs_jobs s i = Some r \<Longrightarrow> jb_kind r \<noteq> k_single \<Longrightarrow> jb_status j = st_complete \<Longrightarrow> all_children s i is_settled"
  shows "done_sound (update_status i j s)"
proof -
  have keep: "all_children (update_status i j s) p is_settled" if "all_children s p is_settled" for p
    using that assms(2)
    by (fastforce simp: all_children_def update_status_jobs is_settled_def split: if_splits)
  show ?thesis
    unfolding done_sound_def
  proof (intro allI impI)
    fix p r assume r: "cs_jobs (update_status i j s) p = Some r" "jb_kind r \<noteq> k_single" "jb_status r = st_complete"
    show "all_children (update_status i j s) p is_settled"
    proof (cases "p = i")
      case True
      with r obtain r0 where "cs_jobs s i = Some r0" "jb_kind r0 \<noteq> k_single" "jb_status j = st_complete"
        by (auto simp: update_status_jobs)
      with assms(3) True show ?thesis by (auto intro: keep)
    next
      case False
      with r assms(1) have "all_children s p is_settled" by (auto simp: update_status_jobs done_sound_def)
      then show ?thesis by (rule keep)
    qed
  qed
qed

lemma settle_parent_sound:
  assumes "done_sound s" "queue_ok s"
  shows "done_sound (settle_parent p s)"
proof (cases "all_children s p is_settled")
  case True
  then show ?thesis
    using assms(1) by (auto simp: settle_parent_def Let_def intro!: update_sound split: option.split)
next
  case False
  then show ?thesis using assms children_all [OF assms(2), of p] by (simp add: settle_parent_def Let_def)
qed

lemma fail_flight_sound:
  assumes "done_sound s" "queue_ok s"
  shows "done_sound (fail_flight i s)"
proof -
  have "done_sound (update_status i (fail_job e j) s)" "queue_ok (update_status i (fail_job e j) s)" for e j
    using assms by (auto intro!: update_sound queue_ok_skeleton [OF assms(2)] simp: fail_job_def)
  then show ?thesis
    using assms by (auto simp: fail_flight_def Let_def intro: settle_parent_sound split: option.split)
qed

lemma fold_fail_sound:
  "done_sound s \<Longrightarrow> queue_ok s \<Longrightarrow> done_sound (fold fail_flight is s)"
proof (induction "is" arbitrary: s)
  case (Cons i "is")
  have "queue_ok (fail_flight i s)" by (rule queue_ok_skeleton [OF Cons.prems(2)]) simp
  with Cons show ?case by (simp add: fail_flight_sound)
qed simp

lemma cmd_result_sound:
  assumes "done_sound s" "queue_ok s" "(d, i) \<in> set (cs_sent s)" "settled st"
  shows "done_sound (cmd_result d i st err dur s)"
proof (cases "cs_jobs s i")
  case None
  then show ?thesis using assms(1) by (simp add: cmd_result_def Let_def)
next
  case (Some j)
  define j' where "j' = j\<lparr>jb_status := st, jb_error := err, jb_duration := dur,
     jb_output := (case cs_buf s i of None \<Rightarrow> jb_output j | Some b \<Rightarrow> ob_text b)\<rparr>"
  define s1 where "s1 = s\<lparr>cs_flight := (cs_flight s)(d := removeAll i (cs_flight s d)), cs_buf := (cs_buf s)(i := None)\<rparr>"
  have "done_sound s1" "queue_ok s1" and jobs: "cs_jobs s1 = cs_jobs s"
    using assms(1,2) by (auto simp: s1_def intro: done_sound_views views_cong queue_ok_skeleton)
  moreover have "jb_kind j = k_single"
    using queue_okD(3) [OF assms(2,3)] Some by (auto simp: addressed_def frames_def frame_def)
  ultimately have "done_sound (update_status i j' s1)" "queue_ok (update_status i j' s1)"
    using assms(4) Some by (auto simp: j'_def intro!: update_sound intro: queue_ok_skeleton)
  moreover have "cmd_result d i st err dur s =
      (case jb_parent j of None \<Rightarrow> update_status i j' s1 | Some p \<Rightarrow> settle_parent p (update_status i j' s1))"
    by (cases "jb_parent j") (simp_all add: cmd_result_def Let_def Some j'_def s1_def)
  ultimately show ?thesis by (auto intro: settle_parent_sound split: option.split)
qed

lemma link_down_sound:
  "done_sound s \<Longrightarrow> queue_ok s \<Longrightarrow> done_sound (link_down d s)"
  by (simp add: link_down_def Let_def fold_fail_sound)

lemma update_output_sound: "done_sound s \<Longrightarrow> done_sound (update_output i t s)"
  by (erule done_sound_views) simp

lemma cmd_output_sound: "done_sound s \<Longrightarrow> done_sound (cmd_output d i line due s)"
  by (auto simp: cmd_output_def Let_def intro: update_output_sound)

text \<open>Singles have no parent; the copies in the loops that are still to be sent are stamped.\<close>

definition copies_ok :: "cmd_srv \<Rightarrow> bool" where
  "copies_ok s \<longleftrightarrow>
    (\<forall>i f. cs_singles s i \<noteq> None \<longrightarrow> frames s i = Some f \<longrightarrow> fst f = None \<and> fst (snd f) = k_single) \<and>
    (\<forall>p l i j. cs_loops s p = Some l \<longrightarrow> (i, j) \<in> set (sl_todo l) \<longrightarrow> jb_status j = st_dispatched \<longrightarrow> jb_stamped j)"

lemma copies_okD:
  "copies_ok s \<Longrightarrow> cs_singles s i \<noteq> None \<Longrightarrow> cs_jobs s i = Some r \<Longrightarrow> jb_parent r = None \<and> jb_kind r = k_single"
  "copies_ok s \<Longrightarrow> cs_loops s p = Some l \<Longrightarrow> (i, j) \<in> set (sl_todo l) \<Longrightarrow> jb_status j = st_dispatched \<Longrightarrow> jb_stamped j"
  unfolding copies_ok_def frames_def frame_def by fastforce blast

lemma copies_ok_skeleton:
  assumes "copies_ok s" "skeleton t = skeleton s"
  shows "copies_ok t"
proof -
  have "frames t = frames s" "cs_loops t = cs_loops s" "cs_singles t = cs_singles s"
    using assms(2) by (simp_all add: skeleton_def)
  then have "copies_ok t = copies_ok s" by (simp only: copies_ok_def)
  with assms(1) show ?thesis by (simp only:)
qed

lemma copies_ok_less:
  assumes "copies_ok s" "frames t = frames s \<or> frames t = Map.empty"
    and "\<And>i. cs_singles t i \<noteq> None \<Longrightarrow> cs_singles s i \<noteq> None"
    and "\<And>p l. cs_loops t p = Some l \<Longrightarrow> \<exists>m. cs_loops s p = Some m \<and> set (sl_todo l) \<subseteq> set (sl_todo m)"
  shows "copies_ok t"
  using assms(1) unfolding copies_ok_def
proof (elim conjE, intro conjI allI impI)
  assume a: "\<forall>i f. cs_singles s i \<noteq> None \<longrightarrow> frames s i = Some f \<longrightarrow> fst f = None \<and> fst (snd f) = k_single"
  fix i f assume "cs_singles t i \<noteq> None" "frames t i = Some f"
  moreover have "frames s i = Some f" using assms(2) \<open>frames t i = Some f\<close> by auto
  ultimately have "fst f = None \<and> fst (snd f) = k_single" using a assms(3) by blast
  then show "fst f = None" "fst (snd f) = k_single" by simp_all
next
  fix p l i j
  assume b: "\<forall>p l i j. cs_loops s p = Some l \<longrightarrow> (i, j) \<in> set (sl_todo l) \<longrightarrow> jb_status j = st_dispatched \<longrightarrow> jb_stamped j"
    and "cs_loops t p = Some l" "(i, j) \<in> set (sl_todo l)" "jb_status j = st_dispatched"
  with assms(4) show "jb_stamped j" by blast
qed

definition batch_ok :: "cmd_srv \<Rightarrow> bool" where
  "batch_ok s \<longleftrightarrow> queue_ok s \<and> copies_ok s \<and> done_sound s"

lemma waits_loopI: "cs_loops s p = Some l \<Longrightarrow> (i, j) \<in> set (sl_todo l) \<Longrightarrow> waits s (In_loop p) i (jb_target j)"
  by (auto simp: waits_def)

text \<open>The fate of one child in its turn.\<close>

lemma send_child_cases:
  assumes "send_child i j s = (j', t)" "jb_status j = st_dispatched \<Longrightarrow> jb_stamped j"
  obtains "t = s" "j' = j" | d where "try_send d i s = Some t" "j' = j" | e where "j' = fail_job e j" "t = update_status i j' s" "jb_status j = st_dispatched"
proof -
  let ?f = "\<lambda>e. fail_job e j"
  show thesis
  proof (cases "jb_target j = None \<or> jb_status j \<noteq> st_dispatched")
    case True
    then have "t = s" "j' = j" using assms(1) by (auto simp: send_child_def split: option.splits)
    then show thesis by (rule that(1))
  next
    case False
    then obtain d where d: "jb_target j = Some d" "jb_status j = st_dispatched" by auto
    show thesis
    proof (cases "try_send d i s")
      case None
      then have "\<exists>e. j' = ?f e \<and> t = update_status i (?f e) s"
        using assms(1) d by (auto simp: send_child_def Let_def split: option.splits)
      then show thesis using that(3) d(2) by blast
    next
      case (Some u)
      then have "map_of (cs_links s) d \<noteq> None" by (auto simp: try_send_def split: option.splits)
      with Some d assms have "t = u" "j' = j" by (auto simp: send_child_def split: option.splits)
      then show thesis using Some by (intro that(2)) simp_all
    qed
  qed
qed

lemma send_next_sound:
  assumes "batch_ok s"
  shows "done_sound (send_next p s) \<and> copies_ok (send_next p s)"
proof (cases "cs_loops s p")
  case (Some l)
  have ok: "queue_ok s" "copies_ok s" "done_sound s" using assms by (simp_all add: batch_ok_def)
  show ?thesis
  proof (cases "sl_todo l")
    case (Cons ij rest)
    obtain i j where ij: "ij = (i, j)" by fastforce
    obtain j' t where send: "send_child i j s = (j', t)" by fastforce
    note eff = send_child_effect [OF send]
    let ?t = "t\<lparr>cs_loops := (cs_loops t)(p \<mapsto> \<lparr>sl_todo = rest, sl_done = sl_done l @ [(i, j')]\<rparr>)\<rparr>"
    have eq: "send_next p s = ?t" by (simp add: send_next_def Some Cons ij send)
    have stamped: "jb_stamped j" if "jb_status j = st_dispatched"
      using copies_okD(2) [OF ok(2) Some _ that, of i] Cons ij by simp
    have "done_sound t"
    proof (rule send_child_cases [OF send])
      assume "t = s"
      then show ?thesis using ok(3) by simp
    next
      fix d assume "try_send d i s = Some t"
      then have "views t = views s" by (intro views_cong) (rule try_send_fields)
      then show ?thesis using ok(3) by (rule done_sound_views [rotated])
    next
      fix e assume "j' = fail_job e j" "t = update_status i j' s"
      then show ?thesis using ok(3) by (auto intro!: update_sound simp: fail_job_def)
    qed (rule stamped)
    moreover have "copies_ok ?t"
      by (rule copies_ok_less [OF ok(2)]) (use eff Some Cons in \<open>auto split: if_splits\<close>)
    ultimately show ?thesis by (simp add: eq)
  qed (simp add: send_next_def Some ok)
qed (use assms in \<open>simp add: send_next_def batch_ok_def\<close>)

lemma loop_end_sound:
  assumes "batch_ok s"
  shows "done_sound (loop_end p s) \<and> copies_ok (loop_end p s)"
proof (cases "cs_loops s p")
  case (Some l)
  have ok: "queue_ok s" "copies_ok s" "done_sound s" using assms by (simp_all add: batch_ok_def)
  let ?t = "s\<lparr>cs_loops := (cs_loops s)(p := None)\<rparr>"
  have t: "queue_ok ?t" "copies_ok ?t" "done_sound ?t"
  proof -
    have "waits ?t w i u \<Longrightarrow> waits s w i u" for w i u
      by (cases w) (auto simp: waits_def split: if_splits)
    then show "queue_ok ?t"
      by (intro queue_ok_less [OF ok(1)]) (use queue_okD(8) [OF ok(1)] in \<open>auto split: if_splits\<close>)
    show "copies_ok ?t" by (rule copies_ok_less [OF ok(2)]) (auto split: if_splits)
  qed (simp add: ok)
  then have "done_sound (settle_parent p ?t)" "copies_ok (settle_parent p ?t)"
    by (auto intro: settle_parent_sound copies_ok_skeleton)
  with t show ?thesis by (simp add: loop_end_def Some Let_def)
qed (use assms in \<open>simp add: loop_end_def batch_ok_def\<close>)

lemma singles_upd: "copies_ok s \<Longrightarrow> copies_ok (s\<lparr>cs_singles := (cs_singles s)(i := None)\<rparr>)"
  by (rule copies_ok_less) (auto split: if_splits)

lemma update_single:
  assumes "batch_ok s" "cs_singles s i \<noteq> None" "jb_status j \<noteq> st_complete"
  shows "done_sound (update_status i j s)" "copies_ok (update_status i j s)"
proof -
  have ok: "copies_ok s" "done_sound s" using assms(1) by (simp_all add: batch_ok_def)
  show "done_sound (update_status i j s)"
    using copies_okD(1) [OF ok(1) assms(2)] assms(3) by (auto intro!: update_sound [OF ok(2)])
  show "copies_ok (update_status i j s)" by (rule copies_ok_skeleton [OF ok(1)]) simp
qed

lemma single_sound:
  assumes "batch_ok s"
  shows "done_sound (single_send i s) \<and> copies_ok (single_send i s)"
    and "done_sound (single_write i s) \<and> copies_ok (single_write i s)"
proof -
  have ok: "copies_ok s" "done_sound s" using assms by (simp_all add: batch_ok_def)
  have clean: "copies_ok (u\<lparr>cs_singles := (cs_singles s)(i := None)\<rparr>)"
    if "copies_ok u" "cs_singles u = cs_singles s" for u
    using singles_upd [OF that(1), of i] that(2) by simp
  have sent: "done_sound (t\<lparr>cs_singles := (cs_singles s)(i \<mapsto> g)\<rparr>) \<and> copies_ok (t\<lparr>cs_singles := (cs_singles s)(i \<mapsto> g)\<rparr>)"
    if "try_send d i s = Some t" "cs_singles s i \<noteq> None" for d t g
  proof
    note f = try_send_fields [OF that(1)]
    show "done_sound (t\<lparr>cs_singles := (cs_singles s)(i \<mapsto> g)\<rparr>)"
      using ok(2) f(1) by (auto intro: done_sound_views views_cong)
    show "copies_ok (t\<lparr>cs_singles := (cs_singles s)(i \<mapsto> g)\<rparr>)"
      by (rule copies_ok_less [OF ok(1)]) (use f that(2) in \<open>auto split: if_splits\<close>)
  qed
  show "done_sound (single_send i s) \<and> copies_ok (single_send i s)"
    using ok update_single [OF assms] sent
    by (auto simp: single_send_def fail_job_def clean split: option.split single.split)
  show "done_sound (single_write i s) \<and> copies_ok (single_write i s)"
    using ok update_single [OF assms]
    by (auto simp: single_write_def clean split: option.split single.split)
qed

lemma job_bounds:
  assumes "queue_ok s" "cs_jobs s i = Some j"
  shows "0 < i" "i \<le> cs_last s" "jb_parent j = Some q \<Longrightarrow> 0 < q \<and> q < i"
  using queue_okD(2) [OF assms(1), of i "frame j"] assms(2) by (auto simp: frames_def frame_def)

lemma no_children_above:
  assumes "queue_ok s" "cs_last s < p"
  shows "all_children s p P"
  using job_bounds [OF assms(1)] assms(2) unfolding all_children_def by fastforce

lemma lone_row_sound:
  assumes "batch_ok s" "jb_parent j = None" "jb_status j \<noteq> st_complete"
    "t = s\<lparr>cs_jobs := (cs_jobs s)(cs_last s + 1 \<mapsto> j), cs_last := cs_last s + 1\<rparr>"
  shows "done_sound t"
  unfolding done_sound_def
proof (intro allI impI)
  fix p r assume r: "cs_jobs t p = Some r" "jb_kind r \<noteq> k_single" "jb_status r = st_complete"
  have "cs_jobs s p = Some r" using r assms(3,4) by (auto split: if_splits)
  with r assms(1) have "all_children s p is_settled" by (auto simp: batch_ok_def done_sound_def)
  then show "all_children t p is_settled" using assms(2,4) by (auto simp: all_children_def)
qed

lemma batch_state_sound:
  assumes "batch_ok s"
  shows "done_sound (batch_state a ids s)" "copies_ok (batch_state a ids s)"
proof -
  define p where "p = cs_last s + 1"
  define rows where "rows = batch_rows a (connected_ids s) ids p"
  let ?t = "batch_state a ids s"
  have ok: "queue_ok s" "copies_ok s" "done_sound s" using assms by (simp_all add: batch_ok_def)
  have jobs: "cs_jobs ?t i = (case map_of rows i of Some j \<Rightarrow> Some j
      | None \<Rightarrow> if i = p then Some (ask_job a) else cs_jobs s i)" for i
    by (simp add: batch_jobs rows_def p_def)
  have mem: "p < i \<and> jb_parent j = Some p \<and> jb_kind j = k_single \<and> (jb_status j = st_dispatched \<longrightarrow> jb_stamped j)"
    if "(i, j) \<in> set rows" for i j
    using batch_rows_mem [OF that [unfolded rows_def]] by auto
  have row: "(i, j) \<in> set rows" if "map_of rows i = Some j" for i j
    using that by (rule map_of_SomeD)
  show "done_sound ?t"
    unfolding done_sound_def all_children_def
  proof (intro allI impI)
    fix q r i j
    assume q: "cs_jobs ?t q = Some r" "jb_kind r \<noteq> k_single" "jb_status r = st_complete"
      and i: "cs_jobs ?t i = Some j" "jb_parent j = Some q"
    have old: "cs_jobs s q = Some r" using q mem row unfolding jobs by (auto split: option.splits if_splits)
    then have "q < p" using job_bounds(2) [OF ok(1)] by (auto simp: p_def)
    then have "cs_jobs s i = Some j" using i mem row unfolding jobs by (fastforce split: option.splits if_splits)
    then show "is_settled j" using ok(3) old q i(2) unfolding done_sound_def all_children_def by blast
  qed
  have loops: "cs_loops ?t = (cs_loops s)(p \<mapsto> \<lparr>sl_todo = rows, sl_done = []\<rparr>)" "cs_singles ?t = cs_singles s"
    by (simp_all add: batch_state_def Let_def p_def rows_def)
  show "copies_ok ?t"
    unfolding copies_ok_def
  proof (intro conjI allI impI)
    fix i f assume i: "cs_singles ?t i \<noteq> None" "frames ?t i = Some f"
    then have "i \<le> cs_last s" using queue_okD(5) [OF ok(1)] loops(2) by simp
    moreover have "p < i" if "map_of rows i = Some j" for j using mem [OF row [OF that]] by blast
    ultimately have "map_of rows i = None" "i \<noteq> p" unfolding p_def by (cases "map_of rows i"; force)+
    then have "frames s i = Some f" using i(2) by (simp add: frames_def jobs)
    then show "fst f = None" "fst (snd f) = k_single" using ok(2) i(1) loops(2) unfolding copies_ok_def by metis+
  next
    fix q l i j assume "cs_loops ?t q = Some l" "(i, j) \<in> set (sl_todo l)" "jb_status j = st_dispatched"
    then show "jb_stamped j" using copies_okD(2) [OF ok(2)] mem loops by (auto split: if_splits)
  qed
qed

lemma execute_sound:
  assumes "batch_ok s"
  shows "done_sound (execute a s) \<and> copies_ok (execute a s)"
proof -
  have ok: "queue_ok s" "copies_ok s" "done_sound s" using assms by (simp_all add: batch_ok_def)
  have new: "cs_singles s (cs_last s + 1) = None" using queue_okD(5) [OF ok(1), of "cs_last s + 1"]
    by (cases "cs_singles s (cs_last s + 1)") auto
  have copies: "copies_ok (s\<lparr>cs_jobs := (cs_jobs s)(cs_last s + 1 \<mapsto> j), cs_last := cs_last s + 1, cs_singles := g\<rparr>)"
    if "g = cs_singles s \<or> g = (cs_singles s)(cs_last s + 1 \<mapsto> b) \<and> jb_parent j = None \<and> jb_kind j = k_single" for g b j
    using ok(2) that new unfolding copies_ok_def by (auto simp: frame_def split: if_splits) (blast | metis)+
  have sound: "done_sound (s\<lparr>cs_jobs := (cs_jobs s)(cs_last s + 1 \<mapsto> j), cs_last := cs_last s + 1\<rparr>)"
    if "jb_parent j = None" "jb_status j \<noteq> st_complete" for j
    using lone_row_sound [OF assms that] by simp
  show ?thesis
  proof (cases rule: execute_cases [of a s])
    case single
    then show ?thesis
      using copies [of "(cs_singles s)(cs_last s + 1 \<mapsto> Before_send (ask_job a))" "Before_send (ask_job a)" "ask_job a"]
        sound [of "ask_job a"] by simp
  next
    case (nobody st er)
    then show ?thesis
      using copies [of "cs_singles s" undefined "(ask_job a)\<lparr>jb_status := st, jb_error := er\<rparr>"]
        sound [of "(ask_job a)\<lparr>jb_status := st, jb_error := er\<rparr>"] by auto
  qed (use ok batch_state_sound [OF assms] in simp_all)
qed

lemma batch_ok_step:
  assumes "batch_ok s" "sv_enabled s e"
  shows "batch_ok (sv_step e s)"
proof -
  have ok: "queue_ok s" "copies_ok s" "done_sound s" using assms by (simp_all add: batch_ok_def)
  have "done_sound (sv_step e s) \<and> copies_ok (sv_step e s)"
  proof (cases e)
    case Clear_jobs
    have "copies_ok (clear_jobs s)"
      by (rule copies_ok_less [OF ok(2)]) (auto simp: clear_jobs_def frames_def fun_eq_iff)
    then show ?thesis by (simp add: Clear_jobs) (simp add: clear_jobs_def done_sound_def)
  next
    case (Result d i st err dur)
    then show ?thesis using ok assms(2) by (auto intro: cmd_result_sound copies_ok_skeleton)
  qed (use ok assms(1) in \<open>auto simp: execute_sound send_next_sound loop_end_sound single_sound link_down_sound
      cmd_output_sound link_up_def set_load_def split: option.split intro: copies_ok_skeleton\<close>)
  with ok(1) show ?thesis by (simp add: batch_ok_def queue_ok_step)
qed

lemma batch_ok_init: "batch_ok sv_init"
  using queue_ok_init by (simp add: batch_ok_def copies_ok_def done_sound_def) (simp add: sv_init_def)

interpretation batch: invariant_machine "\<lambda>s. s = sv_init" sv_enabled sv_step batch_ok
  by unfold_locales (auto simp: batch_ok_init intro: batch_ok_step)

end
