(* ===== verification/Command_Settle.thy ===== *)
theory Command_Settle
  imports Command_Batch
begin

text \<open>
  When a batch comes to its end: the copies of a running loop agree with the rows, and a batch that
  still counts as dispatched has a child that is not settled. This needs that no machine reports on a
  batch whose loop is still running; the last section shows what happens otherwise.
\<close>

section \<open>Copies and rows\<close>

definition loop_rows :: "send_loop \<Rightarrow> (int \<times> cmd_job) list" where
  "loop_rows l = sl_done l @ sl_todo l"

definition loop_ids :: "send_loop \<Rightarrow> int set" where
  "loop_ids l = fst ` set (loop_rows l)"

definition loop_sync :: "cmd_srv \<Rightarrow> int \<Rightarrow> send_loop \<Rightarrow> bool" where
  "loop_sync s p l \<longleftrightarrow> loop_rows l \<noteq> [] \<and> distinct (map fst (loop_rows l)) \<and>
    (cs_jobs s p = None \<longrightarrow> (\<forall>i\<in>loop_ids l. cs_jobs s i = None)) \<and>
    (\<forall>r. cs_jobs s p = Some r \<longrightarrow> jb_status r = st_dispatched \<and> jb_kind r \<noteq> k_single \<and>
      (\<forall>(i, c)\<in>set (loop_rows l). \<exists>j. cs_jobs s i = Some j \<and> jb_parent j = Some p \<and> jb_status j = jb_status c) \<and>
      (\<forall>i j. cs_jobs s i = Some j \<longrightarrow> jb_parent j = Some p \<longrightarrow> i \<in> loop_ids l))"

text \<open>The invariant of the rows, but for the batches \<open>Q\<close> that are about to be looked at.\<close>

definition core_but :: "int set \<Rightarrow> cmd_srv \<Rightarrow> bool" where
  "core_but Q s \<longleftrightarrow>
    (\<forall>p l. cs_loops s p = Some l \<longrightarrow> loop_sync s p l) \<and>
    (\<forall>p r. p \<notin> Q \<longrightarrow> cs_loops s p = None \<longrightarrow> cs_jobs s p = Some r \<longrightarrow> jb_kind r \<noteq> k_single \<longrightarrow>
      jb_status r = st_dispatched \<longrightarrow> \<not> all_children s p is_settled) \<and>
    (\<forall>i j q. cs_jobs s i = Some j \<longrightarrow> jb_parent j = Some q \<longrightarrow> jb_kind j = k_single \<and>
      (\<forall>r. cs_jobs s q = Some r \<longrightarrow> jb_kind r \<noteq> k_single))"

lemma core_butI:
  assumes "\<And>p l. cs_loops s p = Some l \<Longrightarrow> loop_sync s p l"
    and "\<And>p r. p \<notin> Q \<Longrightarrow> cs_loops s p = None \<Longrightarrow> cs_jobs s p = Some r \<Longrightarrow> jb_kind r \<noteq> k_single \<Longrightarrow>
      jb_status r = st_dispatched \<Longrightarrow> \<not> all_children s p is_settled"
    and "\<And>i j q. cs_jobs s i = Some j \<Longrightarrow> jb_parent j = Some q \<Longrightarrow> jb_kind j = k_single \<and>
      (\<forall>r. cs_jobs s q = Some r \<longrightarrow> jb_kind r \<noteq> k_single)"
  shows "core_but Q s"
  unfolding core_but_def using assms by blast

lemma core_butD:
  assumes "core_but Q s"
  shows "cs_loops s p = Some l \<Longrightarrow> loop_sync s p l"
    and "p \<notin> Q \<Longrightarrow> cs_loops s p = None \<Longrightarrow> cs_jobs s p = Some r \<Longrightarrow> jb_kind r \<noteq> k_single \<Longrightarrow>
      jb_status r = st_dispatched \<Longrightarrow> \<not> all_children s p is_settled"
    and "cs_jobs s i = Some j \<Longrightarrow> jb_parent j = Some q \<Longrightarrow> jb_kind j = k_single"
    and "cs_jobs s i = Some j \<Longrightarrow> jb_parent j = Some q \<Longrightarrow> cs_jobs s q = Some r \<Longrightarrow> jb_kind r \<noteq> k_single"
  using assms unfolding core_but_def by blast+

lemma core_but_mono: "core_but Q s \<Longrightarrow> Q \<subseteq> R \<Longrightarrow> core_but R s"
  unfolding core_but_def by blast

lemma loop_syncD:
  assumes "loop_sync s p l"
  shows "loop_rows l \<noteq> []" "distinct (map fst (loop_rows l))"
    and "cs_jobs s p = None \<Longrightarrow> i \<in> loop_ids l \<Longrightarrow> cs_jobs s i = None"
    and "cs_jobs s p = Some r \<Longrightarrow> jb_status r = st_dispatched \<and> jb_kind r \<noteq> k_single"
    and "cs_jobs s p = Some r \<Longrightarrow> (i, c) \<in> set (loop_rows l) \<Longrightarrow>
      \<exists>j. cs_jobs s i = Some j \<and> jb_parent j = Some p \<and> jb_status j = jb_status c"
    and "cs_jobs s p = Some r \<Longrightarrow> cs_jobs s i = Some j \<Longrightarrow> jb_parent j = Some p \<Longrightarrow> i \<in> loop_ids l"
  using assms unfolding loop_sync_def by blast+

text \<open>The rows of a loop and of its children decide it.\<close>

lemma loop_sync_agree:
  assumes "loop_sync s p l" "cs_jobs t p = cs_jobs s p" "\<And>i. i \<in> loop_ids l \<Longrightarrow> cs_jobs t i = cs_jobs s i"
    and "\<And>i j. cs_jobs t i = Some j \<Longrightarrow> jb_parent j = Some p \<Longrightarrow> cs_jobs s i = Some j"
  shows "loop_sync t p l"
  unfolding loop_sync_def
proof (intro conjI allI impI ballI)
  note ls = loop_syncD [OF assms(1)]
  show "loop_rows l \<noteq> []" "distinct (map fst (loop_rows l))" by (rule ls)+
  show "cs_jobs t i = None" if "cs_jobs t p = None" "i \<in> loop_ids l" for i
    using that ls(3) assms(2,3) by simp
  fix r assume "cs_jobs t p = Some r"
  then have r: "cs_jobs s p = Some r" using assms(2) by simp
  show "jb_status r = st_dispatched" "jb_kind r \<noteq> k_single" using ls(4) [OF r] by simp_all
  show "case x of (i, c) \<Rightarrow> \<exists>j. cs_jobs t i = Some j \<and> jb_parent j = Some p \<and> jb_status j = jb_status c"
    if "x \<in> set (loop_rows l)" for x
  proof (cases x)
    case (Pair i c)
    then have "i \<in> loop_ids l" using that by (force simp: loop_ids_def)
    then show ?thesis using ls(5) [OF r, of i c] that Pair assms(3) by simp
  qed
  show "i \<in> loop_ids l" if "cs_jobs t i = Some j" "jb_parent j = Some p" for i j
    using ls(6) [OF r assms(4) [OF that] that(2)] .
qed

text \<open>Only the statuses and frames of the rows count.\<close>

lemma row_views:
  assumes "views t = views s"
  shows "cs_jobs t i = None \<longleftrightarrow> cs_jobs s i = None"
    and "cs_jobs t i = Some j \<Longrightarrow> \<exists>k. cs_jobs s i = Some k \<and> jb_parent k = jb_parent j \<and> jb_kind k = jb_kind j \<and> jb_status k = jb_status j"
proof -
  have "views t i = views s i" using assms by simp
  then show "cs_jobs t i = None \<longleftrightarrow> cs_jobs s i = None" by (auto simp: views_def)
  show "cs_jobs t i = Some j \<Longrightarrow> \<exists>k. cs_jobs s i = Some k \<and> jb_parent k = jb_parent j \<and> jb_kind k = jb_kind j \<and> jb_status k = jb_status j"
    using viewsE [OF assms] by metis
qed

lemma loop_sync_views:
  assumes "loop_sync s p l" "views t = views s"
  shows "loop_sync t p l"
  unfolding loop_sync_def
proof (intro conjI allI impI ballI)
  note ls = loop_syncD [OF assms(1)]
  note v = row_views [OF assms(2)] row_views [OF assms(2) [symmetric]]
  show "loop_rows l \<noteq> []" "distinct (map fst (loop_rows l))" by (rule ls)+
  show "cs_jobs t i = None" if "cs_jobs t p = None" "i \<in> loop_ids l" for i
    using that ls(3) v(1) by blast
  fix r assume r: "cs_jobs t p = Some r"
  then obtain r' where r': "cs_jobs s p = Some r'" "jb_kind r' = jb_kind r" "jb_status r' = jb_status r"
    using v(2) by blast
  show "jb_status r = st_dispatched" "jb_kind r \<noteq> k_single" using ls(4) [OF r'(1)] r' by simp_all
  show "case x of (i, c) \<Rightarrow> \<exists>j. cs_jobs t i = Some j \<and> jb_parent j = Some p \<and> jb_status j = jb_status c"
    if "x \<in> set (loop_rows l)" for x
  proof (cases x)
    case (Pair i c)
    with ls(5) [OF r'(1)] that obtain j where j: "cs_jobs s i = Some j" "jb_parent j = Some p" "jb_status j = jb_status c"
      by blast
    with v(4) [OF j(1)] Pair show ?thesis by auto
  qed
  show "i \<in> loop_ids l" if "cs_jobs t i = Some j" "jb_parent j = Some p" for i j
    using v(2) [OF that(1)] that(2) ls(6) [OF r'(1)] by metis
qed

lemma core_but_views:
  assumes "core_but Q s" "views t = views s" "cs_loops t = cs_loops s"
  shows "core_but Q t"
proof (rule core_butI)
  note c = core_butD [OF assms(1)]
  note v = row_views [OF assms(2)]
  show "loop_sync t p l" if "cs_loops t p = Some l" for p l
    using that assms(2,3) c(1) by (auto intro: loop_sync_views)
  show "\<not> all_children t p is_settled"
    if "p \<notin> Q" "cs_loops t p = None" "cs_jobs t p = Some r" "jb_kind r \<noteq> k_single" "jb_status r = st_dispatched" for p r
    using v(2) [OF that(3)] that c(2) [OF that(1)] assms(3) all_children_views [OF assms(2) [symmetric], of p] by metis
  show "jb_kind j = k_single \<and> (\<forall>r. cs_jobs t q = Some r \<longrightarrow> jb_kind r \<noteq> k_single)"
    if "cs_jobs t i = Some j" "jb_parent j = Some q" for i j q
    using v(2) [OF that(1)] that(2) c(3,4) v(2) [of q] by metis
qed

section \<open>One row changes\<close>

lemma update_row_same:
  assumes "k \<noteq> i"
  shows "cs_jobs (update_status i j s) k = cs_jobs s k"
  using assms by (simp add: update_status_jobs)

lemma update_row_frame:
  assumes "cs_jobs (update_status i j s) k = Some r"
  shows "\<exists>r'. cs_jobs s k = Some r' \<and> jb_parent r' = jb_parent r \<and> jb_kind r' = jb_kind r"
  using assms by (auto simp: update_status_jobs split: if_splits)

lemma update_None [simp]: "cs_jobs (update_status i j s) k = None \<longleftrightarrow> cs_jobs s k = None"
  by (auto simp: update_status_jobs)

lemma loop_sync_update:
  assumes "loop_sync s p l" "i \<notin> loop_ids l" "i \<noteq> p"
  shows "loop_sync (update_status i j s) p l"
  unfolding loop_sync_def
proof (intro conjI allI impI ballI)
  note ls = loop_syncD [OF assms(1)]
  show "loop_rows l \<noteq> []" "distinct (map fst (loop_rows l))" by (rule ls)+
  show "cs_jobs (update_status i j s) k = None" if "cs_jobs (update_status i j s) p = None" "k \<in> loop_ids l" for k
    using that ls(3) by simp
  fix r assume "cs_jobs (update_status i j s) p = Some r"
  then have r: "cs_jobs s p = Some r" using assms(3) by (simp add: update_status_jobs)
  show "jb_status r = st_dispatched" "jb_kind r \<noteq> k_single" using ls(4) [OF r] by simp_all
  show "case x of (k, c) \<Rightarrow> \<exists>j'. cs_jobs (update_status i j s) k = Some j' \<and> jb_parent j' = Some p \<and> jb_status j' = jb_status c"
    if "x \<in> set (loop_rows l)" for x
  proof (cases x)
    case (Pair k c)
    then have "k \<noteq> i" using that assms(2) by (force simp: loop_ids_def)
    with ls(5) [OF r] that Pair show ?thesis by (simp add: update_row_same)
  qed
  show "k \<in> loop_ids l" if "cs_jobs (update_status i j s) k = Some j'" "jb_parent j' = Some p" for k j'
    using update_row_frame [OF that(1)] that(2) ls(6) [OF r] by metis
qed

lemma children_update:
  assumes "all_children (update_status i j s) p is_settled" "\<And>r. cs_jobs s i = Some r \<Longrightarrow> jb_parent r \<noteq> Some p"
  shows "all_children s p is_settled"
  unfolding all_children_def
proof (intro allI impI)
  fix k r assume k: "cs_jobs s k = Some r" "jb_parent r = Some p"
  then have "k \<noteq> i" using assms(2) by auto
  then have "cs_jobs (update_status i j s) k = Some r" using k(1) by (simp add: update_row_same)
  with k(2) assms(1) show "is_settled r" unfolding all_children_def by blast
qed

lemma core_update:
  assumes "core_but Q s" "\<And>r. cs_jobs s i = Some r \<Longrightarrow> jb_kind r = k_single"
    and "\<And>p l. cs_loops s p = Some l \<Longrightarrow> i \<notin> loop_ids l"
    and "\<And>r q. cs_jobs s i = Some r \<Longrightarrow> jb_parent r = Some q \<Longrightarrow> q \<in> Q"
  shows "core_but Q (update_status i j s)"
proof (cases "cs_jobs s i")
  case None
  then show ?thesis using assms(1) by (simp add: update_status_def)
next
  case (Some r)
  note c = core_butD [OF assms(1)]
  have single: "jb_kind r = k_single" using assms(2) Some .
  show ?thesis
  proof (rule core_butI)
    show "loop_sync (update_status i j s) p l" if "cs_loops (update_status i j s) p = Some l" for p l
    proof (rule loop_sync_update)
      show "loop_sync s p l" using that c(1) by simp
      then show "i \<noteq> p" using loop_syncD(4) [of s p l r] Some single by auto
      show "i \<notin> loop_ids l" using that assms(3) by simp
    qed
    show "\<not> all_children (update_status i j s) p is_settled"
      if "p \<notin> Q" "cs_loops (update_status i j s) p = None" "cs_jobs (update_status i j s) p = Some r'"
        "jb_kind r' \<noteq> k_single" "jb_status r' = st_dispatched" for p r'
    proof -
      have "p \<noteq> i" using that(3,4) Some single by (auto simp: update_status_jobs)
      then have "\<not> all_children s p is_settled"
        using c(2) [OF that(1)] that by (simp add: update_row_same)
      then show ?thesis using children_update [of i j s p] assms(4) that(1) by blast
    qed
    show "jb_kind j' = k_single \<and> (\<forall>r. cs_jobs (update_status i j s) q = Some r \<longrightarrow> jb_kind r \<noteq> k_single)"
      if "cs_jobs (update_status i j s) k = Some j'" "jb_parent j' = Some q" for k j' q
      using update_row_frame [OF that(1)] update_row_frame [of i j s q] that(2) c(3,4) by metis
  qed
qed

text \<open>Looking at a batch puts it in order.\<close>

lemma settle_fixes:
  assumes core: "core_but (insert p Q) s" and q: "queue_ok s" and free: "cs_loops s p = None \<or> cs_jobs s p = None"
    and multi: "\<And>r. cs_jobs s p = Some r \<Longrightarrow> jb_kind r \<noteq> k_single"
  shows "core_but Q (settle_parent p s)"
proof (cases "cs_jobs s p")
  case None
  then have "settle_parent p s = s" by (simp add: settle_parent_def Let_def)
  moreover have "core_but Q s"
  proof (rule core_butI)
    show "\<not> all_children s p' is_settled" if "p' \<notin> Q" "cs_loops s p' = None" "cs_jobs s p' = Some r"
      "jb_kind r \<noteq> k_single" "jb_status r = st_dispatched" for p' r
    proof -
      have "p' \<noteq> p" using that(3) None by auto
      then show ?thesis using core_butD(2) [OF core _ that(2-5)] that(1) by simp
    qed
  qed (use core_butD [OF core] in auto)
  ultimately show ?thesis by simp
next
  case (Some r)
  note c = core_butD [OF core]
  have no_parent: "jb_parent r = None"
    using c(3) [OF Some] multi [OF Some] by (cases "jb_parent r") auto
  have loop: "cs_loops s p = None" using free Some by simp
  show ?thesis
  proof (cases "all_children s p is_settled")
    case False
    then have eq: "settle_parent p s = s" using children_all [OF q, of p] by (simp add: settle_parent_def Let_def)
    show ?thesis unfolding eq
    proof (rule core_butI)
      show "\<not> all_children s p' is_settled" if "p' \<notin> Q" "cs_loops s p' = None" "cs_jobs s p' = Some r"
        "jb_kind r \<noteq> k_single" "jb_status r = st_dispatched" for p' r
        using c(2) [OF _ that(2-5)] that(1) False by (cases "p' = p") auto
    qed (use c in auto)
  next
    case True
    obtain j where eq: "settle_parent p s = update_status p j s" and j: "jb_status j = st_complete"
      using True children_all [OF q, of p] Some by (auto simp: settle_parent_def Let_def)
    show ?thesis unfolding eq
    proof (rule core_butI)
      show "loop_sync (update_status p j s) p' l" if "cs_loops (update_status p j s) p' = Some l" for p' l
      proof (rule loop_sync_update)
        show ls: "loop_sync s p' l" using that c(1) by simp
        show "p \<noteq> p'" using that loop by auto
        show "p \<notin> loop_ids l"
        proof
          assume "p \<in> loop_ids l"
          then obtain cc where "(p, cc) \<in> set (loop_rows l)" by (auto simp: loop_ids_def)
          moreover have "cs_jobs s p' \<noteq> None" using loop_syncD(3) [OF ls _ \<open>p \<in> loop_ids l\<close>] Some by auto
          ultimately show False using loop_syncD(5) [OF ls] Some no_parent by fastforce
        qed
      qed
      show "\<not> all_children (update_status p j s) p' is_settled"
        if "p' \<notin> Q" "cs_loops (update_status p j s) p' = None" "cs_jobs (update_status p j s) p' = Some r'"
          "jb_kind r' \<noteq> k_single" "jb_status r' = st_dispatched" for p' r'
      proof -
        have "p' \<noteq> p" using that(3,5) j by (auto simp: update_status_jobs)
        then have "\<not> all_children s p' is_settled"
          using c(2) [of p'] that by (simp add: update_row_same)
        then show ?thesis using children_update [of p j s p'] Some no_parent by auto
      qed
      show "jb_kind j' = k_single \<and> (\<forall>r. cs_jobs (update_status p j s) q = Some r \<longrightarrow> jb_kind r \<noteq> k_single)"
        if "cs_jobs (update_status p j s) k = Some j'" "jb_parent j' = Some q" for k j' q
        using update_row_frame [OF that(1)] update_row_frame [of p j s q] that(2) c(3,4) by metis
    qed
  qed
qed

section \<open>The invariant\<close>

text \<open>No report about a batch whose loop is running.\<close>

fun prompt :: "cmd_srv \<Rightarrow> sv_ev \<Rightarrow> bool" where
  "prompt s (Output d i line due) = (\<forall>p l. cs_loops s p = Some l \<longrightarrow> i \<notin> loop_ids l)"
| "prompt s (Result d i st err dur) = (\<forall>p l. cs_loops s p = Some l \<longrightarrow> i \<notin> loop_ids l)"
| "prompt s _ = True"

definition prompt_enabled :: "cmd_srv \<Rightarrow> sv_ev \<Rightarrow> bool" where
  "prompt_enabled s e \<longleftrightarrow> sv_enabled s e \<and> prompt s e"

text \<open>What the machines have reported on is a row for one device, and no loop holds it.\<close>

definition reported :: "cmd_srv \<Rightarrow> int \<Rightarrow> bool" where
  "reported s i \<longleftrightarrow> i \<le> cs_last s \<and> (\<forall>f. frames s i = Some f \<longrightarrow> fst (snd f) = k_single) \<and>
    (\<forall>p l. cs_loops s p = Some l \<longrightarrow> i \<notin> loop_ids l)"

definition linked :: "cmd_srv \<Rightarrow> int set" where
  "linked s = fst ` set (cs_links s)"

definition prompt_ok :: "cmd_srv \<Rightarrow> bool" where
  "prompt_ok s \<longleftrightarrow> batch_ok s \<and> core_but {} s \<and> (\<forall>d. \<forall>i\<in>set (cs_flight s d). reported s i) \<and>
    (\<forall>d\<in>linked s. 0 < d) \<and> (\<forall>p l. cs_loops s p = Some l \<longrightarrow> (\<forall>i\<in>loop_ids l. i \<le> cs_last s))"

lemma reported_cong:
  assumes "reported s i" "frames t = frames s \<or> frames t = Map.empty" "cs_last t = cs_last s"
    and "\<And>p l. cs_loops t p = Some l \<Longrightarrow> \<exists>m. cs_loops s p = Some m \<and> loop_ids l \<subseteq> loop_ids m"
  shows "reported t i"
  unfolding reported_def
proof (intro conjI allI impI)
  show "i \<le> cs_last t" using assms(1,3) by (simp add: reported_def)
  show "fst (snd f) = k_single" if "frames t i = Some f" for f
    using that assms(1,2) by (cases f) (auto simp: reported_def)
  show "i \<notin> loop_ids l" if "cs_loops t p = Some l" for p l
    using assms(4) [OF that] assms(1) by (auto simp: reported_def)
qed

lemma reported_kind: "reported s i \<Longrightarrow> cs_jobs s i = Some r \<Longrightarrow> jb_kind r = k_single"
  by (auto simp: reported_def frames_def frame_def)

text \<open>The report of one row: its new status, then a look at its batch.\<close>

lemma core_report:
  assumes "core_but {} s" "queue_ok s" "reported s i" "cs_jobs s i = Some r"
  shows "core_but {} (case jb_parent r of None \<Rightarrow> update_status i j s | Some p \<Rightarrow> settle_parent p (update_status i j s))"
proof -
  have free: "\<And>p l. cs_loops s p = Some l \<Longrightarrow> i \<notin> loop_ids l" using assms(3) by (auto simp: reported_def)
  have core: "core_but (set_option (jb_parent r)) (update_status i j s)"
    by (rule core_update) (use assms(4) reported_kind [OF assms(3,4)] free core_but_mono [OF assms(1)] in auto)
  show ?thesis
  proof (cases "jb_parent r")
    case None
    with core show ?thesis by simp
  next
    case (Some p)
    have "core_but {} (settle_parent p (update_status i j s))"
    proof (rule settle_fixes)
      show "core_but {p} (update_status i j s)" using core Some by simp
      show "queue_ok (update_status i j s)" by (rule queue_ok_skeleton [OF assms(2)]) simp
      show "jb_kind r' \<noteq> k_single" if "cs_jobs (update_status i j s) p = Some r'" for r'
        using update_row_frame [OF that] core_butD(4) [OF assms(1,4) Some] by metis
      show "cs_loops (update_status i j s) p = None \<or> cs_jobs (update_status i j s) p = None"
      proof (rule disjCI)
        assume "cs_jobs (update_status i j s) p \<noteq> None"
        then obtain rp where rp: "cs_jobs s p = Some rp" by auto
        show "cs_loops (update_status i j s) p = None"
        proof (cases "cs_loops s p")
          case (Some l)
          then have "i \<in> loop_ids l"
            using loop_syncD(6) [OF core_butD(1) [OF assms(1) Some] rp assms(4)] \<open>jb_parent r = Some p\<close> by simp
          with free [OF Some] show ?thesis by simp
        qed simp
      qed
    qed
    with Some show ?thesis by simp
  qed
qed

lemma core_fail_flight:
  assumes "core_but {} s" "queue_ok s" "reported s i"
  shows "core_but {} (fail_flight i s)"
  using assms(1) core_report [OF assms]
  by (auto simp: fail_flight_def Let_def split: option.split)

lemma core_fold_fail:
  assumes "core_but {} s" "queue_ok s" "\<And>i. i \<in> set is \<Longrightarrow> reported s i"
  shows "core_but {} (fold fail_flight is s)"
  using assms
proof (induction "is" arbitrary: s)
  case (Cons i "is")
  have "core_but {} (fail_flight i s)" by (rule core_fail_flight) (use Cons.prems in auto)
  moreover have "queue_ok (fail_flight i s)" by (rule queue_ok_skeleton [OF Cons.prems(2)]) simp
  moreover have "reported (fail_flight i s) k" if "k \<in> set is" for k
    by (rule reported_cong [of s]) (use that Cons.prems(3) in auto)
  ultimately show ?case using Cons.IH by simp
qed simp

lemma prompt_okD:
  assumes "prompt_ok s"
  shows "batch_ok s" "queue_ok s" "core_but {} s" "i \<in> set (cs_flight s d) \<Longrightarrow> reported s i"
    "d \<in> linked s \<Longrightarrow> 0 < d" "cs_loops s p = Some l \<Longrightarrow> i \<in> loop_ids l \<Longrightarrow> i \<le> cs_last s"
  using assms unfolding prompt_ok_def batch_ok_def by blast+

lemma prompt_okI:
  assumes "batch_ok s" "core_but {} s" "\<And>d i. i \<in> set (cs_flight s d) \<Longrightarrow> reported s i"
    "\<And>d. d \<in> linked s \<Longrightarrow> 0 < d"
    "\<And>p l i. cs_loops s p = Some l \<Longrightarrow> i \<in> loop_ids l \<Longrightarrow> i \<le> cs_last s"
  shows "prompt_ok s"
  using assms unfolding prompt_ok_def by blast

text \<open>A step that leaves the frames and the loops alone.\<close>

lemma prompt_ok_skeleton:
  assumes "prompt_ok s" "batch_ok t" "core_but {} t" "skeleton t = skeleton s"
    and "\<And>d i. i \<in> set (cs_flight t d) \<Longrightarrow> i \<in> set (cs_flight s d) \<or> reported s i"
    and "\<And>d. d \<in> linked t \<Longrightarrow> d \<in> linked s \<or> 0 < d"
  shows "prompt_ok t"
proof (rule prompt_okI)
  have f: "frames t = frames s" "cs_loops t = cs_loops s" "cs_last t = cs_last s"
    using assms(4) by (simp_all add: skeleton_def)
  show "reported t i" if "i \<in> set (cs_flight t d)" for d i
    by (rule reported_cong [of s]) (use assms(5) [OF that] prompt_okD(4) [OF assms(1)] f in auto)
  show "i \<le> cs_last t" if "cs_loops t p = Some l" "i \<in> loop_ids l" for p l i
    using that f prompt_okD(6) [OF assms(1)] by simp
  show "0 < d" if "d \<in> linked t" for d
    using assms(6) [OF that] prompt_okD(5) [OF assms(1)] by blast
qed (use assms in auto)

section \<open>Every event\<close>

lemma keys_update:
  assumes "map_of xs d = Some q"
  shows "fst ` set (AList.update d w xs) = fst ` set xs"
proof -
  have "d \<in> fst ` set xs" using map_of_SomeD [OF assms] by force
  then show ?thesis by (simp only: dom_update) blast
qed

lemma keys_delete: "fst ` set (AList.delete d xs) = fst ` set xs - {d}"
proof -
  have "set (map fst (AList.delete d xs)) = set (removeAll d (map fst xs))" by (simp only: delete_keys)
  then show ?thesis by simp
qed

lemma linked_ops [simp]:
  "linked (link_up d s) = insert d (linked s)" "linked (set_load d f s) = linked s"
  "linked (link_down d s) = linked s - {d}" "linked (cmd_output d i line due s) = linked s"
  "linked (cmd_result d i st err dur s) = linked s"
  unfolding linked_def
proof -
  show "fst ` set (cs_links (link_up d s)) = insert d (fst ` set (cs_links s))"
    by (simp add: link_up_def dom_update)
  show "fst ` set (cs_links (set_load d f s)) = fst ` set (cs_links s)"
    by (simp add: set_load_def keys_update split: option.split)
  show "fst ` set (cs_links (link_down d s)) = fst ` set (cs_links s) - {d}"
    by (simp add: link_down_def Let_def keys_delete)
  show "fst ` set (cs_links (cmd_output d i line due s)) = fst ` set (cs_links s)"
    by (simp add: cmd_output_def Let_def)
  show "fst ` set (cs_links (cmd_result d i st err dur s)) = fst ` set (cs_links s)"
    by (auto simp: cmd_result_def Let_def split: option.split)
qed

lemma linked_cong: "cs_links t = cs_links s \<Longrightarrow> linked t = linked s"
  by (simp add: linked_def)

lemma linked_try_send:
  assumes "try_send d i s = Some t"
  shows "linked t = linked s"
proof -
  obtain q where "map_of (cs_links s) d = Some q" "cs_links t = AList.update d (q + 1) (cs_links s)"
    using assms by (auto simp: try_send_def split: option.splits if_splits)
  then show ?thesis by (simp only: linked_def keys_update)
qed

lemma prompt_result:
  assumes "prompt_ok s" "prompt_enabled s (Result d i st err dur)"
  shows "prompt_ok (cmd_result d i st err dur s)"
proof -
  have en: "sv_enabled s (Result d i st err dur)" using assms(2) by (simp add: prompt_enabled_def)
  have rep: "reported s i"
    using assms(2) queue_okD(3) [OF prompt_okD(2) [OF assms(1)], of d i]
    by (auto simp: prompt_enabled_def reported_def addressed_def)
  define s1 where "s1 = s\<lparr>cs_flight := (cs_flight s)(d := removeAll i (cs_flight s d)), cs_buf := (cs_buf s)(i := None)\<rparr>"
  have "views s1 = views s" by (rule views_cong) (simp add: s1_def)
  then have core1: "core_but {} s1"
    by (rule core_but_views [OF prompt_okD(3) [OF assms(1)]]) (simp add: s1_def)
  have q1: "queue_ok s1" by (rule queue_ok_skeleton [OF prompt_okD(2) [OF assms(1)]]) (simp add: s1_def)
  have rep1: "reported s1 i" by (rule reported_cong [OF rep]) (auto simp: s1_def frames_def fun_eq_iff)
  have "core_but {} (cmd_result d i st err dur s)"
  proof (cases "cs_jobs s i")
    case None
    have "views (cmd_result d i st err dur s) = views s"
      by (rule views_cong) (simp add: cmd_result_def Let_def None)
    then show ?thesis
      by (rule core_but_views [OF prompt_okD(3) [OF assms(1)]]) (simp add: cmd_result_def Let_def None)
  next
    case (Some j)
    then have j1: "cs_jobs s1 i = Some j" by (simp add: s1_def)
    define j' where "j' = j\<lparr>jb_status := st, jb_error := err, jb_duration := dur,
      jb_output := (case cs_buf s i of None \<Rightarrow> jb_output j | Some b \<Rightarrow> ob_text b)\<rparr>"
    have "cmd_result d i st err dur s =
        (case jb_parent j of None \<Rightarrow> update_status i j' s1 | Some p \<Rightarrow> settle_parent p (update_status i j' s1))"
      by (cases "jb_parent j") (simp_all add: cmd_result_def Let_def Some j'_def s1_def)
    then show ?thesis using core_report [OF core1 q1 rep1 j1, of j'] by simp
  qed
  moreover have "cs_flight (cmd_result d i st err dur s) = (cs_flight s)(d := removeAll i (cs_flight s d))"
    by (auto simp: cmd_result_def Let_def split: option.split)
  moreover have "batch_ok (cmd_result d i st err dur s)"
    using batch_ok_step [OF prompt_okD(1) [OF assms(1)] en] by simp
  ultimately show ?thesis
    by (intro prompt_ok_skeleton [OF assms(1)]) (auto split: if_splits)
qed

lemma prompt_output:
  assumes "prompt_ok s" "prompt_enabled s (Output d i line due)"
  shows "prompt_ok (cmd_output d i line due s)"
proof (rule prompt_ok_skeleton [OF assms(1)])
  have en: "sv_enabled s (Output d i line due)" using assms(2) by (simp add: prompt_enabled_def)
  have rep: "reported s i"
    using assms(2) queue_okD(3) [OF prompt_okD(2) [OF assms(1)], of d i]
    by (auto simp: prompt_enabled_def reported_def addressed_def)
  show "batch_ok (cmd_output d i line due s)"
    using batch_ok_step [OF prompt_okD(1) [OF assms(1)] en] by simp
  have same: "views (cmd_output d i line due s) = views s" "cs_loops (cmd_output d i line due s) = cs_loops s"
    by (auto simp: cmd_output_def Let_def intro: views_cong)
  show "core_but {} (cmd_output d i line due s)"
    by (rule core_but_views [OF prompt_okD(3) [OF assms(1)] same])
  show "k \<in> set (cs_flight s d') \<or> reported s k" if "k \<in> set (cs_flight (cmd_output d i line due s) d')" for d' k
    using that rep by (auto simp: cmd_output_def Let_def split: if_splits)
qed simp_all

lemma prompt_links:
  assumes "prompt_ok s"
  shows "prompt_ok (link_down d s)" "0 < d \<Longrightarrow> prompt_ok (link_up d s)" "prompt_ok (set_load d f s)"
proof -
  have bt: "batch_ok t" if "skeleton t = skeleton s" "done_sound t" for t
    using that prompt_okD(1) [OF assms] by (auto simp: batch_ok_def intro: queue_ok_skeleton copies_ok_skeleton)
  have q: "queue_ok s" "done_sound s" using prompt_okD(1) [OF assms] by (simp_all add: batch_ok_def)
  have core: "core_but {} (fold fail_flight (cs_flight s d) s)"
    by (rule core_fold_fail) (use prompt_okD [OF assms] in auto)
  show "prompt_ok (link_down d s)"
  proof (rule prompt_ok_skeleton [OF assms])
    show "batch_ok (link_down d s)" by (rule bt) (auto intro: link_down_sound q)
    have "views (link_down d s) = views (fold fail_flight (cs_flight s d) s)"
      by (rule views_cong) (simp add: link_down_def Let_def)
    then show "core_but {} (link_down d s)"
      by (rule core_but_views [OF core]) (simp add: link_down_def Let_def)
  qed (simp_all, simp add: link_down_def Let_def split: if_splits)
  have same: "core_but {} t" if "cs_jobs t = cs_jobs s" "cs_loops t = cs_loops s" for t
    using core_but_views [OF prompt_okD(3) [OF assms] views_cong [OF that(1)] that(2)] .
  have up: "cs_jobs (link_up d s) = cs_jobs s" "cs_loops (link_up d s) = cs_loops s"
    "cs_flight (link_up d s) = (cs_flight s)(d := [])" "done_sound (link_up d s)"
    by (simp_all add: link_up_def q(2))
  show "prompt_ok (link_up d s)" if "0 < d"
    by (rule prompt_ok_skeleton [OF assms bt same]) (use that in \<open>auto simp: up split: if_splits\<close>)
  have load: "cs_jobs (set_load d f s) = cs_jobs s" "cs_loops (set_load d f s) = cs_loops s"
    "cs_flight (set_load d f s) = cs_flight s" "done_sound (set_load d f s)"
    by (auto simp: set_load_def q(2) split: option.split)
  show "prompt_ok (set_load d f s)"
    by (rule prompt_ok_skeleton [OF assms bt same]) (auto simp: load)
qed

text \<open>A row for one device that no loop holds, and that has no batch.\<close>

lemma single_not_in_loops:
  assumes "prompt_ok s" "cs_singles s i \<noteq> None" "cs_jobs s i = Some r" "cs_loops s p = Some l"
  shows "i \<notin> loop_ids l"
proof
  assume i: "i \<in> loop_ids l"
  have flat: "jb_parent r = None"
    using copies_okD(1) [of s i r] prompt_okD(1) [OF assms(1)] assms(2,3) by (auto simp: batch_ok_def)
  note ls = core_butD(1) [OF prompt_okD(3) [OF assms(1)] assms(4)]
  from i obtain c where c: "(i, c) \<in> set (loop_rows l)" by (auto simp: loop_ids_def)
  have "cs_jobs s p \<noteq> None" using loop_syncD(3) [OF ls _ i] assms(3) by auto
  then show False using loop_syncD(5) [OF ls _ c] assms(3) flat by auto
qed

lemma prompt_single_update:
  assumes "prompt_ok s" "cs_singles s i \<noteq> None"
  shows "core_but {} (update_status i j s)"
proof (cases "cs_jobs s i")
  case None
  then show ?thesis using prompt_okD(3) [OF assms(1)] by (simp add: update_status_def)
next
  case (Some r)
  have flat: "jb_parent r = None" "jb_kind r = k_single"
    using copies_okD(1) [of s i r] prompt_okD(1) [OF assms(1)] assms(2) Some by (auto simp: batch_ok_def)
  show ?thesis
    by (rule core_update [OF prompt_okD(3) [OF assms(1)]])
      (use flat Some single_not_in_loops [OF assms Some] in auto)
qed

text \<open>Steps that keep the loops, the flights and the links.\<close>

lemma prompt_still:
  assumes "prompt_ok s" "batch_ok t" "core_but {} t" "frames t = frames s" "cs_last t = cs_last s"
    "cs_loops t = cs_loops s" "cs_flight t = cs_flight s" "linked t \<subseteq> linked s"
  shows "prompt_ok t"
proof (rule prompt_okI [OF assms(2,3)])
  show "reported t i" if "i \<in> set (cs_flight t d)" for d i
    by (rule reported_cong [of s]) (use that assms prompt_okD(4) [OF assms(1)] in auto)
qed (use assms prompt_okD [OF assms(1)] in auto)

lemma core_cong: "core_but Q s \<Longrightarrow> cs_jobs t = cs_jobs s \<Longrightarrow> cs_loops t = cs_loops s \<Longrightarrow> core_but Q t"
  by (rule core_but_views) (auto intro: views_cong)

lemma single_send_cases:
  assumes "cs_singles s i = Some (Before_send j)"
  obtains g where "single_send i s = s\<lparr>cs_singles := g\<rparr>"
    | f g where "single_send i s = (update_status i f s)\<lparr>cs_singles := g\<rparr>"
    | d t g where "try_send d i s = Some t" "single_send i s = t\<lparr>cs_singles := g\<rparr>"
proof (cases "jb_target j")
  case None
  then show thesis using assms that(1) by (auto simp: single_send_def)
next
  case (Some d)
  show thesis
  proof (cases "try_send d i s")
    case None
    then show thesis using assms Some that(2) by (cases "map_of (cs_links s) d") (auto simp: single_send_def)
  next
    case (Some t)
    then have "map_of (cs_links s) d \<noteq> None" by (auto simp: try_send_def split: option.splits)
    then show thesis using assms \<open>jb_target j = Some d\<close> Some that(3) [OF Some] by (auto simp: single_send_def)
  qed
qed

lemma prompt_singles:
  assumes "prompt_ok s"
  shows "prompt_ok (single_send i s)" "prompt_ok (single_write i s)"
proof -
  note bt = batch_ok_step [OF prompt_okD(1) [OF assms]]
  note core = prompt_okD(3) [OF assms] and upd = prompt_single_update [OF assms]
  show "prompt_ok (single_write i s)"
  proof (cases "\<exists>j. cs_singles s i = Some (Before_write j)")
    case True
    then obtain j where j: "cs_singles s i = Some (Before_write j)" by blast
    then have bw: "batch_ok (single_write i s)" using bt [of "Single_write i"] by simp
    have c: "core_but {} (single_write i s)"
      by (rule core_cong [OF upd [of i "j\<lparr>jb_status := st_dispatched\<rparr>"]]) (simp_all add: single_write_def j)
    show ?thesis by (rule prompt_still [OF assms bw c]) (simp_all add: single_write_def j linked_def)
  qed (use assms in \<open>auto simp: single_write_def split: option.split single.split\<close>)
  show "prompt_ok (single_send i s)"
  proof (cases "\<exists>j. cs_singles s i = Some (Before_send j)")
    case True
    then obtain j where j: "cs_singles s i = Some (Before_send j)" by blast
    then have bs: "batch_ok (single_send i s)" using bt [of "Single_send i"] by simp
    show ?thesis
    proof (cases rule: single_send_cases [OF j])
      case (1 g)
      show ?thesis by (rule prompt_still [OF assms bs]) (use 1 core in \<open>auto simp: linked_def intro: core_cong\<close>)
    next
      case (2 f g)
      have "core_but {} (single_send i s)" using upd [of i f] j 2 by (auto intro: core_cong)
      then show ?thesis by (rule prompt_still [OF assms bs]) (use 2 in \<open>auto simp: linked_def\<close>)
    next
      case (3 d t g)
      note f = try_send_fields [OF 3(1)]
      have "core_but {} (single_send i s)" by (rule core_cong [OF core]) (use 3 f in auto)
      moreover have "linked (single_send i s) = linked s"
        using linked_try_send [OF 3(1)] 3(2) by (simp add: linked_def)
      ultimately show ?thesis by (intro prompt_still [OF assms bs]) (use 3 f in auto)
    qed
  qed (use assms in \<open>auto simp: single_send_def split: option.split single.split\<close>)
qed

lemma prompt_clear:
  assumes "prompt_ok s"
  shows "prompt_ok (clear_jobs s)"
proof (rule prompt_okI)
  show "batch_ok (clear_jobs s)" using batch_ok_step [OF prompt_okD(1) [OF assms], of Clear_jobs] by simp
  have "loop_sync (clear_jobs s) p l" if "cs_loops s p = Some l" for p l
    using core_butD(1) [OF prompt_okD(3) [OF assms] that] by (simp add: loop_sync_def clear_jobs_def)
  then show "core_but {} (clear_jobs s)"
    by (intro core_butI) (auto simp: clear_jobs_def)
  show "reported (clear_jobs s) i" if "i \<in> set (cs_flight (clear_jobs s) d)" for d i
    by (rule reported_cong [of s])
      (use that prompt_okD(4) [OF assms] in \<open>auto simp: clear_jobs_def frames_def fun_eq_iff\<close>)
qed (use prompt_okD [OF assms] in \<open>auto simp: clear_jobs_def linked_def\<close>)

lemma linked_send_child:
  assumes "send_child i j s = (j', t)" "jb_status j = st_dispatched \<Longrightarrow> jb_stamped j"
  shows "linked t = linked s"
proof (rule send_child_cases [OF assms(1)])
  show "linked t = linked s" if "try_send d i s = Some t" for d using that by (rule linked_try_send)
  show "linked t = linked s" if "t = update_status i j' s" for e unfolding that by (rule linked_cong) simp
qed (use assms(2) in simp_all)

text \<open>A turn of the loop writes the copy and the row alike.\<close>

lemma loop_sync_turn:
  assumes q: "queue_ok s" and sync: "loop_sync s p l" and todo: "sl_todo l = (i, j) # rest"
    and jobs: "(cs_jobs t = cs_jobs s \<and> j' = j) \<or> (\<exists>e. j' = fail_job e j \<and> cs_jobs t = cs_jobs (update_status i j' s))"
  shows "loop_sync t p \<lparr>sl_todo = rest, sl_done = sl_done l @ [(i, j')]\<rparr>"
proof -
  let ?l = "\<lparr>sl_todo = rest, sl_done = sl_done l @ [(i, j')]\<rparr>"
  note ls = loop_syncD [OF sync]
  have rows: "loop_rows l = sl_done l @ (i, j) # rest" "loop_rows ?l = sl_done l @ (i, j') # rest"
    by (simp_all add: loop_rows_def todo)
  have ids: "loop_ids ?l = loop_ids l" by (simp add: loop_ids_def rows)
  have dist: "i \<notin> fst ` set (sl_done l @ rest)" using ls(2) by (auto simp: rows)
  have same: "cs_jobs t k = cs_jobs s k" if "k \<noteq> i" for k
    using jobs that by (auto simp: update_row_same)
  have none: "cs_jobs t k = None \<longleftrightarrow> cs_jobs s k = None" for k using jobs by auto
  have frame: "\<exists>r'. cs_jobs s k = Some r' \<and> jb_parent r' = jb_parent r \<and> jb_kind r' = jb_kind r"
    if "cs_jobs t k = Some r" for k r
    using jobs that update_row_frame [of i j' s k r] by auto
  have here: "\<exists>r'. cs_jobs t i = Some r' \<and> jb_parent r' = jb_parent r \<and> jb_status r' = jb_status j'"
    if "cs_jobs s i = Some r" "jb_status r = jb_status j" for r
    using jobs that by (auto simp: update_status_jobs)
  show ?thesis
    unfolding loop_sync_def ids
  proof (intro conjI allI impI ballI)
    show "loop_rows ?l \<noteq> []" "distinct (map fst (loop_rows ?l))" using ls(1,2) by (simp_all add: rows)
    show "cs_jobs t k = None" if "cs_jobs t p = None" "k \<in> loop_ids l" for k
      using that ls(3) none by simp
    fix r assume r: "cs_jobs t p = Some r"
    then obtain r0 where r0: "cs_jobs s p = Some r0" using none [of p] by auto
    have "i \<noteq> p"
    proof
      assume "i = p"
      obtain jj where "cs_jobs s i = Some jj" "jb_parent jj = Some p"
        using ls(5) [OF r0, of i j] by (auto simp: rows)
      then show False using job_bounds(3) [OF q] \<open>i = p\<close> by fastforce
    qed
    then have rs: "cs_jobs s p = Some r" using r same by simp
    show "jb_status r = st_dispatched" "jb_kind r \<noteq> k_single" using ls(4) [OF rs] by simp_all
    show "case x of (k, c) \<Rightarrow> \<exists>j. cs_jobs t k = Some j \<and> jb_parent j = Some p \<and> jb_status j = jb_status c"
      if "x \<in> set (loop_rows ?l)" for x
    proof (cases x)
      case (Pair k c)
      show ?thesis
      proof (cases "k = i")
        case True
        then have "c = j'" using that Pair dist by (force simp: rows)
        moreover obtain jj where "cs_jobs s i = Some jj" "jb_parent jj = Some p" "jb_status jj = jb_status j"
          using ls(5) [OF rs, of i j] by (auto simp: rows)
        ultimately show ?thesis using here Pair True by auto
      next
        case False
        then have "(k, c) \<in> set (loop_rows l)" using that Pair by (auto simp: rows)
        with ls(5) [OF rs] False Pair show ?thesis by (simp add: same)
      qed
    qed
    show "k \<in> loop_ids l" if "cs_jobs t k = Some j2" "jb_parent j2 = Some p" for k j2
      using frame [OF that(1)] that(2) ls(6) [OF rs] by metis
  qed
qed

lemma waiting_in_one_loop:
  assumes "prompt_ok s" "cs_loops s p = Some l" "(i, j) \<in> set (loop_rows l)" "cs_jobs s i \<noteq> None"
    "cs_loops s p' = Some l'" "i \<in> loop_ids l'"
  shows "p' = p"
proof -
  note sync = core_butD(1) [OF prompt_okD(3) [OF assms(1)]]
  obtain c where c: "(i, c) \<in> set (loop_rows l')" using assms(6) by (auto simp: loop_ids_def)
  have "i \<in> loop_ids l" using assms(3) by (force simp: loop_ids_def)
  then have "cs_jobs s p \<noteq> None" using loop_syncD(3) [OF sync [OF assms(2)], of i] assms(4) by metis
  moreover have "cs_jobs s p' \<noteq> None" using loop_syncD(3) [OF sync [OF assms(5)] _ assms(6)] assms(4) by metis
  ultimately show ?thesis
    using loop_syncD(5) [OF sync [OF assms(2)] _ assms(3)] loop_syncD(5) [OF sync [OF assms(5)] _ c] by fastforce
qed

lemma prompt_send_next:
  assumes "prompt_ok s" "sv_enabled s (Send_next p)"
  shows "prompt_ok (send_next p s)"
proof -
  note ok = prompt_okD [OF assms(1)]
  obtain l where l: "cs_loops s p = Some l" "sl_todo l \<noteq> []" using assms(2) by auto
  obtain i j rest where todo: "sl_todo l = (i, j) # rest" using l(2) by (metis list.exhaust prod.exhaust)
  obtain j' t where send: "send_child i j s = (j', t)" by fastforce
  let ?l = "\<lparr>sl_todo = rest, sl_done = sl_done l @ [(i, j')]\<rparr>"
  let ?t = "t\<lparr>cs_loops := (cs_loops t)(p \<mapsto> ?l)\<rparr>"
  have eq: "send_next p s = ?t" by (simp add: send_next_def l todo send)
  note eff = send_child_effect [OF send]
  have stamped: "jb_stamped j" if "jb_status j = st_dispatched"
    using copies_okD(2) [of s p l i j] ok(1) l todo that by (simp add: batch_ok_def)
  have jobs: "(cs_jobs t = cs_jobs s \<and> j' = j) \<or> (\<exists>e. j' = fail_job e j \<and> cs_jobs t = cs_jobs (update_status i j' s))"
    by (rule send_child_cases [OF send]) (use stamped try_send_fields(1) in auto)
  have frame: "\<exists>r'. cs_jobs s k = Some r' \<and> jb_parent r' = jb_parent r \<and> jb_kind r' = jb_kind r"
    if "cs_jobs t k = Some r" for k r
    using jobs that update_row_frame [of i j' s k r] by auto
  have mem: "(i, j) \<in> set (loop_rows l)" by (simp add: loop_rows_def todo)
  have ids: "loop_ids ?l = loop_ids l" by (auto simp: loop_ids_def loop_rows_def todo)
  have sync_p: "loop_sync t p ?l"
    by (rule loop_sync_turn [OF ok(2) core_butD(1) [OF ok(3) l(1)] todo jobs])
  have child: "jb_parent r = Some p" "jb_kind r = k_single" if "cs_jobs s i = Some r" for r
  proof -
    note sync = core_butD(1) [OF ok(3) l(1)]
    have "cs_jobs s p \<noteq> None" using loop_syncD(3) [OF sync, of i] that mem by (force simp: loop_ids_def)
    then show "jb_parent r = Some p" using loop_syncD(5) [OF sync _ mem] that by auto
    then show "jb_kind r = k_single" using core_butD(3) [OF ok(3) that] by simp
  qed
  have sync_q: "loop_sync t q m" if "cs_loops s q = Some m" "q \<noteq> p" for q m
  proof -
    note sync = core_butD(1) [OF ok(3) that(1)]
    have "loop_sync (update_status i j' s) q m" for j'
    proof (cases "cs_jobs s i")
      case None
      then show ?thesis using sync by (simp add: update_status_def)
    next
      case (Some r)
      show ?thesis
      proof (rule loop_sync_update [OF sync])
        show "i \<notin> loop_ids m" using waiting_in_one_loop [OF assms(1) l(1) mem _ that(1)] Some that(2) by auto
        show "i \<noteq> q" using loop_syncD(4) [OF sync] Some child by auto
      qed
    qed
    moreover have "loop_sync t q m = loop_sync u q m" if "cs_jobs t = cs_jobs u" for u
      using that by (simp add: loop_sync_def)
    ultimately show ?thesis using jobs sync by metis
  qed
  have core: "core_but {} ?t"
  proof (rule core_butI)
    show "loop_sync ?t q m" if "cs_loops ?t q = Some m" for q m
    proof -
      have "loop_sync t q m" using that sync_p sync_q eff(3) by (auto split: if_splits)
      then show ?thesis by (simp add: loop_sync_def)
    qed
    show "\<not> all_children ?t q is_settled"
      if "q \<notin> {}" "cs_loops ?t q = None" "cs_jobs ?t q = Some r" "jb_kind r \<noteq> k_single" "jb_status r = st_dispatched" for q r
    proof -
      have q: "q \<noteq> p" "cs_loops s q = None" using that(2) eff(3) by (auto split: if_splits)
      have "q \<noteq> i"
      proof
        assume "q = i"
        then obtain r' where "cs_jobs s i = Some r'" "jb_kind r' = jb_kind r"
          using frame [of q r] \<open>cs_jobs ?t q = Some r\<close> by auto
        then show False using \<open>jb_kind r \<noteq> k_single\<close> child(2) by simp
      qed
      then have "cs_jobs s q = Some r" using jobs that(3) by (auto simp: update_row_same)
      then have "\<not> all_children s q is_settled" using core_butD(2) [OF ok(3) _ q(2)] that(4,5) by simp
      moreover have "all_children s q is_settled" if "all_children t q is_settled"
        using jobs
      proof (elim disjE exE conjE)
        assume "cs_jobs t = cs_jobs s"
        then show ?thesis using that by (simp add: all_children_def)
      next
        fix e assume "cs_jobs t = cs_jobs (update_status i j' s)"
        then have "all_children (update_status i j' s) q is_settled" using that by (simp add: all_children_def)
        then show ?thesis by (rule children_update) (use child(1) q(1) in auto)
      qed
      ultimately show ?thesis by (auto simp: all_children_def)
    qed
    show "jb_kind k = k_single \<and> (\<forall>r. cs_jobs ?t q = Some r \<longrightarrow> jb_kind r \<noteq> k_single)"
      if "cs_jobs ?t m = Some k" "jb_parent k = Some q" for m k q
    proof -
      obtain k' where k': "cs_jobs s m = Some k'" "jb_parent k' = Some q" "jb_kind k' = jb_kind k"
        using frame [of m k] \<open>cs_jobs ?t m = Some k\<close> \<open>jb_parent k = Some q\<close> by auto
      have "jb_kind r \<noteq> k_single" if "cs_jobs t q = Some r" for r
        using frame [OF that] core_butD(4) [OF ok(3) k'(1,2)] by metis
      then show ?thesis using core_butD(3) [OF ok(3) k'(1,2)] k'(3) by simp
    qed
  qed
  show ?thesis unfolding eq
  proof (rule prompt_okI)
    show "batch_ok ?t" using batch_ok_step [OF ok(1) assms(2)] eq by simp
    show "core_but {} ?t" by (rule core)
    show "reported ?t k" if "k \<in> set (cs_flight ?t d)" for d k
      by (rule reported_cong [of s]) (use that ok(4) eff ids l in \<open>auto split: if_splits\<close>)
    show "0 < d" if "d \<in> linked ?t" for d
      using that ok(5) linked_send_child [OF send stamped] by (simp add: linked_def)
    show "k \<le> cs_last ?t" if "cs_loops ?t q = Some m" "k \<in> loop_ids m" for q m k
      using that ok(6) eff ids l by (auto split: if_splits)
  qed
qed

lemma prompt_loop_end:
  assumes "prompt_ok s" "sv_enabled s (Loop_end p)"
  shows "prompt_ok (loop_end p s)"
proof -
  note ok = prompt_okD [OF assms(1)]
  obtain l where l: "cs_loops s p = Some l" "sl_todo l = []" using assms(2) by auto
  note sync = core_butD(1) [OF ok(3) l(1)]
  let ?t = "s\<lparr>cs_loops := (cs_loops s)(p := None)\<rparr>"
  have q: "queue_ok ?t"
  proof -
    have "waits ?t w i u \<Longrightarrow> waits s w i u" for w i u
      by (cases w) (auto simp: waits_def split: if_splits)
    then show ?thesis
      by (intro queue_ok_less [OF ok(2)]) (use queue_okD(8) [OF ok(2)] in \<open>auto split: if_splits\<close>)
  qed
  have but: "core_but {p} ?t"
  proof (rule core_butI)
    show "loop_sync ?t p' m" if "cs_loops ?t p' = Some m" for p' m
      using that core_butD(1) [OF ok(3), of p' m] by (auto simp: loop_sync_def split: if_splits)
    show "\<not> all_children ?t p' is_settled" if "p' \<notin> {p}" "cs_loops ?t p' = None" "cs_jobs ?t p' = Some r"
      "jb_kind r \<noteq> k_single" "jb_status r = st_dispatched" for p' r
      using core_butD(2) [OF ok(3), of p' r] that by (simp add: all_children_def)
    show "jb_kind j = k_single \<and> (\<forall>r. cs_jobs ?t q = Some r \<longrightarrow> jb_kind r \<noteq> k_single)"
      if "cs_jobs ?t i = Some j" "jb_parent j = Some q" for i j q
      using core_butD(3,4) [OF ok(3)] that by auto
  qed
  have core: "core_but {} (loop_end p s)"
  proof (cases "batch_settled (map snd (sl_done l))")
    case True
    then have "loop_end p s = settle_parent p ?t" by (simp add: loop_end_def l Let_def)
    moreover have "core_but {} (settle_parent p ?t)"
      by (rule settle_fixes) (use but q loop_syncD(4) [OF sync] in auto)
    ultimately show ?thesis by simp
  next
    case False
    then have eq: "loop_end p s = ?t" by (simp add: loop_end_def l Let_def)
    have open_p: "\<not> all_children ?t p is_settled" if "cs_jobs s p = Some r" for r
    proof -
      have "map snd (sl_done l) \<noteq> []" using loop_syncD(1) [OF sync] l(2) by (simp add: loop_rows_def)
      then obtain i c where c: "(i, c) \<in> set (loop_rows l)" "\<not> settled (jb_status c)"
        using False l(2) by (auto simp: batch_settled_def list_all_iff loop_rows_def)
      with loop_syncD(5) [OF sync that c(1)] obtain j where
        "cs_jobs s i = Some j" "jb_parent j = Some p" "\<not> is_settled j" by (auto simp: is_settled_def)
      then show ?thesis unfolding all_children_def by auto
    qed
    show ?thesis unfolding eq
    proof (rule core_butI)
      show "\<not> all_children ?t p' is_settled" if "p' \<notin> {}" "cs_loops ?t p' = None" "cs_jobs ?t p' = Some r"
        "jb_kind r \<noteq> k_single" "jb_status r = st_dispatched" for p' r
        using core_butD(2) [OF but _ that(2-5)] open_p that(3) by (cases "p' = p") auto
    qed (use core_butD [OF but] in blast)+
  qed
  show ?thesis
  proof (rule prompt_okI)
    have loops: "cs_loops (loop_end p s) = (cs_loops s)(p := None)" "frames (loop_end p s) = frames s"
      "cs_flight (loop_end p s) = cs_flight s" "cs_last (loop_end p s) = cs_last s" "cs_links (loop_end p s) = cs_links s"
      by (auto simp: loop_end_def l Let_def)
    show "batch_ok (loop_end p s)" using batch_ok_step [OF ok(1) assms(2)] by simp
    show "core_but {} (loop_end p s)" by (rule core)
    show "reported (loop_end p s) i" if "i \<in> set (cs_flight (loop_end p s) d)" for d i
      by (rule reported_cong [of s]) (use that ok(4) loops in \<open>auto split: if_splits\<close>)
    show "0 < d" if "d \<in> linked (loop_end p s)" for d
      using that ok(5) loops(5) by (simp add: linked_def)
    show "k \<le> cs_last (loop_end p s)" if "cs_loops (loop_end p s) q = Some m" "k \<in> loop_ids m" for q m k
      using that ok(6) loops by (auto split: if_splits)
  qed
qed

section \<open>New batches\<close>

lemma prompt_batch:
  assumes "prompt_ok s" "ak_kind a \<noteq> k_single" "fresh_ids [] ids \<noteq> []"
  shows "core_but {} (batch_state a ids s)"
proof -
  note ok = prompt_okD [OF assms(1)]
  define p where "p = cs_last s + 1"
  define rows where "rows = batch_rows a (connected_ids s) ids p"
  let ?t = "batch_state a ids s"
  have jobs: "cs_jobs ?t i = (case map_of rows i of Some j \<Rightarrow> Some j
      | None \<Rightarrow> if i = p then Some (ask_job a) else cs_jobs s i)" for i
    by (simp add: batch_jobs rows_def p_def)
  have mem: "p < i \<and> jb_parent j = Some p \<and> jb_kind j = k_single" if "(i, j) \<in> set rows" for i j
    using batch_rows_mem [OF that [unfolded rows_def]] by auto
  have row: "map_of rows i = Some j \<longleftrightarrow> (i, j) \<in> set rows" for i j
    by (simp add: rows_def batch_rows_map_of)
  have none: "map_of rows i = None" if "i \<le> p" for i
    using mem [OF map_of_SomeD, of i] that by (cases "map_of rows i") fastforce+
  have old: "cs_jobs ?t i = cs_jobs s i" if "i < p" for i
    using that none [of i] unfolding jobs by simp
  have p_row: "cs_jobs ?t p = Some (ask_job a)"
    using none [of p] unfolding jobs by simp
  have bound: "i < p" if "cs_jobs s i = Some j" for i j
    using job_bounds(2) [OF ok(2) that] by (simp add: p_def)
  have inv: "(i, j) \<in> set rows \<or> i = p \<and> j = ask_job a \<or> cs_jobs s i = Some j \<and> i < p" if "cs_jobs ?t i = Some j" for i j
    using that row [of i j] bound unfolding jobs by (auto split: option.splits if_splits)
  have loops: "cs_loops ?t = (cs_loops s)(p \<mapsto> \<lparr>sl_todo = rows, sl_done = []\<rparr>)"
    by (simp add: batch_state_def Let_def p_def rows_def)
  have new: "loop_sync ?t p \<lparr>sl_todo = rows, sl_done = []\<rparr>"
    unfolding loop_sync_def
  proof (intro conjI allI impI ballI)
    show "loop_rows \<lparr>sl_todo = rows, sl_done = []\<rparr> \<noteq> []"
      using assms(3) by (simp add: loop_rows_def rows_def batch_rows_def)
    show "distinct (map fst (loop_rows \<lparr>sl_todo = rows, sl_done = []\<rparr>))"
      by (simp add: loop_rows_def rows_def batch_rows_distinct)
    show "jb_status r = st_dispatched" "jb_kind r \<noteq> k_single" if "cs_jobs ?t p = Some r" for r
      using that p_row assms(2) by auto
    show "case x of (i, c) \<Rightarrow> \<exists>j. cs_jobs ?t i = Some j \<and> jb_parent j = Some p \<and> jb_status j = jb_status c"
      if "x \<in> set (loop_rows \<lparr>sl_todo = rows, sl_done = []\<rparr>)" for x
    proof (cases x)
      case (Pair i c)
      then have m: "(i, c) \<in> set rows" using that by (simp add: loop_rows_def)
      then have "map_of rows i = Some c" using row by simp
      then have "cs_jobs ?t i = Some c" unfolding jobs by simp
      then show ?thesis using mem [OF m] Pair by simp
    qed
    show "i \<in> loop_ids \<lparr>sl_todo = rows, sl_done = []\<rparr>" if "cs_jobs ?t i = Some j" "jb_parent j = Some p" for i j
    proof -
      have "\<not> (cs_jobs s i = Some j \<and> i < p)" using job_bounds(3) [OF ok(2), of i j p] that(2) by auto
      then have "(i, j) \<in> set rows" using inv [OF that(1)] that(2) by auto
      then show ?thesis by (force simp: loop_ids_def loop_rows_def)
    qed
  qed (use p_row in auto)
  show ?thesis
  proof (rule core_butI)
    show "loop_sync ?t q l" if "cs_loops ?t q = Some l" for q l
    proof (cases "q = p")
      case True
      then show ?thesis using that new loops by simp
    next
      case False
      then have l: "cs_loops s q = Some l" using that loops by simp
      then have "q < p" using queue_okD(4) [OF ok(2), of q] by (simp add: p_def)
      have "i < p" if "i \<in> loop_ids l" for i using ok(6) [OF l that] by (simp add: p_def)
      then have same: "cs_jobs ?t i = cs_jobs s i" if "i \<in> loop_ids l" for i using that old by blast
      note sync = core_butD(1) [OF ok(3) l]
      show ?thesis
      proof (rule loop_sync_agree [OF sync])
        show "cs_jobs s i = Some j" if "cs_jobs ?t i = Some j" "jb_parent j = Some q" for i j
          using inv [OF that(1)] that(2) mem [of i j] \<open>q < p\<close> by auto
      qed (use same old \<open>q < p\<close> in auto)
    qed
    show "\<not> all_children ?t q is_settled" if "q \<notin> {}" "cs_loops ?t q = None" "cs_jobs ?t q = Some r"
      "jb_kind r \<noteq> k_single" "jb_status r = st_dispatched" for q r
    proof -
      have q: "q \<noteq> p" "cs_loops s q = None" using that(2) loops by (auto split: if_splits)
      then have r: "cs_jobs s q = Some r" using inv [OF that(3)] mem [of q r] that(4) by auto
      have "\<not> all_children s q is_settled" using core_butD(2) [OF ok(3) _ q(2) r that(4,5)] by simp
      then obtain i j where ij: "cs_jobs s i = Some j" "jb_parent j = Some q" "\<not> is_settled j"
        unfolding all_children_def by auto
      then have "cs_jobs ?t i = Some j" using old bound by simp
      with ij(2,3) show ?thesis unfolding all_children_def by blast
    qed
    show "jb_kind j = k_single \<and> (\<forall>r. cs_jobs ?t q = Some r \<longrightarrow> jb_kind r \<noteq> k_single)"
      if "cs_jobs ?t i = Some j" "jb_parent j = Some q" for i j q
      using inv [OF that(1)]
    proof (elim disjE conjE)
      assume "(i, j) \<in> set rows"
      then show ?thesis using mem that(2) p_row assms(2) by auto
    next
      assume o: "cs_jobs s i = Some j" "i < p"
      then have "q < p" using job_bounds(3) [OF ok(2) o(1) that(2)] by simp
      then show ?thesis using core_butD(3,4) [OF ok(3) o(1) that(2)] old by simp
    qed (use that in auto)
  qed
qed

text \<open>A row without children, with or without its single send.\<close>

lemma prompt_lone:
  assumes "prompt_ok s" "jb_parent j = None" "jb_kind j \<noteq> k_single \<Longrightarrow> jb_status j = st_failed"
  shows "core_but {} (s\<lparr>cs_jobs := (cs_jobs s)(cs_last s + 1 \<mapsto> j), cs_last := cs_last s + 1, cs_singles := g\<rparr>)"
    (is "core_but {} ?t")
proof (rule core_butI)
  note ok = prompt_okD [OF assms(1)]
  define p where "p = cs_last s + 1"
  have jobs: "cs_jobs ?t i = (if i = p then Some j else cs_jobs s i)" for i by (simp add: p_def)
  have bound: "i < p" if "cs_jobs s i = Some r" for i r
    using job_bounds(2) [OF ok(2) that] by (simp add: p_def)
  have fresh: "cs_jobs s p = None" using bound [of p] by (cases "cs_jobs s p") auto
  show "loop_sync ?t q l" if "cs_loops ?t q = Some l" for q l
  proof -
    have l: "cs_loops s q = Some l" using that by simp
    then have "q \<noteq> p" using queue_okD(4) [OF ok(2), of q] by (auto simp: p_def)
    moreover have "p \<notin> loop_ids l" using ok(6) [OF l, of p] by (auto simp: p_def)
    ultimately show ?thesis
      by (intro loop_sync_agree [OF core_butD(1) [OF ok(3) l]]) (use assms(2) in \<open>auto simp: p_def split: if_splits\<close>)
  qed
  show "\<not> all_children ?t q is_settled" if "q \<notin> {}" "cs_loops ?t q = None" "cs_jobs ?t q = Some r"
    "jb_kind r \<noteq> k_single" "jb_status r = st_dispatched" for q r
  proof -
    have "q \<noteq> p" using that(3-5) assms(3) unfolding jobs by auto
    then have "\<not> all_children s q is_settled"
      using core_butD(2) [OF ok(3), of q r] that unfolding jobs by simp
    then obtain i k where "cs_jobs s i = Some k" "jb_parent k = Some q" "\<not> is_settled k"
      unfolding all_children_def by auto
    moreover have "i \<noteq> p" using calculation(1) fresh by auto
    ultimately show ?thesis unfolding all_children_def jobs by metis
  qed
  show "jb_kind k = k_single \<and> (\<forall>r. cs_jobs ?t q = Some r \<longrightarrow> jb_kind r \<noteq> k_single)"
    if "cs_jobs ?t i = Some k" "jb_parent k = Some q" for i k q
  proof -
    have k: "cs_jobs s i = Some k" using that assms(2) unfolding jobs by (auto split: if_splits)
    then have "q < p" using job_bounds(3) [OF ok(2) k that(2)] bound [OF k] by simp
    then show ?thesis using core_butD(3,4) [OF ok(3) k that(2)] unfolding jobs by auto
  qed
qed

lemma prompt_new:
  assumes "prompt_ok s" "batch_ok t" "core_but {} t" "cs_flight t = cs_flight s" "cs_links t = cs_links s"
    "cs_last s \<le> cs_last t" "\<And>i. i \<le> cs_last s \<Longrightarrow> frames t i = frames s i"
    "\<And>p l i. cs_loops t p = Some l \<Longrightarrow> i \<in> loop_ids l \<Longrightarrow>
      (cs_loops s p = Some l \<or> cs_last s < i) \<and> i \<le> cs_last t"
  shows "prompt_ok t"
proof (rule prompt_okI [OF assms(2,3)])
  note ok = prompt_okD [OF assms(1)]
  show "reported t i" if "i \<in> set (cs_flight t d)" for d i
  proof -
    have r: "reported s i" using that ok(4) assms(4) by simp
    then have "i \<le> cs_last s" by (simp add: reported_def)
    moreover have "i \<notin> loop_ids l" if "cs_loops t p = Some l" for p l
      using assms(8) [OF that] r calculation by (force simp: reported_def)
    ultimately show ?thesis using r assms(6,7) by (auto simp: reported_def)
  qed
  show "0 < d" if "d \<in> linked t" for d using that ok(5) assms(5) by (simp add: linked_def)
  show "i \<le> cs_last t" if "cs_loops t p = Some l" "i \<in> loop_ids l" for p l i
    using assms(8) [OF that] by simp
qed

lemma prompt_execute:
  assumes "prompt_ok s"
  shows "prompt_ok (execute a s)"
proof -
  note ok = prompt_okD [OF assms]
  have bt: "batch_ok (execute a s)" using batch_ok_step [OF ok(1), of "Ask a"] by simp
  show ?thesis
  proof (cases rule: execute_cases [of a s])
    case refused
    then show ?thesis using assms by simp
  next
    case single
    show ?thesis
    proof (rule prompt_new [OF assms bt])
      show "core_but {} (execute a s)" unfolding single(3) by (rule prompt_lone [OF assms]) (use single(2) in simp_all)
    qed (use single in \<open>auto simp: frames_def dest!: ok(6)\<close>)
  next
    case (nobody st er)
    have "ask_ids a s = []"
    proof (cases "ak_kind a = k_broadcast")
      case True
      have "set (ask_ids a s) = linked s" using True by (simp add: ask_ids_def connected_ids_def linked_def)
      then have "\<forall>i\<in>set (ask_ids a s). 0 < i" using ok(5) by auto
      then show ?thesis using nobody(3) fresh_ids_props [of "[]" "ask_ids a s"] by (cases "ask_ids a s") auto
    next
      case False
      then have ids: "ask_ids a s = take 4000 (fresh_ids [] (ak_targets a))"
        by (simp add: ask_ids_def unique_device_ids_def)
      have "\<forall>i\<in>set (ask_ids a s). 0 < i"
        using fresh_ids_props [of "[]" "ak_targets a"] unfolding ids by (auto dest: in_set_takeD)
      then show ?thesis using nobody(3) fresh_ids_props [of "[]" "ask_ids a s"] by (cases "ask_ids a s") auto
    qed
    then have st: "st = st_failed" using nobody(5) by simp
    show ?thesis
    proof (rule prompt_new [OF assms bt])
      show "core_but {} (execute a s)"
        using prompt_lone [OF assms, of "(ask_job a)\<lparr>jb_status := st, jb_error := er\<rparr>" "cs_singles s"] st
        unfolding nobody(4) by simp
    qed (use nobody in \<open>auto simp: frames_def dest!: ok(6)\<close>)
  next
    case batch
    show ?thesis unfolding batch(4)
    proof (rule prompt_new [OF assms bt [unfolded batch(4)]])
      let ?t = "batch_state a (ask_ids a s) s"
      let ?rows = "batch_rows a (connected_ids s) (ask_ids a s) (cs_last s + 1)"
      have f: "cs_last ?t = cs_last s + 1 + int (length ?rows)"
        "cs_loops ?t = (cs_loops s)(cs_last s + 1 \<mapsto> \<lparr>sl_todo = ?rows, sl_done = []\<rparr>)"
        "cs_flight ?t = cs_flight s" "cs_links ?t = cs_links s"
        by (simp_all add: batch_state_def Let_def)
      then show "cs_flight ?t = cs_flight s" "cs_links ?t = cs_links s" "cs_last s \<le> cs_last ?t" by simp_all
      show "core_but {} ?t" by (rule prompt_batch [OF assms batch(2,3)])
      show "frames ?t i = frames s i" if "i \<le> cs_last s" for i
        using that batch_rows_mem [of i _ a "connected_ids s" "ask_ids a s" "cs_last s + 1"]
        by (auto simp: frames_def batch_jobs batch_rows_map_of split: option.split)
      show "(cs_loops s p = Some l \<or> cs_last s < i) \<and> i \<le> cs_last ?t" if "cs_loops ?t p = Some l" "i \<in> loop_ids l" for p l i
      proof (cases "p = cs_last s + 1")
        case True
        have "l = \<lparr>sl_todo = ?rows, sl_done = []\<rparr>" using that(1) f(2) True by simp
        then have "i \<in> fst ` set ?rows" using that(2) by (simp add: loop_ids_def loop_rows_def)
        then obtain j where "(i, j) \<in> set ?rows" by auto
        then show ?thesis using batch_rows_mem f(1) by fastforce
      next
        case False
        then have "cs_loops s p = Some l" using that(1) f(2) by simp
        then show ?thesis using ok(6) [OF _ that(2)] f(1) by fastforce
      qed
    qed
  qed
qed

lemma prompt_ok_step:
  assumes "prompt_ok s" "prompt_enabled s e"
  shows "prompt_ok (sv_step e s)"
  using assms(2)
  by (cases e) (auto simp: assms(1) prompt_enabled_def prompt_execute prompt_send_next prompt_loop_end prompt_singles
      prompt_links prompt_clear intro: prompt_result [OF assms(1)] prompt_output [OF assms(1)])

lemma prompt_ok_init: "prompt_ok sv_init"
  by (rule prompt_okI [OF batch_ok_init]) (auto simp: sv_init_def linked_def core_but_def)

interpretation settle: invariant_machine "\<lambda>s. s = sv_init" prompt_enabled sv_step prompt_ok
  by unfold_locales (auto simp: prompt_ok_init intro: prompt_ok_step)

definition prompt_reach :: "cmd_srv \<Rightarrow> bool" where
  "prompt_reach s \<longleftrightarrow> reach (\<lambda>s. s = sv_init) prompt_enabled sv_step s"

end
