(* ===== verification/Command_Faults.thy ===== *)
theory Command_Faults
  imports Command_Settle
begin

text \<open>
  The properties of a command on the server, each over the machine of \<open>Command_Server\<close>, and the
  orders of events in which the code does not do what it means to.
\<close>

section \<open>Properties\<close>

text \<open>C5: Whatever requests, connections, disconnects and reports are interleaved, no command is sent
  twice, and what is sent goes to the device of its row.\<close>

theorem executed_once:
  assumes "sv_reach s"
  shows "distinct (map snd (cs_sent s)) \<and>
    (\<forall>d i j. (d, i) \<in> set (cs_sent s) \<longrightarrow> cs_jobs s i = Some j \<longrightarrow> jb_target j = Some d)"
  using queue.inv_reach [OF assms [unfolded sv_reach_def]]
  by (auto simp: addressed_def frames_def frame_def dest: queue_okD(3,9))

text \<open>C17: A batch that the history shows as completed has only settled children, in every reachable state.\<close>

theorem completed_batch_settled:
  assumes "sv_reach s" "cs_jobs s p = Some r" "jb_kind r \<noteq> k_single" "jb_status r = st_complete"
    and "cs_jobs s i = Some j" "jb_parent j = Some p"
  shows "settled (jb_status j)"
  using batch.inv_reach [OF assms(1) [unfolded sv_reach_def]] assms(2-)
  unfolding batch_ok_def done_sound_def all_children_def is_settled_def by blast

text \<open>C6: In every run in which no machine sends output or a result for a child of a batch while the loop that
  sends the batch is still running, whatever else happens (machines come and go, commands fail to be delivered,
  the history is cleared): a batch that the history shows as dispatched and whose loop is through has a child that
  is not settled. So the last child to be settled completes its batch, and no batch stays open.\<close>

theorem settled_batch_completes:
  assumes "prompt_reach s" "cs_jobs s p = Some r" "jb_kind r \<noteq> k_single" "cs_loops s p = None"
    and "jb_status r = st_dispatched"
  shows "\<exists>i j. cs_jobs s i = Some j \<and> jb_parent j = Some p \<and> \<not> settled (jb_status j)"
proof -
  have "prompt_ok s" using settle.inv_reach assms(1) unfolding prompt_reach_def .
  then have "\<not> all_children s p is_settled"
    using core_butD(2) [OF prompt_okD(3), of s p r] assms(2-) by simp
  then show ?thesis by (auto simp: all_children_def is_settled_def)
qed

text \<open>C35: When the last device of a loop has gone while an earlier child has already reported its result,
  the loop ends with the copies of the earlier children still counting as dispatched, so it does not look
  at the batch: every child is settled and the batch stays dispatched.\<close>

theorem batch_left_open:
  assumes "cs_loops s p = Some l" "sl_todo l = [(b, jb)]" "jb_target jb = Some d" "jb_status jb = st_dispatched"
    and "map_of (cs_links s) d = None" "(a, ja) \<in> set (sl_done l)" "jb_status ja = st_dispatched"
    and "cs_jobs s p = Some r" "jb_status r = st_dispatched" "p \<noteq> b"
    and "\<And>i j. cs_jobs s i = Some j \<Longrightarrow> jb_parent j = Some p \<Longrightarrow> i \<noteq> b \<Longrightarrow> settled (jb_status j)"
  shows "let t = run sv_step [Send_next p, Loop_end p] s in
    cs_jobs t p = Some r \<and> cs_loops t p = None \<and> all_children t p is_settled"
proof -
  define f where "f = fail_job (t_not_connected d) jb"
  define u where "u = update_status b f s"
  let ?l = "\<lparr>sl_todo = [], sl_done = sl_done l @ [(b, f)]\<rparr>"
  have send: "send_next p s = u\<lparr>cs_loops := (cs_loops u)(p \<mapsto> ?l)\<rparr>"
    using assms(1-5) by (simp add: send_next_def send_child_def Let_def f_def u_def)
  have open_batch: "\<not> batch_settled (map snd (sl_done ?l))"
  proof
    assume "batch_settled (map snd (sl_done ?l))"
    then have "settled (jb_status ja)" using assms(6) by (auto simp: batch_settled_def list_all_iff)
    with assms(7) show False by simp
  qed
  then have t: "run sv_step [Send_next p, Loop_end p] s = u\<lparr>cs_loops := (cs_loops u)(p := None)\<rparr>"
    by (simp add: send loop_end_def Let_def)
  have "all_children u p is_settled"
    unfolding all_children_def
  proof (intro allI impI)
    fix i j assume ij: "cs_jobs u i = Some j" "jb_parent j = Some p"
    show "is_settled j"
    proof (cases "i = b")
      case True
      then show ?thesis using ij by (auto simp: u_def update_status_jobs f_def fail_job_def is_settled_def)
    next
      case False
      then show ?thesis using ij assms(11) by (auto simp: u_def update_row_same is_settled_def)
    qed
  qed
  moreover have "cs_jobs u p = Some r" using assms(8,10) by (simp add: u_def update_row_same)
  ultimately show ?thesis unfolding t Let_def by (simp add: all_children_def)
qed

text \<open>C36: A command for one device is sent before its row is written, from a copy in memory: when the
  result comes in between, the write puts the row back to dispatched and its output to the empty one of
  the copy, and nothing is left that would settle it.\<close>

theorem single_result_overwritten:
  assumes "cs_singles s i = Some (Before_write j)" "cs_jobs s i = Some r"
  shows "let t = run sv_step [Result d i st err dur, Single_write i] s in
    map_option jb_status (cs_jobs t i) = Some st_dispatched \<and>
    map_option jb_output (cs_jobs t i) = Some (jb_output j) \<and> cs_singles t i = None"
proof -
  let ?s = "cmd_result d i st err dur s"
  have sg: "cs_singles ?s i = Some (Before_write j)"
    using assms(1) cmd_result_skeleton [of d i st err dur s] by (simp add: skeleton_def)
  have "frames ?s i \<noteq> None"
    using assms(2) cmd_result_skeleton [of d i st err dur s] by (simp add: skeleton_def frames_def)
  then obtain r' where "cs_jobs ?s i = Some r'" by (auto simp: frames_def)
  with sg show ?thesis by (simp add: single_write_def update_status_jobs)
qed

section \<open>A command that never ends\<close>

text \<open>A dispatched command that no loop, no send and no connection holds.\<close>

definition forgotten :: "cmd_srv \<Rightarrow> int \<Rightarrow> bool" where
  "forgotten s i \<longleftrightarrow> i \<le> cs_last s \<and> map_option jb_status (cs_jobs s i) = Some st_dispatched \<and>
    cs_singles s i = None \<and> cs_loops s i = None \<and> (\<forall>d. i \<notin> set (cs_flight s d)) \<and>
    (\<forall>p l. cs_loops s p = Some l \<longrightarrow> i \<notin> fst ` set (sl_todo l)) \<and>
    (\<forall>k r. cs_jobs s k = Some r \<longrightarrow> jb_parent r \<noteq> Some i)"

text \<open>The events by which the machine that got it would settle it, and the clearing of the history.\<close>

fun about :: "int \<Rightarrow> sv_ev \<Rightarrow> bool" where
  "about i (Output d k line due) = (k = i)"
| "about i (Result d k st err dur) = (k = i)"
| "about i Clear_jobs = True"
| "about i _ = False"

text \<open>What a step must keep.\<close>

lemma forgottenI:
  assumes "forgotten s i" "cs_last s \<le> cs_last t"
    and "map_option jb_status (cs_jobs t i) = map_option jb_status (cs_jobs s i)"
    and "cs_singles t i = cs_singles s i" "cs_loops t i = cs_loops s i"
    and "\<And>d. set (cs_flight t d) \<subseteq> insert k (set (cs_flight s d))" "k \<noteq> i"
    and "\<And>p l. cs_loops t p = Some l \<Longrightarrow>
      (\<exists>m. cs_loops s p = Some m \<and> fst ` set (sl_todo l) \<subseteq> fst ` set (sl_todo m)) \<or> i \<notin> fst ` set (sl_todo l)"
    and "\<And>n r. cs_jobs t n = Some r \<Longrightarrow>
      (\<exists>r'. cs_jobs s n = Some r' \<and> jb_parent r' = jb_parent r) \<or> jb_parent r \<noteq> Some i"
  shows "forgotten t i"
  unfolding forgotten_def
proof (intro conjI allI impI)
  note f = assms(1) [unfolded forgotten_def]
  show "i \<le> cs_last t" using f assms(2) by simp
  show "map_option jb_status (cs_jobs t i) = Some st_dispatched" using f assms(3) by simp
  show "cs_singles t i = None" "cs_loops t i = None" using f assms(4,5) by simp_all
  show "i \<notin> set (cs_flight t d)" for d using f assms(6) [of d] assms(7) by blast
  show "i \<notin> fst ` set (sl_todo l)" if "cs_loops t p = Some l" for p l
    using f assms(8) [OF that] by blast
  show "jb_parent r \<noteq> Some i" if "cs_jobs t n = Some r" for n r
    using f assms(9) [OF that] by metis
qed

lemma parents_frames:
  assumes "frames t = frames s" "cs_jobs t n = Some r"
  shows "\<exists>r'. cs_jobs s n = Some r' \<and> jb_parent r' = jb_parent r"
proof -
  have "frames t n = frames s n" using assms(1) by simp
  then show ?thesis using assms(2) by (cases "cs_jobs s n") (auto simp: frames_def frame_def)
qed

lemma settle_other:
  assumes "p \<noteq> i"
  shows "cs_jobs (settle_parent p s) i = cs_jobs s i"
  using assms by (auto simp: settle_parent_def Let_def update_row_same split: option.split)

lemma fail_flight_other:
  assumes "k \<noteq> i" "\<And>r. cs_jobs s k = Some r \<Longrightarrow> jb_parent r \<noteq> Some i"
  shows "cs_jobs (fail_flight k s) i = cs_jobs s i"
  using assms by (auto simp: fail_flight_def Let_def update_row_same settle_other split: option.split)

lemma fold_fail_other:
  assumes "i \<notin> set ks" "\<And>k r. cs_jobs s k = Some r \<Longrightarrow> jb_parent r \<noteq> Some i"
  shows "cs_jobs (fold fail_flight ks s) i = cs_jobs s i"
  using assms
proof (induction ks arbitrary: s)
  case (Cons k ks)
  have "cs_jobs (fold fail_flight ks (fail_flight k s)) i = cs_jobs (fail_flight k s) i"
  proof (rule Cons.IH)
    show "jb_parent r \<noteq> Some i" if "cs_jobs (fail_flight k s) n = Some r" for n r
      using parents_frames [of "fail_flight k s" s n r] that Cons.prems(2) by fastforce
  qed (use Cons.prems in simp)
  also have "\<dots> = cs_jobs s i" by (rule fail_flight_other) (use Cons.prems in auto)
  finally show ?case by simp
qed simp

lemma forgotten_skeleton:
  assumes "forgotten s i" "skeleton t = skeleton s" "cs_jobs t i = cs_jobs s i"
    and "\<And>d. set (cs_flight t d) \<subseteq> insert k (set (cs_flight s d))" "k \<noteq> i"
  shows "forgotten t i"
proof (rule forgottenI [OF assms(1) _ _ _ _ assms(4,5)])
  have f: "frames t = frames s" "cs_last t = cs_last s" "cs_loops t = cs_loops s" "cs_singles t = cs_singles s"
    using assms(2) by (simp_all add: skeleton_def)
  show "cs_last s \<le> cs_last t" "cs_singles t i = cs_singles s i" "cs_loops t i = cs_loops s i"
    by (simp_all add: f)
  show "map_option jb_status (cs_jobs t i) = map_option jb_status (cs_jobs s i)" by (simp add: assms(3))
  show "(\<exists>m. cs_loops s p = Some m \<and> fst ` set (sl_todo l) \<subseteq> fst ` set (sl_todo m)) \<or> i \<notin> fst ` set (sl_todo l)"
    if "cs_loops t p = Some l" for p l using that f(3) by auto
  show "(\<exists>r'. cs_jobs s n = Some r' \<and> jb_parent r' = jb_parent r) \<or> jb_parent r \<noteq> Some i"
    if "cs_jobs t n = Some r" for n r using parents_frames [OF f(1) that] by blast
qed

lemma forgottenD:
  assumes "forgotten s i"
  shows "i \<le> cs_last s" "cs_singles s i = None" "cs_loops s i = None" "i \<notin> set (cs_flight s d)"
    "cs_loops s p = Some l \<Longrightarrow> i \<notin> fst ` set (sl_todo l)" "cs_jobs s k = Some r \<Longrightarrow> jb_parent r \<noteq> Some i"
  using assms unfolding forgotten_def by blast+

lemma cmd_result_other:
  assumes "k \<noteq> i" "\<And>r. cs_jobs s k = Some r \<Longrightarrow> jb_parent r \<noteq> Some i"
  shows "cs_jobs (cmd_result d k st err dur s) i = cs_jobs s i"
proof (cases "cs_jobs s k")
  case (Some r)
  then have "jb_parent r \<noteq> Some i" using assms(2) by blast
  then show ?thesis
    using assms(1) Some by (auto simp: cmd_result_def Let_def settle_other update_row_same split: option.split)
qed (simp add: cmd_result_def Let_def)

lemma forgotten_report:
  assumes "forgotten s i" "k \<noteq> i"
  shows "forgotten (cmd_output d k line due s) i" "forgotten (cmd_result d k st err dur s) i"
proof -
  show "forgotten (cmd_output d k line due s) i"
    by (rule forgotten_skeleton [OF assms(1) cmd_output_skeleton _ _ assms(2)])
      (use assms(2) in \<open>auto simp: cmd_output_def Let_def update_output_def\<close>)
  have "cs_jobs (cmd_result d k st err dur s) i = cs_jobs s i"
    by (rule cmd_result_other [OF assms(2) forgottenD(6) [OF assms(1)]])
  then show "forgotten (cmd_result d k st err dur s) i"
    by (rule forgotten_skeleton [OF assms(1) cmd_result_skeleton _ _ assms(2)])
      (auto simp: cmd_result_def Let_def split: option.split)
qed

lemma forgotten_links:
  assumes "forgotten s i"
  shows "forgotten (link_down d s) i" "forgotten (link_up d s) i" "forgotten (set_load d f s) i"
proof -
  have "cs_jobs (link_down d s) i = cs_jobs s i"
    using fold_fail_other [of i "cs_flight s d" s] forgottenD [OF assms] by (simp add: link_down_def Let_def)
  then show "forgotten (link_down d s) i"
    by (rule forgotten_skeleton [OF assms links_skeleton(1), where k = "i + 1"]) (auto simp: link_down_def Let_def)
  show "forgotten (link_up d s) i"
    by (rule forgotten_skeleton [OF assms links_skeleton(2), where k = "i + 1"]) (auto simp: link_up_def)
  show "forgotten (set_load d f s) i"
    by (rule forgotten_skeleton [OF assms links_skeleton(3), where k = "i + 1"])
      (auto simp: set_load_def split: option.splits)
qed

text \<open>A step that updates one other row and takes from the loops.\<close>

lemma forgotten_other:
  assumes "forgotten s i" "frames t = frames s" "cs_last t = cs_last s" "cs_flight t = cs_flight s"
    and "cs_jobs t i = cs_jobs s i" "cs_singles t i = None" "cs_loops t i = None"
    and "\<And>p l. cs_loops t p = Some l \<Longrightarrow> \<exists>m. cs_loops s p = Some m \<and> fst ` set (sl_todo l) \<subseteq> fst ` set (sl_todo m)"
  shows "forgotten t i"
proof (rule forgottenI [OF assms(1), where k = "i + 1"])
  show "(\<exists>r'. cs_jobs s n = Some r' \<and> jb_parent r' = jb_parent r) \<or> jb_parent r \<noteq> Some i"
    if "cs_jobs t n = Some r" for n r using parents_frames [OF assms(2) that] by blast
qed (use assms forgottenD [OF assms(1)] in \<open>auto dest!: assms(8)\<close>)

lemma send_child_other:
  assumes "send_child k j s = (j', t)" "k \<noteq> i"
  shows "cs_jobs t i = cs_jobs s i"
  using assms by (auto simp: send_child_def Let_def update_row_same try_send_fields split: option.splits if_splits)

lemma forgotten_loops:
  assumes "forgotten s i"
  shows "forgotten (send_next p s) i" "forgotten (loop_end p s) i"
proof -
  note f = forgottenD [OF assms]
  show "forgotten (send_next p s) i"
  proof (cases "cs_loops s p")
    case (Some l)
    show ?thesis
    proof (cases "sl_todo l")
      case (Cons kj rest)
      obtain k j where kj: "kj = (k, j)" by fastforce
      obtain j' t where send: "send_child k j s = (j', t)" by fastforce
      have "k \<noteq> i" using f(5) [OF Some] Cons kj by auto
      have eq: "send_next p s = t\<lparr>cs_loops := (cs_loops t)(p \<mapsto> \<lparr>sl_todo = rest, sl_done = sl_done l @ [(k, j')]\<rparr>)\<rparr>"
        by (simp add: send_next_def Some Cons kj send)
      have "p \<noteq> i" using f(3) Some by auto
      then show ?thesis unfolding eq
        using f send_child_effect [OF send] send_child_other [OF send \<open>k \<noteq> i\<close>] Some Cons
        by (intro forgotten_other [OF assms]) (auto split: if_splits)
    qed (simp add: send_next_def Some assms)
  qed (simp add: send_next_def assms)
  show "forgotten (loop_end p s) i"
  proof (cases "cs_loops s p")
    case (Some l)
    then have "p \<noteq> i" using f(3) by auto
    then show ?thesis
      using f by (intro forgotten_other [OF assms])
        (auto simp: loop_end_def Some Let_def settle_other split: if_splits)
  qed (simp add: loop_end_def assms)
qed

lemma forgotten_singles:
  assumes "forgotten s i"
  shows "forgotten (single_send k s) i" "forgotten (single_write k s) i"
proof -
  note f = forgottenD [OF assms]
  show "forgotten (single_write k s) i"
  proof (cases "\<exists>j. cs_singles s k = Some (Before_write j)")
    case True
    then have "k \<noteq> i" using f(2) by auto
    with True show ?thesis
      using f by (intro forgotten_other [OF assms]) (auto simp: single_write_def update_row_same)
  qed (use assms in \<open>auto simp: single_write_def split: option.split single.split\<close>)
  show "forgotten (single_send k s) i"
  proof (cases "\<exists>j. cs_singles s k = Some (Before_send j)")
    case True
    then obtain j where j: "cs_singles s k = Some (Before_send j)" by blast
    then have k: "k \<noteq> i" using f(2) by auto
    have sg: "cs_singles (single_send k s) i = None"
      using k f(2) by (auto simp: single_send_def split: option.split single.split)
    show ?thesis
    proof (cases rule: single_send_cases [OF j])
      case (1 g)
      then show ?thesis using f sg by (intro forgotten_other [OF assms]) auto
    next
      case (2 e g)
      then show ?thesis using f sg k by (intro forgotten_other [OF assms]) (auto simp: update_row_same)
    next
      case (3 d t g)
      then show ?thesis using f sg try_send_fields [OF 3(1)] by (intro forgotten_other [OF assms]) auto
    qed
  qed (use assms in \<open>auto simp: single_send_def split: option.split single.split\<close>)
qed

lemma forgotten_execute:
  assumes "forgotten s i"
  shows "forgotten (execute a s) i"
proof -
  note f = forgottenD [OF assms]
  show ?thesis
  proof (cases rule: execute_cases [of a s])
    case refused
    then show ?thesis using assms by simp
  next
    case single
    then show ?thesis
      using f by (intro forgottenI [OF assms, where k = "i + 1"]) (auto split: if_splits)
  next
    case (nobody st er)
    then show ?thesis
      using f by (intro forgottenI [OF assms, where k = "i + 1"]) (auto split: if_splits)
  next
    case batch
    let ?rows = "batch_rows a (connected_ids s) (ask_ids a s) (cs_last s + 1)"
    let ?t = "batch_state a (ask_ids a s) s"
    have t: "cs_last ?t = cs_last s + 1 + int (length ?rows)" "cs_flight ?t = cs_flight s" "cs_singles ?t = cs_singles s"
      "cs_loops ?t = (cs_loops s)(cs_last s + 1 \<mapsto> \<lparr>sl_todo = ?rows, sl_done = []\<rparr>)"
      by (simp_all add: batch_state_def Let_def)
    have above: "cs_last s < n \<and> jb_parent r = Some (cs_last s + 1)" if "(n, r) \<in> set ?rows" for n r
      using batch_rows_mem [OF that] by auto
    have none: "map_of ?rows i = None"
      using above [OF map_of_SomeD, of i] f(1) by (cases "map_of ?rows i") fastforce+
    show ?thesis unfolding batch(4)
    proof (rule forgottenI [OF assms, where k = "i + 1"])
      show "map_option jb_status (cs_jobs ?t i) = map_option jb_status (cs_jobs s i)"
        using none f(1) by (simp add: batch_jobs)
      show "(\<exists>m. cs_loops s p = Some m \<and> fst ` set (sl_todo l) \<subseteq> fst ` set (sl_todo m)) \<or> i \<notin> fst ` set (sl_todo l)"
        if "cs_loops ?t p = Some l" for p l
        using that t(4) above f(1) by (auto split: if_splits) fastforce+
      show "(\<exists>r'. cs_jobs s n = Some r' \<and> jb_parent r' = jb_parent r) \<or> jb_parent r \<noteq> Some i"
        if "cs_jobs ?t n = Some r" for n r
      proof (cases "map_of ?rows n")
        case None
        then show ?thesis using that by (auto simp: batch_jobs split: if_splits)
      next
        case (Some r')
        then have "r' = r" using that by (simp add: batch_jobs)
        then show ?thesis using above [OF map_of_SomeD [OF Some]] f(1) by auto
      qed
    qed (use t f in auto)
  qed
qed

lemma forgotten_step: "forgotten s i \<Longrightarrow> \<not> about i e \<Longrightarrow> forgotten (sv_step e s) i"
  by (cases e) (auto simp: forgotten_execute forgotten_loops forgotten_singles forgotten_links forgotten_report)

text \<open>A command that was sent and has produced no output yet is not among those the server fails when
  the machine disconnects, and the machine drops it: its row stays dispatched through every further
  sequence of requests, connections, disconnects and reports on other commands, and so does its batch
  count it as open.\<close>

theorem silent_command_hangs:
  assumes "forgotten s i" "\<And>e. e \<in> set es \<Longrightarrow> \<not> about i e"
  shows "map_option jb_status (cs_jobs (run sv_step (Link_down d # es) s) i) = Some st_dispatched"
proof -
  have "forgotten (run sv_step es t) i" if "forgotten t i" for t
    using that assms(2) by (induction es arbitrary: t) (auto intro: forgotten_step)
  then have "forgotten (run sv_step (Link_down d # es) s) i"
    using forgotten_links(1) [OF assms(1)] by simp
  then show ?thesis by (simp add: forgotten_def)
qed

section \<open>The size of the output\<close>

definition marker_bytes :: nat where "marker_bytes = byte_count t_truncated"

lemma marker_bytes_val: "marker_bytes = 42"
  by (simp add: marker_bytes_def byte_count_def t_truncated_def js_def unit_bytes_def)

lemma byte_count_append [simp]: "byte_count (a @ b) = byte_count a + byte_count b"
  by (simp add: byte_count_def)

lemma byte_newline: "byte_count newline = 1"
  by (simp add: byte_count_def newline_def unit_bytes_def)

definition small_buf :: "out_buf \<Rightarrow> bool" where
  "small_buf b \<longleftrightarrow> byte_count (ob_text b) \<le> max_output + (if ob_truncated b then marker_bytes else 0)"

definition bufs_small :: "cmd_srv \<Rightarrow> bool" where
  "bufs_small s \<longleftrightarrow> (\<forall>i b. cs_buf s i = Some b \<longrightarrow> small_buf b)"

lemma append_small: "small_buf b \<Longrightarrow> small_buf (append_line line b)"
  by (auto simp: small_buf_def append_line_def byte_newline marker_bytes_def)

lemma buffer_small: "bufs_small s \<Longrightarrow> small_buf (buffer_of i s)"
  by (cases "cs_buf s i") (auto simp: bufs_small_def buffer_of_def, simp add: small_buf_def byte_count_def)

lemma small_flag [simp]: "small_buf (b\<lparr>ob_dirty := x\<rparr>) = small_buf b"
  by (simp add: small_buf_def)

lemma update_output_buf [simp]: "cs_buf (update_output i t s) = cs_buf s"
  by (simp add: update_output_def)

lemma try_send_buf: "try_send d i s = Some t \<Longrightarrow> cs_buf t = cs_buf s"
  by (auto simp: try_send_def split: option.splits if_splits)

lemma send_child_buf: "send_child i j s = (j', t) \<Longrightarrow> cs_buf t = cs_buf s"
  by (auto simp: send_child_def Let_def try_send_buf split: option.splits if_splits)

lemma execute_buf: "cs_buf (execute a s) = cs_buf s"
  by (cases rule: execute_cases [of a s]) (simp_all add: batch_state_def Let_def)

lemma bufs_small_step:
  assumes "bufs_small s"
  shows "bufs_small (sv_step e s)"
proof (cases e)
  case (Output d i line due)
  have "small_buf (append_line line (buffer_of i s))" by (intro append_small buffer_small assms)
  then show ?thesis using assms Output by (auto simp: bufs_small_def cmd_output_def Let_def)
next
  case (Send_next p)
  have "cs_buf (send_next p s) = cs_buf s"
    by (auto simp: send_next_def split: option.split list.split prod.split dest: send_child_buf)
  then show ?thesis using assms Send_next by (simp add: bufs_small_def)
next
  case (Single_send i)
  have "cs_buf (single_send i s) = cs_buf s"
    by (auto simp: single_send_def split: option.split single.split dest: try_send_buf)
  then show ?thesis using assms Single_send by (simp add: bufs_small_def)
next
  case (Result d i st err dur)
  have "cs_buf (cmd_result d i st err dur s) = (if cs_jobs s i = None then cs_buf s else (cs_buf s)(i := None))"
    by (auto simp: cmd_result_def Let_def split: option.split)
  then show ?thesis using assms Result by (auto simp: bufs_small_def split: if_splits)
qed (use assms in \<open>auto simp: bufs_small_def execute_buf loop_end_def single_write_def link_up_def link_down_def
    set_load_def clear_jobs_def Let_def split: option.splits single.splits if_splits\<close>)

interpretation buffers: invariant_machine "\<lambda>s. s = sv_init" sv_enabled sv_step bufs_small
  by unfold_locales (auto intro: bufs_small_step, simp add: bufs_small_def sv_init_def)

text \<open>C25: However much a command prints, the accumulated output that is written to its row never exceeds
  256 KB by more than the 42 bytes of the marker.\<close>

theorem output_bounded:
  assumes "sv_reach s" "cs_buf s i = Some b"
  shows "byte_count (ob_text b) \<le> 262186"
proof -
  have "small_buf b"
    using buffers.inv_reach [OF assms(1) [unfolded sv_reach_def]] assms(2) by (simp add: bufs_small_def)
  then show ?thesis by (auto simp: small_buf_def max_output_def marker_bytes_val split: if_splits)
qed

section \<open>A room with two machines\<close>

definition demo_ask :: cmd_ask where
  "demo_ask = \<lparr>ak_kind = k_list, ak_target = None, ak_targets = [3, 4], ak_command = js ''ls''\<rparr>"

definition demo_single :: cmd_ask where
  "demo_single = \<lparr>ak_kind = k_single, ak_target = Some 3, ak_targets = [], ak_command = js ''ls''\<rparr>"

definition demo_sent :: "sv_ev list" where
  "demo_sent = [Link_up 3, Link_up 4, Ask demo_ask, Send_next 1, Send_next 1, Loop_end 1]"

lemmas demo_simps = sv_init_def link_up_def execute_def ask_refused_def demo_ask_def demo_single_def
  ask_job_def create_job_def unique_device_ids_def byte_count_def unit_bytes_def k_single_def k_list_def
  k_broadcast_def js_eq js_def materialize_def create_children_def child_job_def connected_ids_def
  send_next_def send_child_def try_send_def buffer_size_def loop_end_def batch_settled_def settled_def
  st_defs single_send_def Let_def

definition demo_job :: "int \<Rightarrow> cmd_job" where
  "demo_job d = \<lparr>jb_parent = Some 1, jb_kind = k_single, jb_target = Some d, jb_command = js ''ls'',
     jb_status = st_dispatched, jb_output = [], jb_error = [], jb_stamped = True, jb_duration = 0\<rparr>"

lemma demo_sent_state:
  "run sv_step demo_sent sv_init = \<lparr>cs_jobs = [1 \<mapsto> ask_job demo_ask, 2 \<mapsto> demo_job 3, 3 \<mapsto> demo_job 4],
     cs_last = 3, cs_links = [(3, 2), (4, 2)], cs_sent = [(3, 2), (4, 3)], cs_loops = Map.empty,
     cs_singles = Map.empty, cs_flight = (\<lambda>_. []), cs_buf = Map.empty\<rparr>"
  by (simp add: demo_sent_def demo_simps demo_job_def fun_eq_iff)

lemma demo_sent_prompt: "run_ok prompt_enabled sv_step demo_sent sv_init"
  by (simp add: demo_sent_def prompt_enabled_def demo_simps)

lemma prompt_run: "run_ok prompt_enabled sv_step es s \<Longrightarrow> run_ok sv_enabled sv_step es s"
  by (induction es arbitrary: s) (auto simp: prompt_enabled_def)

lemma run_ok_append: "run_ok en step (es @ fs) s \<longleftrightarrow> run_ok en step es s \<and> run_ok en step fs (run step es s)"
  by (induction es arbitrary: s) auto

lemma sv_reachI: "run_ok sv_enabled sv_step es sv_init \<Longrightarrow> sv_reach (run sv_step es sv_init)"
  unfolding sv_reach_def by (rule reach_runI) simp_all

lemma executed_once_witness:
  "distinct (map snd (cs_sent (run sv_step demo_sent sv_init)))"
  using executed_once [OF sv_reachI [OF prompt_run [OF demo_sent_prompt]]] by simp

definition demo_reported :: "sv_ev list" where
  "demo_reported = demo_sent @ [Result 3 2 st_complete [] 5, Result 4 3 st_failed (js ''no'') 6]"

lemma demo_upto: "[1..3::int] = [1, 2, 3]"
  by (simp add: upto_rec1)

lemmas demo_result = cmd_result_def update_status_def settle_parent_def children_of_def child_ids_def
  demo_upto demo_job_def ask_job_def demo_ask_def Let_def k_list_def k_single_def js_eq

lemma demo_reported_state:
  "let t = run sv_step demo_reported sv_init in
     map_option jb_status (cs_jobs t 1) = Some st_complete \<and> map_option jb_kind (cs_jobs t 1) = Some k_list \<and>
     cs_jobs t 3 = Some ((demo_job 4)\<lparr>jb_status := st_failed, jb_error := js ''no'', jb_duration := 6\<rparr>)"
  by (simp add: demo_reported_def run_append demo_sent_state) (simp add: demo_result)

lemma demo_reported_ok: "run_ok sv_enabled sv_step demo_reported sv_init"
  unfolding demo_reported_def run_ok_append
  by (simp add: prompt_run [OF demo_sent_prompt] demo_sent_state) (simp add: demo_result)

lemma completed_batch_settled_witness:
  "settled (jb_status ((demo_job 4)\<lparr>jb_status := st_failed, jb_error := js ''no'', jb_duration := 6\<rparr>))"
proof -
  obtain r where "cs_jobs (run sv_step demo_reported sv_init) 1 = Some r" "jb_status r = st_complete" "jb_kind r = k_list"
    using demo_reported_state by (auto simp: Let_def)
  then show ?thesis
    using completed_batch_settled [OF sv_reachI [OF demo_reported_ok], of 1 r 3] demo_reported_state
    by (simp add: Let_def demo_job_def)
qed

lemma settled_batch_completes_witness:
  "\<exists>i j. cs_jobs (run sv_step demo_sent sv_init) i = Some j \<and> jb_parent j = Some 1 \<and> \<not> settled (jb_status j)"
proof (rule settled_batch_completes)
  show "prompt_reach (run sv_step demo_sent sv_init)"
    unfolding prompt_reach_def by (rule reach_runI) (simp_all add: demo_sent_prompt)
  show "cs_jobs (run sv_step demo_sent sv_init) 1 = Some (ask_job demo_ask)" "cs_loops (run sv_step demo_sent sv_init) 1 = None"
    by (simp_all add: demo_sent_state)
qed (simp_all add: demo_ask_def)

definition demo_race :: "sv_ev list" where
  "demo_race = [Link_up 3, Link_up 4, Ask demo_ask, Send_next 1, Result 3 2 st_complete [] 5, Link_down 4]"

lemma demo_race_state:
  "run sv_step demo_race sv_init = \<lparr>cs_jobs = [1 \<mapsto> ask_job demo_ask,
       2 \<mapsto> (demo_job 3)\<lparr>jb_status := st_complete, jb_duration := 5\<rparr>, 3 \<mapsto> demo_job 4],
     cs_last = 3, cs_links = [(3, 2)], cs_sent = [(3, 2)],
     cs_loops = [1 \<mapsto> \<lparr>sl_todo = [(3, demo_job 4)], sl_done = [(2, demo_job 3)]\<rparr>],
     cs_singles = Map.empty, cs_flight = (\<lambda>_. []), cs_buf = Map.empty\<rparr>"
  by (simp add: demo_race_def demo_simps demo_job_def demo_result link_down_def AList.delete_eq fun_eq_iff)

lemma batch_left_open_witness:
  "all_children (run sv_step [Send_next 1, Loop_end 1] (run sv_step demo_race sv_init)) 1 is_settled"
proof -
  let ?s = "run sv_step demo_race sv_init"
  have "let t = run sv_step [Send_next 1, Loop_end 1] ?s in
      cs_jobs t 1 = Some (ask_job demo_ask) \<and> cs_loops t 1 = None \<and> all_children t 1 is_settled"
    by (rule batch_left_open [where l = "\<lparr>sl_todo = [(3, demo_job 4)], sl_done = [(2, demo_job 3)]\<rparr>" and b = 3
          and jb = "demo_job 4" and d = 4 and a = 2 and ja = "demo_job 3"])
      (auto simp: demo_race_state demo_job_def split: if_splits)
  then show ?thesis by (simp only: Let_def)
qed

lemma demo_single_state:
  "run sv_step [Link_up 3, Ask demo_single, Single_send 1] sv_init = \<lparr>cs_jobs = [1 \<mapsto> ask_job demo_single],
     cs_last = 1, cs_links = [(3, 2)], cs_sent = [(3, 1)], cs_loops = Map.empty,
     cs_singles = [1 \<mapsto> Before_write (ask_job demo_single)], cs_flight = (\<lambda>_. []), cs_buf = Map.empty\<rparr>"
  by (simp add: demo_simps fun_eq_iff)

lemma single_result_overwritten_witness:
  "map_option jb_status (cs_jobs (run sv_step [Result 3 1 st_complete [] 5, Single_write 1]
     (run sv_step [Link_up 3, Ask demo_single, Single_send 1] sv_init)) 1) = Some st_dispatched"
proof -
  have "let t = run sv_step [Result 3 1 st_complete [] 5, Single_write 1]
      (run sv_step [Link_up 3, Ask demo_single, Single_send 1] sv_init) in
    map_option jb_status (cs_jobs t 1) = Some st_dispatched \<and>
    map_option jb_output (cs_jobs t 1) = Some (jb_output (ask_job demo_single)) \<and> cs_singles t 1 = None"
    by (rule single_result_overwritten) (simp_all only: demo_single_state, simp_all)
  then show ?thesis by (simp only: Let_def)
qed

lemma silent_command_hangs_witness:
  "map_option jb_status (cs_jobs (run sv_step [Link_down 3, Link_up 3, Ask demo_ask]
     (run sv_step demo_sent sv_init)) 2) = Some st_dispatched"
proof (rule silent_command_hangs)
  show "forgotten (run sv_step demo_sent sv_init) 2"
    by (auto simp: forgotten_def demo_sent_state demo_job_def split: if_splits)
qed auto

lemma output_bounded_witness: "byte_count (js ''x'' @ newline) \<le> 262186"
proof -
  let ?es = "demo_sent @ [Output 3 2 (js ''x'') True]"
  have ok: "run_ok sv_enabled sv_step ?es sv_init"
    unfolding run_ok_append by (simp add: prompt_run [OF demo_sent_prompt] demo_sent_state)
  have "cs_buf (run sv_step ?es sv_init) 2 = Some \<lparr>ob_text = js ''x'' @ newline, ob_truncated = False, ob_dirty = False\<rparr>"
    by (simp add: run_append demo_sent_state cmd_output_def append_line_def buffer_of_def Let_def max_output_def
        byte_count_def js_def unit_bytes_def update_output_def)
  then show ?thesis using output_bounded [OF sv_reachI [OF ok]] by fastforce
qed

end
