(* ===== verification/Console_Sync.thy ===== *)
theory Console_Sync
  imports Command_Faults
begin

text \<open>
  The console's table and the server's rows together: the server answers a request with the copies of
  its loop, announces output and results on the administration socket, and \<open>Command_Page\<close> turns both
  into its table. The joint machine starts when the answer of a batch has been handled and delivers
  every announcement at once. What it shows: the table agrees with the rows of the history as long as no
  disconnect fails a child of the batch; that one change the server does not announce.
\<close>

section \<open>What the server tells the console\<close>

definition log_of :: "jstr \<Rightarrow> command_log list option \<Rightarrow> int \<times> cmd_job \<Rightarrow> command_log" where
  "log_of now cs ij = (case ij of (i, j) \<Rightarrow>
     CommandLog i (jb_kind j) (jb_target j) (jb_command j) (jb_status j) (jb_output j) (jb_error j) now (jb_duration j) cs)"

text \<open>The answer of \<open>Execute\<close>: the parent with the copies of its children.\<close>

definition exec_answer :: "jstr \<Rightarrow> int \<times> cmd_job \<Rightarrow> (int \<times> cmd_job) list \<Rightarrow> command_log" where
  "exec_answer now p rows = log_of now (Some (map (log_of now None) rows)) p"

fun announced :: "sv_ev \<Rightarrow> admin_event list" where
  "announced (Output d i line due) =
     [\<lparr>ad_event = js ''command_output'', ad_command = i, ad_device = d, ad_line = Some line, ad_error = None,
       ad_status = None, ad_duration = 0\<rparr>]"
| "announced (Result d i st err dur) =
     [\<lparr>ad_event = js ''command_result'', ad_command = i, ad_device = d, ad_line = None, ad_error = Some err,
       ad_status = Some st, ad_duration = dur\<rparr>]"
| "announced _ = []"

section \<open>The devices of a batch\<close>

definition targets_ok :: "cmd_srv \<Rightarrow> bool" where
  "targets_ok s \<longleftrightarrow> (\<forall>p l. cs_loops s p = Some l \<longrightarrow>
     distinct (map (\<lambda>x. jb_target (snd x)) (loop_rows l)) \<and>
     (\<forall>i c. (i, c) \<in> set (loop_rows l) \<longrightarrow> i \<le> cs_last s \<and> jb_target c \<noteq> None \<and>
       (\<forall>j. cs_jobs s i = Some j \<longrightarrow> jb_target j = jb_target c) \<and>
       (jb_status c = st_dispatched \<or> jb_status c = st_failed)))"

lemma targets_okI:
  assumes "\<And>p l. cs_loops s p = Some l \<Longrightarrow> distinct (map (\<lambda>x. jb_target (snd x)) (loop_rows l))"
    and "\<And>p l i c. cs_loops s p = Some l \<Longrightarrow> (i, c) \<in> set (loop_rows l) \<Longrightarrow> i \<le> cs_last s \<and> jb_target c \<noteq> None"
    and "\<And>p l i c j. cs_loops s p = Some l \<Longrightarrow> (i, c) \<in> set (loop_rows l) \<Longrightarrow> cs_jobs s i = Some j \<Longrightarrow> jb_target j = jb_target c"
    and "\<And>p l i c. cs_loops s p = Some l \<Longrightarrow> (i, c) \<in> set (loop_rows l) \<Longrightarrow> jb_status c = st_dispatched \<or> jb_status c = st_failed"
  shows "targets_ok s"
  unfolding targets_ok_def using assms by blast

lemma targets_okD:
  assumes "targets_ok s" "cs_loops s p = Some l"
  shows "distinct (map (\<lambda>x. jb_target (snd x)) (loop_rows l))"
    and "(i, c) \<in> set (loop_rows l) \<Longrightarrow> i \<le> cs_last s \<and> jb_target c \<noteq> None"
    and "(i, c) \<in> set (loop_rows l) \<Longrightarrow> cs_jobs s i = Some j \<Longrightarrow> jb_target j = jb_target c"
    and "(i, c) \<in> set (loop_rows l) \<Longrightarrow> jb_status c = st_dispatched \<or> jb_status c = st_failed"
  using assms unfolding targets_ok_def by blast+

lemma targets_frame:
  assumes "frames t = frames s" "cs_jobs t i = Some j"
  shows "\<exists>j'. cs_jobs s i = Some j' \<and> jb_target j' = jb_target j"
proof -
  have "frames t i = frames s i" using assms(1) by simp
  then show ?thesis using assms(2) by (cases "cs_jobs s i") (auto simp: frames_def frame_def)
qed

text \<open>The copies of a loop keep their numbers and devices; their statuses stay or become failed.\<close>

definition like_loop :: "send_loop \<Rightarrow> send_loop \<Rightarrow> bool" where
  "like_loop l m \<longleftrightarrow> map (\<lambda>x. (fst x, jb_target (snd x))) (loop_rows l) = map (\<lambda>x. (fst x, jb_target (snd x))) (loop_rows m) \<and>
     (\<forall>i c. (i, c) \<in> set (loop_rows l) \<longrightarrow> (i, c) \<in> set (loop_rows m) \<or> jb_status c = st_failed)"

lemma like_loop_refl [simp]: "like_loop l l"
  by (simp add: like_loop_def)

lemma targets_ok_keep:
  assumes "targets_ok s" "cs_last t = cs_last s" "frames t = frames s \<or> cs_jobs t = Map.empty"
    and "\<And>p l. cs_loops t p = Some l \<Longrightarrow> \<exists>m. cs_loops s p = Some m \<and> like_loop l m"
  shows "targets_ok t"
proof (rule targets_okI)
  fix p l assume "cs_loops t p = Some l"
  with assms(4) obtain m where m: "cs_loops s p = Some m"
    "map (\<lambda>x. (fst x, jb_target (snd x))) (loop_rows l) = map (\<lambda>x. (fst x, jb_target (snd x))) (loop_rows m)"
    "\<And>i c. (i, c) \<in> set (loop_rows l) \<Longrightarrow> (i, c) \<in> set (loop_rows m) \<or> jb_status c = st_failed"
    unfolding like_loop_def by blast
  note old = targets_okD [OF assms(1) m(1)]
  have "map (\<lambda>x. jb_target (snd x)) (loop_rows l) = map (\<lambda>x. jb_target (snd x)) (loop_rows m)"
    using arg_cong [OF m(2), of "map snd"] by (simp add: comp_def)
  with old(1) show "distinct (map (\<lambda>x. jb_target (snd x)) (loop_rows l))" by simp
  fix i c assume ic: "(i, c) \<in> set (loop_rows l)"
  then show "jb_status c = st_dispatched \<or> jb_status c = st_failed" using m(3) old(4) by blast
  have "(i, jb_target c) \<in> set (map (\<lambda>x. (fst x, jb_target (snd x))) (loop_rows l))" using ic by force
  then obtain c' where c': "(i, c') \<in> set (loop_rows m)" "jb_target c' = jb_target c" unfolding m(2) by auto
  then show "i \<le> cs_last t \<and> jb_target c \<noteq> None" using old(2) [OF c'(1)] c'(2) assms(2) by simp
  show "jb_target j = jb_target c" if "cs_jobs t i = Some j" for j
    using assms(3) that targets_frame [of t s i j] old(3) [OF c'(1)] c'(2) by (elim disjE) auto
qed

lemma targets_ok_skeleton: "targets_ok s \<Longrightarrow> skeleton t = skeleton s \<Longrightarrow> targets_ok t"
  by (erule targets_ok_keep) (simp_all add: skeleton_def)

lemma number_from_targets:
  "map (\<lambda>x. jb_target (snd x)) (number_from n cs) = map jb_target cs"
  by (induction n cs rule: number_from.induct) auto

lemma targets_ok_batch:
  assumes "targets_ok s"
  shows "targets_ok (batch_state a ids s)"
proof (rule targets_okI)
  fix p l assume l: "cs_loops (batch_state a ids s) p = Some l"
  let ?t = "batch_state a ids s"
  let ?rows = "batch_rows a (connected_ids s) ids (cs_last s + 1)"
  have t: "cs_loops ?t = (cs_loops s)(cs_last s + 1 \<mapsto> \<lparr>sl_todo = ?rows, sl_done = []\<rparr>)"
    "cs_last ?t = cs_last s + 1 + int (length ?rows)"
    by (simp_all add: batch_state_def Let_def)
  have old: "cs_jobs ?t i = cs_jobs s i" if "i \<le> cs_last s" for i
    using that batch_rows_mem [of i _ a "connected_ids s" ids "cs_last s + 1"]
    by (auto simp: batch_jobs batch_rows_map_of split: option.split)
  have new: "loop_rows l = ?rows" if "p = cs_last s + 1" using that l t(1) by (auto simp: loop_rows_def)
  have before: "cs_loops s p = Some l" if "p \<noteq> cs_last s + 1" using that l t(1) by simp
  have "map (\<lambda>x. jb_target (snd x)) ?rows = map Some (fresh_ids [] ids)"
    by (simp add: batch_rows_def number_from_targets comp_def)
  moreover have "distinct (map Some (fresh_ids [] ids))"
    using fresh_ids_props [of "[]" ids] by (simp add: distinct_map)
  ultimately have "distinct (map (\<lambda>x. jb_target (snd x)) ?rows)" by (simp only:)
  then show "distinct (map (\<lambda>x. jb_target (snd x)) (loop_rows l))"
    using new targets_okD(1) [OF assms before] by (cases "p = cs_last s + 1") simp_all
  fix i c assume ic: "(i, c) \<in> set (loop_rows l)"
  show "i \<le> cs_last ?t \<and> jb_target c \<noteq> None"
    using new before ic batch_rows_mem [of i c a "connected_ids s" ids "cs_last s + 1"]
      targets_okD(2) [OF assms before] t(2) by (cases "p = cs_last s + 1") fastforce+
  show "jb_status c = st_dispatched \<or> jb_status c = st_failed"
    using new before ic batch_rows_mem [of i c a "connected_ids s" ids "cs_last s + 1"]
      targets_okD(4) [OF assms before] by (cases "p = cs_last s + 1") auto
  show "jb_target j = jb_target c" if j: "cs_jobs ?t i = Some j" for j
  proof (cases "p = cs_last s + 1")
    case True
    then have "map_of ?rows i = Some c" using new ic by (simp add: batch_rows_map_of)
    then show ?thesis using j by (simp add: batch_jobs)
  next
    case False
    then show ?thesis using targets_okD(2,3) [OF assms before ic] old [of i] j by simp
  qed
qed

lemma targets_ok_send:
  assumes "targets_ok s"
  shows "targets_ok (send_next p s)"
proof (cases "cs_loops s p")
  case (Some l)
  show ?thesis
  proof (cases "sl_todo l")
    case (Cons kj rest)
    obtain k j where kj: "kj = (k, j)" by fastforce
    obtain j' t where send: "send_child k j s = (j', t)" by fastforce
    note eff = send_child_effect [OF send]
    have "j' = j \<or> jb_status j' = st_failed"
      using send by (auto simp: send_child_def Let_def fail_job_def split: option.splits if_splits)
    note eff = eff this
    have eq: "send_next p s = t\<lparr>cs_loops := (cs_loops t)(p \<mapsto> \<lparr>sl_todo = rest, sl_done = sl_done l @ [(k, j')]\<rparr>)\<rparr>"
      by (simp add: send_next_def Some Cons kj send)
    show ?thesis unfolding eq
      by (rule targets_ok_keep [OF assms])
        (use eff Some Cons kj in \<open>auto simp: like_loop_def loop_rows_def split: if_splits\<close>)
  qed (simp add: send_next_def Some assms)
qed (simp add: send_next_def assms)

lemma targets_ok_step:
  assumes "targets_ok s" "queue_ok s"
  shows "targets_ok (sv_step e s)"
proof (cases e)
  case (Ask a)
  have lone: "targets_ok (s\<lparr>cs_jobs := (cs_jobs s)(cs_last s + 1 \<mapsto> j), cs_last := cs_last s + 1, cs_singles := g\<rparr>)" for j g
  proof (rule targets_okI)
    fix p l i c k assume "cs_loops (s\<lparr>cs_jobs := (cs_jobs s)(cs_last s + 1 \<mapsto> j), cs_last := cs_last s + 1, cs_singles := g\<rparr>) p = Some l"
    then have "cs_loops s p = Some l" by simp
    note old = targets_okD [OF assms(1) this]
    show "distinct (map (\<lambda>x. jb_target (snd x)) (loop_rows l))" by (rule old)
    assume "(i, c) \<in> set (loop_rows l)"
    note ic = old(2-4) [OF this]
    show "jb_status c = st_dispatched \<or> jb_status c = st_failed" by (rule ic)
    show "i \<le> cs_last (s\<lparr>cs_jobs := (cs_jobs s)(cs_last s + 1 \<mapsto> j), cs_last := cs_last s + 1, cs_singles := g\<rparr>) \<and> jb_target c \<noteq> None"
      using ic(1) by simp
    assume "cs_jobs (s\<lparr>cs_jobs := (cs_jobs s)(cs_last s + 1 \<mapsto> j), cs_last := cs_last s + 1, cs_singles := g\<rparr>) i = Some k"
    then show "jb_target k = jb_target c" using ic(1,2) by (auto split: if_splits)
  qed
  have "targets_ok (execute a s)"
  proof (cases rule: execute_cases [of a s])
    case (nobody st er)
    then show ?thesis using lone [where g = "cs_singles s"] by simp
  qed (use assms lone targets_ok_batch in auto)
  then show ?thesis using Ask by simp
next
  case (Loop_end p)
  have "targets_ok (s\<lparr>cs_loops := (cs_loops s)(p := None)\<rparr>)"
    by (rule targets_ok_keep [OF assms(1)]) (auto split: if_splits)
  then show ?thesis using assms(1) Loop_end
    by (auto simp: loop_end_def Let_def intro: targets_ok_skeleton split: option.split)
next
  case (Single_send i)
  have "cs_loops (single_send i s) = cs_loops s \<and> frames (single_send i s) = frames s \<and> cs_last (single_send i s) = cs_last s"
    by (auto simp: single_send_def try_send_fields split: option.split single.split)
  then show ?thesis using Single_send by (auto intro: targets_ok_keep [OF assms(1)])
next
  case (Single_write i)
  have "cs_loops (single_write i s) = cs_loops s \<and> frames (single_write i s) = frames s \<and> cs_last (single_write i s) = cs_last s"
    by (auto simp: single_write_def split: option.split single.split)
  then show ?thesis using Single_write by (auto intro: targets_ok_keep [OF assms(1)])
next
  case Clear_jobs
  then show ?thesis by (auto simp: clear_jobs_def intro: targets_ok_keep [OF assms(1)])
qed (auto simp: targets_ok_send assms(1) intro: targets_ok_skeleton [OF assms(1)])

interpretation targets: invariant_machine "\<lambda>s. s = sv_init" sv_enabled sv_step "\<lambda>s. queue_ok s \<and> targets_ok s"
  by unfold_locales (auto simp: queue_ok_init queue_ok_step targets_ok_step, simp add: targets_ok_def sv_init_def)

lemma prompt_reach_sv: "prompt_reach s \<Longrightarrow> sv_reach s"
  unfolding prompt_reach_def sv_reach_def
  by (induction rule: reach.induct) (auto simp: prompt_enabled_def intro: reach_init reach_step)

section \<open>One child on the server\<close>

text \<open>The row of a child that no loop holds changes by its own result and by a disconnect only.\<close>

definition next_status :: "sv_ev \<Rightarrow> cmd_srv \<Rightarrow> int \<Rightarrow> jstr \<Rightarrow> jstr" where
  "next_status e s i st = (case e of
     Result d k st' err dur \<Rightarrow> if k = i then st' else st
   | Link_down d \<Rightarrow> if i \<in> set (cs_flight s d) \<and> (st = st_dispatched \<or> st = st_pending) then st_failed else st
   | _ \<Rightarrow> st)"

lemma child_facts:
  assumes "prompt_ok s" "cs_jobs s i = Some j" "jb_parent j = Some q"
  shows "jb_kind j = k_single" "cs_singles s i = None" "cs_jobs s k = Some r \<Longrightarrow> jb_parent r \<noteq> Some i" "cs_loops s i = None"
proof -
  note ok = prompt_okD [OF assms(1)]
  show kind: "jb_kind j = k_single" using core_butD(3) [OF ok(3) assms(2,3)] .
  show "cs_singles s i = None"
    using copies_okD(1) [of s i j] ok(1) assms(2,3) by (cases "cs_singles s i") (auto simp: batch_ok_def)
  show "jb_parent r \<noteq> Some i" if "cs_jobs s k = Some r"
    using core_butD(4) [OF ok(3) that _ assms(2)] kind by blast
  show "cs_loops s i = None"
  proof (cases "cs_loops s i")
    case (Some l)
    then show ?thesis using loop_syncD(4) [OF core_butD(1) [OF ok(3) Some] assms(2)] kind by simp
  qed simp
qed

lemma fail_flight_here:
  assumes "cs_jobs s i = Some j" "jb_parent j \<noteq> Some i"
  shows "map_option jb_status (cs_jobs (fail_flight i s) i) =
    Some (if jb_status j = st_dispatched \<or> jb_status j = st_pending then st_failed else jb_status j)"
  using assms by (auto simp: fail_flight_def Let_def settle_other update_status_jobs fail_job_def split: option.split)

lemma fold_fail_status:
  assumes "\<And>k r. cs_jobs s k = Some r \<Longrightarrow> jb_parent r \<noteq> Some i" "cs_jobs s i = Some j"
  shows "map_option jb_status (cs_jobs (fold fail_flight ks s) i) =
    Some (if i \<in> set ks \<and> (jb_status j = st_dispatched \<or> jb_status j = st_pending) then st_failed else jb_status j)"
  using assms
proof (induction ks arbitrary: s j)
  case (Cons k ks)
  have par: "jb_parent r \<noteq> Some i" if "cs_jobs (fail_flight k s) n = Some r" for n r
    using parents_frames [of "fail_flight k s" s n r] that Cons.prems(1) by fastforce
  have "cs_jobs (fail_flight k s) i \<noteq> None"
  proof -
    have "frames (fail_flight k s) i = Some (frame j)" using Cons.prems(2) by (simp, simp add: frames_def)
    then show ?thesis unfolding frames_def by auto
  qed
  then obtain j' where j': "cs_jobs (fail_flight k s) i = Some j'" by blast
  show ?case
  proof (cases "k = i")
    case True
    have "jb_status j' = (if jb_status j = st_dispatched \<or> jb_status j = st_pending then st_failed else jb_status j)"
      using fail_flight_here [OF Cons.prems(2)] Cons.prems(1) [OF Cons.prems(2)] j' True by simp
    then show ?thesis using Cons.IH [of "fail_flight k s" j', OF _ j'] par True by auto
  next
    case False
    then have "j' = j" using fail_flight_other [of k i s] Cons.prems j' by auto
    then show ?thesis using Cons.IH [of "fail_flight k s" j', OF _ j'] par False by auto
  qed
qed simp

lemma child_status:
  assumes "prompt_ok s" "cs_jobs s i = Some j" "jb_parent j = Some q" "reported s i" "e \<noteq> Clear_jobs"
  shows "map_option jb_status (cs_jobs (sv_step e s) i) = Some (next_status e s i (jb_status j))"
proof -
  note ch = child_facts [OF assms(1-3)]
  have loop: "i \<notin> fst ` set (sl_todo l)" if "cs_loops s p = Some l" for p l
    using assms(4) that by (force simp: reported_def loop_ids_def loop_rows_def)
  have le: "i \<le> cs_last s" using assms(4) by (simp add: reported_def)
  show ?thesis
  proof (cases e)
    case (Ask a)
    have "cs_jobs (execute a s) i = cs_jobs s i"
    proof (cases rule: execute_cases [of a s])
      case batch
      have "map_of (batch_rows a (connected_ids s) (ask_ids a s) (cs_last s + 1)) i = None"
        using batch_rows_mem [OF map_of_SomeD, of a "connected_ids s" "ask_ids a s" "cs_last s + 1" i] le
        by (cases "map_of (batch_rows a (connected_ids s) (ask_ids a s) (cs_last s + 1)) i") fastforce+
      then show ?thesis using le unfolding batch(4) by (simp add: batch_jobs)
    qed (use le in auto)
    then show ?thesis using assms(2) Ask by (simp add: next_status_def)
  next
    case (Send_next p)
    have "cs_jobs (send_next p s) i = cs_jobs s i"
    proof (cases "cs_loops s p")
      case (Some l)
      show ?thesis
      proof (cases "sl_todo l")
        case (Cons kj rest)
        obtain k c where kj: "kj = (k, c)" by fastforce
        obtain c' t where send: "send_child k c s = (c', t)" by fastforce
        have "k \<noteq> i" using loop [OF Some] Cons kj by auto
        then show ?thesis using send_child_other [OF send] by (simp add: send_next_def Some Cons kj send)
      qed (simp add: send_next_def Some)
    qed (simp add: send_next_def)
    then show ?thesis using assms(2) Send_next by (simp add: next_status_def)
  next
    case (Loop_end p)
    have "cs_jobs (loop_end p s) i = cs_jobs s i"
      using ch(4) by (cases "p = i") (auto simp: loop_end_def Let_def settle_other split: option.split)
    then show ?thesis using assms(2) Loop_end by (simp add: next_status_def)
  next
    case (Single_send k)
    have "cs_jobs (single_send k s) i = cs_jobs s i"
      using ch(2) by (cases "k = i")
        (auto simp: single_send_def update_row_same try_send_fields split: option.split single.split)
    then show ?thesis using assms(2) Single_send by (simp add: next_status_def)
  next
    case (Single_write k)
    have "cs_jobs (single_write k s) i = cs_jobs s i"
      using ch(2) by (cases "k = i") (auto simp: single_write_def update_row_same split: option.split single.split)
    then show ?thesis using assms(2) Single_write by (simp add: next_status_def)
  next
    case (Link_down d)
    then show ?thesis using fold_fail_status [OF ch(3) assms(2)]
      by (simp add: next_status_def link_down_def Let_def)
  next
    case (Output d k line due)
    then show ?thesis using assms(2)
      by (auto simp: next_status_def cmd_output_def update_output_def Let_def)
  next
    case (Result d k st err dur)
    show ?thesis
    proof (cases "k = i")
      case True
      have "q \<noteq> i" using ch(3) [OF assms(2)] assms(3) by auto
      then show ?thesis using True assms(2,3) Result
        by (simp add: next_status_def cmd_result_def Let_def settle_other update_status_jobs)
    next
      case False
      have "cs_jobs (cmd_result d k st err dur s) i = cs_jobs s i"
        by (rule cmd_result_other [OF False ch(3)])
      then show ?thesis using False assms(2) Result by (simp add: next_status_def)
    qed
  qed (use assms(2,5) in \<open>auto simp: next_status_def link_up_def set_load_def split: option.split\<close>)
qed

section \<open>The joint machine\<close>

type_synonym joint = "cmd_srv \<times> cmd_page"

definition joint_step :: "sv_ev \<Rightarrow> joint \<Rightarrow> joint" where
  "joint_step e x = (case x of (s, pg) \<Rightarrow> (sv_step e s, fold on_command_event (announced e) pg))"

text \<open>The loop of a batch has just ended and the console has handled the answer.\<close>

definition joint_init :: "joint \<Rightarrow> bool" where
  "joint_init x \<longleftrightarrow> (\<exists>s0 p l r n now pg. prompt_reach s0 \<and> cs_loops s0 p = Some l \<and> sl_todo l = [] \<and>
     cs_jobs s0 p = Some r \<and>
     x = (loop_end p s0, run_created n (exec_answer now (p, r) (sl_done l)) pg))"

text \<open>Nobody clears the history, and no machine goes while it is inside a command of the batch.\<close>

fun no_loss :: "joint \<Rightarrow> sv_ev \<Rightarrow> bool" where
  "no_loss (s, pg) (Link_down d) = (\<forall>i\<in>set (cs_flight s d). map_of (cp_known pg) i = None)"
| "no_loss (s, pg) Clear_jobs = False"
| "no_loss (s, pg) _ = True"

definition joint_enabled :: "joint \<Rightarrow> sv_ev \<Rightarrow> bool" where
  "joint_enabled x e \<longleftrightarrow> prompt_enabled (fst x) e \<and> no_loss x e"

text \<open>A row of the console's table against the row of the history.\<close>

definition row_agrees :: "jstr \<Rightarrow> jstr \<Rightarrow> bool" where
  "row_agrees st shown \<longleftrightarrow> (if settled st then shown = st
     else st = st_dispatched \<and> (shown = st_dispatched \<or> shown = js ''running''))"

definition known_agrees :: "joint \<Rightarrow> int \<Rightarrow> int \<Rightarrow> bool" where
  "known_agrees x i d \<longleftrightarrow> (\<exists>j q r. cs_jobs (fst x) i = Some j \<and> jb_parent j = Some q \<and> jb_target j = Some d \<and>
     reported (fst x) i \<and> map_of (cp_rows (snd x)) d = Some r \<and> rw_command r = i \<and> row_agrees (jb_status j) (rw_status r))"

definition joint_ok :: "joint \<Rightarrow> bool" where
  "joint_ok x \<longleftrightarrow> prompt_ok (fst x) \<and>
    (\<forall>i d. map_of (cp_known (snd x)) i = Some d \<longrightarrow> known_agrees x i d) \<and>
    (\<forall>i k d. map_of (cp_known (snd x)) i = Some d \<longrightarrow> map_of (cp_known (snd x)) k = Some d \<longrightarrow> i = k)"

lemma next_rows_map:
  assumes "distinct (map cl_target_id cs)"
  shows "map_of (next_rows cs acc) d = (case find_first (\<lambda>c. cl_target_id c = Some d) cs of
     None \<Rightarrow> map_of acc d | Some c \<Rightarrow> Some (child_row d c))"
  using assms
proof (induction cs arbitrary: acc)
  case (Cons c cs)
  show ?case
  proof (cases "cl_target_id c")
    case (Some d')
    have "find_first (\<lambda>c. cl_target_id c = Some d') cs = None"
      using Cons.prems Some by (auto simp: find_first_None image_iff)
    then show ?thesis using Cons Some by (auto simp: update_conv' split: option.split)
  qed (use Cons in simp)
qed simp

lemma next_known_map:
  assumes "distinct (map cl_id cs)"
  shows "map_of (next_known cs acc) i = (case find_first (\<lambda>c. cl_id c = i \<and> cl_target_id c \<noteq> None) cs of
     None \<Rightarrow> map_of acc i | Some c \<Rightarrow> cl_target_id c)"
  using assms
proof (induction cs arbitrary: acc)
  case (Cons c cs)
  show ?case
  proof (cases "cl_target_id c")
    case (Some d')
    have "find_first (\<lambda>x. cl_id x = cl_id c \<and> cl_target_id x \<noteq> None) cs = None"
      using Cons.prems by (auto simp: find_first_None image_iff)
    then show ?thesis using Cons Some by (auto simp: update_conv' split: option.split)
  qed (use Cons in simp)
qed simp

text \<open>A reported child keeps its frame, and no loop takes it up again.\<close>

lemma child_kept:
  assumes "queue_ok s" "reported s i" "e \<noteq> Clear_jobs"
  shows "frames (sv_step e s) i = frames s i \<and> reported (sv_step e s) i"
proof -
  have le: "i \<le> cs_last s" using assms(2) by (simp add: reported_def)
  have same: ?thesis
    if "frames (sv_step e s) = frames s" "cs_last (sv_step e s) = cs_last s"
      "\<And>p l. cs_loops (sv_step e s) p = Some l \<Longrightarrow> \<exists>m. cs_loops s p = Some m \<and> loop_ids l \<subseteq> loop_ids m"
    using that reported_cong [OF assms(2)] by simp
  have skel: ?thesis if "skeleton (sv_step e s) = skeleton s"
    by (rule same) (use that in \<open>auto simp: skeleton_def\<close>)
  show ?thesis
  proof (cases e)
    case (Ask a)
    have "frames (execute a s) i = frames s i \<and> cs_last s \<le> cs_last (execute a s) \<and>
      (\<forall>p l. cs_loops (execute a s) p = Some l \<longrightarrow> i \<notin> loop_ids l)"
    proof (cases rule: execute_cases [of a s])
      case batch
      let ?rows = "batch_rows a (connected_ids s) (ask_ids a s) (cs_last s + 1)"
      have new: "i \<notin> fst ` set ?rows" using batch_rows_mem [of i _ a "connected_ids s" "ask_ids a s" "cs_last s + 1"] le by force
      then have "map_of ?rows i = None" by (simp add: map_of_eq_None_iff)
      then have "frames (execute a s) i = frames s i" unfolding batch(4) using le by (simp add: frames_def batch_jobs)
      moreover have "cs_loops (execute a s) = (cs_loops s)(cs_last s + 1 \<mapsto> \<lparr>sl_todo = ?rows, sl_done = []\<rparr>)"
        "cs_last s \<le> cs_last (execute a s)" unfolding batch(4) by (simp_all add: batch_state_def Let_def)
      ultimately show ?thesis using new assms(2) by (auto simp: reported_def loop_ids_def loop_rows_def)
    qed (use assms(2) le in \<open>auto simp: reported_def frames_def\<close>)
    then show ?thesis using Ask assms(2) by (auto simp: reported_def)
  next
    case (Send_next p)
    show ?thesis
    proof (rule same)
      have f: "frames (send_next p s) = frames s \<and> cs_last (send_next p s) = cs_last s \<and>
        (\<forall>q l. cs_loops (send_next p s) q = Some l \<longrightarrow> (\<exists>m. cs_loops s q = Some m \<and> loop_ids l \<subseteq> loop_ids m))"
      proof (cases "cs_loops s p")
        case (Some l)
        show ?thesis
        proof (cases "sl_todo l")
          case (Cons kj rest)
          obtain k c where kj: "kj = (k, c)" by fastforce
          obtain c' t where send: "send_child k c s = (c', t)" by fastforce
          note eff = send_child_effect [OF send]
          show ?thesis using eff Some Cons kj
            by (auto simp: send_next_def send loop_ids_def loop_rows_def split: if_splits intro!: frames_cong)
        qed (simp add: send_next_def Some)
      qed (simp add: send_next_def)
      then show "frames (sv_step e s) = frames s" "cs_last (sv_step e s) = cs_last s" using Send_next by simp_all
      show "\<exists>m. cs_loops s q = Some m \<and> loop_ids l \<subseteq> loop_ids m" if "cs_loops (sv_step e s) q = Some l" for q l
        using f that Send_next by simp
    qed
  next
    case (Loop_end p)
    have "frames (loop_end p s) = frames s" "cs_last (loop_end p s) = cs_last s"
      by (auto simp: loop_end_def Let_def split: option.split)
    then show ?thesis
      by (intro same) (use Loop_end in \<open>auto simp: loop_end_def Let_def split: option.splits if_splits\<close>)
  next
    case (Single_send k)
    show ?thesis
      by (rule same) (use Single_send in \<open>auto simp: single_send_def try_send_fields split: option.splits single.splits\<close>)
  next
    case (Single_write k)
    show ?thesis
      by (rule same) (use Single_write in \<open>auto simp: single_write_def split: option.splits single.splits\<close>)
  next
    case Clear_jobs
    then show ?thesis using assms(3) by simp
  qed (rule skel, simp)+
qed

section \<open>The answer\<close>

lemma exec_answer_children: "cl_children (exec_answer now p rows) = Some (map (log_of now None) rows)"
  by (cases p) (simp add: exec_answer_def log_of_def)

lemma log_of_fields [simp]:
  "cl_id (log_of now cs ij) = fst ij" "cl_target_id (log_of now cs ij) = jb_target (snd ij)"
  "cl_status (log_of now cs ij) = jb_status (snd ij)"
  by (simp_all add: log_of_def split: prod.split)

lemma created_known:
  assumes "distinct (map fst rows)"
  shows "map_of (cp_known (run_created n (exec_answer now p rows) pg)) i = Some d \<Longrightarrow>
    \<exists>c. (i, c) \<in> set rows \<and> jb_target c = Some d"
proof -
  let ?P = "\<lambda>c. cl_id c = i \<and> cl_target_id c \<noteq> None" and ?cs = "map (log_of now None) rows"
  assume "map_of (cp_known (run_created n (exec_answer now p rows) pg)) i = Some d"
  then have "(case find_first ?P ?cs of None \<Rightarrow> map_of [] i | Some c \<Rightarrow> cl_target_id c) = Some d"
    using assms next_known_map [of ?cs "[]" i] by (simp add: created_rows exec_answer_children comp_def)
  then obtain x where x: "find_first ?P ?cs = Some x" "cl_target_id x = Some d"
    by (cases "find_first ?P ?cs") simp_all
  from find_first_Some [OF x(1)] obtain y where y: "y \<in> set rows" "x = log_of now None y" "fst y = i" by auto
  show "\<exists>c. (i, c) \<in> set rows \<and> jb_target c = Some d"
    by (rule exI [of _ "snd y"]) (use x(2) y in auto)
qed

lemma created_row:
  assumes "distinct (map (\<lambda>x. jb_target (snd x)) rows)" "(i, c) \<in> set rows" "jb_target c = Some d"
  shows "map_of (cp_rows (run_created n (exec_answer now p rows) pg)) d = Some (child_row d (log_of now None (i, c)))"
proof -
  let ?cs = "map (log_of now None) rows"
  have "find_first (\<lambda>x. cl_target_id x = Some d) ?cs \<noteq> None"
    using assms(2,3) unfolding find_first_None by force
  then obtain x where x: "find_first (\<lambda>x. cl_target_id x = Some d) ?cs = Some x" by blast
  then obtain y where y: "y \<in> set rows" "x = log_of now None y" "jb_target (snd y) = Some d"
    by (auto dest!: find_first_Some)
  have "y = (i, c)"
    using assms y(1,3) by (metis (mono_tags, lifting) distinct_map inj_onD snd_conv)
  then show ?thesis using x y(2) next_rows_map [of ?cs "[]" d] assms(1)
    by (simp add: created_rows exec_answer_children comp_def)
qed

lemma joint_init_ok:
  assumes "joint_init x"
  shows "joint_ok x"
proof -
  obtain s0 p l r n now pg where i: "prompt_reach s0" "cs_loops s0 p = Some l" "sl_todo l = []" "cs_jobs s0 p = Some r"
    "x = (loop_end p s0, run_created n (exec_answer now (p, r) (sl_done l)) pg)"
    using assms unfolding joint_init_def by blast
  have rows: "loop_rows l = sl_done l" using i(3) by (simp add: loop_rows_def)
  have ok: "prompt_ok s0" using settle.inv_reach i(1) by (simp add: prompt_reach_def)
  have tg: "targets_ok s0" using targets.inv_reach prompt_reach_sv [OF i(1)] by (simp add: sv_reach_def)
  note sync = loop_syncD [OF core_butD(1) [OF prompt_okD(3) [OF ok] i(2)]]
  note tgt = targets_okD [OF tg i(2)]
  note known = created_known [OF sync(2) [unfolded rows]]
  note shown = created_row [OF tgt(1) [unfolded rows]]
  let ?s = "loop_end p s0" and ?pg = "run_created n (exec_answer now (p, r) (sl_done l)) pg"
  have loops: "cs_loops ?s = (cs_loops s0)(p := None)" "frames ?s = frames s0" "cs_last ?s = cs_last s0"
    by (auto simp: loop_end_def i(2) Let_def)
  have prompt: "prompt_ok ?s" by (rule prompt_loop_end [OF ok]) (use i(2,3) in auto)
  have agree: "known_agrees x k d" if k: "map_of (cp_known (snd x)) k = Some d" for k d
  proof -
    obtain c where c: "(k, c) \<in> set (sl_done l)" "jb_target c = Some d" using known k i(5) by fastforce
    then have mem: "(k, c) \<in> set (loop_rows l)" using rows by simp
    obtain j where j: "cs_jobs s0 k = Some j" "jb_parent j = Some p" "jb_status j = jb_status c"
      using sync(5) [OF i(4) mem] by blast
    have "p < k" using job_bounds(3) [OF prompt_okD(2) [OF ok] j(1,2)] by simp
    then have "cs_jobs ?s k = Some j" using j(1) by (auto simp: loop_end_def i(2) Let_def settle_other)
    moreover have "reported ?s k"
      unfolding reported_def loops
    proof (intro conjI allI impI)
      show "k \<le> cs_last s0" using job_bounds(2) [OF prompt_okD(2) [OF ok] j(1)] .
      show "fst (snd f) = k_single" if "frames s0 k = Some f" for f
        using that j(1) core_butD(3) [OF prompt_okD(3) [OF ok] j(1,2)] by (auto simp: frames_def frame_def)
      show "k \<notin> loop_ids m" if "((cs_loops s0)(p := None)) q = Some m" for q m
        using that waiting_in_one_loop [OF ok i(2) mem _ _, of q m] j(1) by (auto split: if_splits)
    qed
    moreover have "jb_target j = Some d" using tgt(3) [OF mem j(1)] c(2) by simp
    moreover have "row_agrees (jb_status j) (jb_status c)"
      using tgt(4) [OF mem] j(3) by (auto simp: row_agrees_def)
    ultimately show ?thesis
      using j shown [OF c, of n now "(p, r)" pg] i(5) by (simp add: known_agrees_def child_row_def)
  qed
  have uniq: "k = k'" if ks: "map_of (cp_known (snd x)) k = Some d" "map_of (cp_known (snd x)) k' = Some d" for k k' d
  proof -
    obtain c where "(k, c) \<in> set (sl_done l)" "jb_target c = Some d"
      using known [of n now "(p, r)" pg k d] ks(1) i(5) by auto
    moreover obtain c' where "(k', c') \<in> set (sl_done l)" "jb_target c' = Some d"
      using known [of n now "(p, r)" pg k' d] ks(2) i(5) by auto
    ultimately show ?thesis using tgt(1) unfolding rows by (metis (mono_tags, lifting) distinct_map inj_onD fst_conv snd_conv)
  qed
  show ?thesis unfolding joint_ok_def using prompt agree uniq i(5) by (simp only: fst_conv) blast
qed

section \<open>One event\<close>

lemma announced_known [simp]: "cp_known (snd (joint_step e x)) = cp_known (snd x)"
  by (cases e; cases x) (simp_all add: joint_step_def event_known)

text \<open>A report from another device, or on another command, does not reach the row.\<close>

lemma report_addressed:
  assumes "queue_ok s" "(d', k) \<in> set (cs_sent s)" "cs_jobs s k = Some j"
  shows "jb_target j = Some d'"
  using queue_okD(3) [OF assms(1,2)] assms(3) by (auto simp: addressed_def frames_def frame_def)

lemma settled_shown: "settled st \<Longrightarrow> str_or (Some st) t = st"
  by (auto simp: settled_def str_or_def st_defs js_def)

lemma row_agrees_output: "row_agrees st shown \<Longrightarrow> row_agrees st (if shown = js ''dispatched'' then js ''running'' else shown)"
  by (auto simp: row_agrees_def st_dispatched_def settled_def st_defs js_eq split: if_splits)

lemma announced_report:
  assumes "announced e = [a]"
  obtains d i line due where "e = Output d i line due" "ad_command a = i" "ad_device a = d" "\<not> is_result a"
      "ad_event a = js ''command_output''"
    | d i st err dur where "e = Result d i st err dur" "ad_command a = i" "ad_device a = d" "is_result a"
      "ad_event a = js ''command_result''" "ad_status a = Some st"
  using assms by (cases e) (auto simp: is_result_def js_eq)

lemma announced_cases: "announced e = [] \<or> (\<exists>a. announced e = [a])"
  by (cases e) simp_all

lemma known_agrees_step:
  assumes "joint_ok (s, pg)" "joint_enabled (s, pg) e" "map_of (cp_known pg) i = Some d"
  shows "known_agrees (joint_step e (s, pg)) i d"
proof -
  have pr: "prompt_ok s" and en: "sv_enabled s e" "no_loss (s, pg) e"
    using assms(1,2) by (simp_all add: joint_ok_def joint_enabled_def prompt_enabled_def)
  have agree: "known_agrees (s, pg) k c" if "map_of (cp_known pg) k = Some c" for k c
    using assms(1) that unfolding joint_ok_def snd_conv by blast
  have uniq: "k = k'" if "map_of (cp_known pg) k = Some c" "map_of (cp_known pg) k' = Some c" for k k' c
    using assms(1) that unfolding joint_ok_def snd_conv by blast
  have clear: "e \<noteq> Clear_jobs" using en(2) by auto
  note q = prompt_okD(2) [OF pr]
  obtain j p r where j: "cs_jobs s i = Some j" "jb_parent j = Some p" "jb_target j = Some d" "reported s i"
    and r: "map_of (cp_rows pg) d = Some r" "rw_command r = i" "row_agrees (jb_status j) (rw_status r)"
    using agree [OF assms(3)] by (auto simp: known_agrees_def)
  obtain j' where j': "cs_jobs (sv_step e s) i = Some j'" "jb_status j' = next_status e s i (jb_status j)"
    using child_status [OF pr j(1,2,4) clear] by auto
  note kept = child_kept [OF q j(4) clear]
  have fr: "jb_parent j' = Some p" "jb_target j' = Some d"
    using kept [THEN conjunct1] j j'(1) by (simp_all add: frames_def frame_def)
  have other: "\<not> for_row (cp_known pg) d a" if "announced e = [a]" "ad_command a \<noteq> i" for a
  proof
    assume f: "for_row (cp_known pg) d a"
    then obtain c where c: "map_of (cp_known pg) (ad_command a) = Some c" by (auto simp: for_row_def)
    obtain jk where jk: "cs_jobs s (ad_command a) = Some jk" "jb_target jk = Some c"
      using agree [OF c] by (auto simp: known_agrees_def)
    have "(ad_device a, ad_command a) \<in> set (cs_sent s)" by (rule announced_report [OF that(1)]) (use en(1) in auto)
    then have "c = d" using report_addressed [OF q _ jk(1)] jk(2) f by (auto simp: for_row_def)
    then show False using uniq [OF c] assms(3) that(2) by simp
  qed
  have mine: "for_row (cp_known pg) d a" if "announced e = [a]" "ad_command a = i" for a
  proof -
    have "(ad_device a, i) \<in> set (cs_sent s)" by (rule announced_report [OF that(1)]) (use en(1) that(2) in auto)
    then have "ad_device a = d" using report_addressed [OF q _ j(1)] j(3) by simp
    moreover have "i \<noteq> 0" using job_bounds(1) [OF q j(1)] by simp
    ultimately show ?thesis by (rule_tac announced_report [OF that(1)]) (use that(2) assms(3) in \<open>auto simp: for_row_def\<close>)
  qed
  have "\<exists>r'. map_of (cp_rows (fold on_command_event (announced e) pg)) d = Some r' \<and> rw_command r' = i \<and>
    row_agrees (jb_status j') (rw_status r')"
  proof (cases "\<exists>a. announced e = [a] \<and> ad_command a = i")
    case True
    then obtain a where a: "announced e = [a]" "ad_command a = i" by blast
    obtain y where y: "row_step a (Some r) = Some y" "rw_command y = rw_command r"
      "rw_status y = (if is_result a then str_or (ad_status a) (js ''completed'')
         else if rw_status r = js ''dispatched'' then js ''running'' else rw_status r)"
      using row_step_fields [of a r] by blast
    have "row_agrees (jb_status j') (rw_status y)"
      using a(1)
    proof (cases rule: announced_report)
      case (1 d' k line due)
      then show ?thesis using y(3) j'(2) row_agrees_output [OF r(3)] by (simp add: next_status_def)
    next
      case (2 d' k st err dur)
      then show ?thesis using y(3) j'(2) a(2) en(1) by (simp add: next_status_def settled_shown row_agrees_def)
    qed
    then show ?thesis using y r mine [OF a] a(1) by (simp add: event_row)
  next
    case False
    then have same: "map_of (cp_rows (fold on_command_event (announced e) pg)) d = Some r"
      using announced_cases [of e] other r(1) by (auto simp: event_row)
    have "next_status e s i (jb_status j) = jb_status j"
    proof (cases e)
      case (Link_down d')
      then show ?thesis using en(2) assms(3) by (auto simp: next_status_def)
    qed (use False in \<open>auto simp: next_status_def\<close>)
    then show ?thesis using same r j'(2) by simp
  qed
  then show ?thesis using j' fr kept by (auto simp: known_agrees_def joint_step_def)
qed

lemma joint_ok_step:
  assumes "joint_ok x" "joint_enabled x e"
  shows "joint_ok (joint_step e x)"
proof (cases x)
  case (Pair s pg)
  have "prompt_ok (fst (joint_step e x))"
    using prompt_ok_step [of s e] assms Pair by (simp add: joint_ok_def joint_enabled_def joint_step_def)
  moreover have "map_of (cp_known (snd (joint_step e x))) i = Some d \<longrightarrow> known_agrees (joint_step e x) i d" for i d
    using known_agrees_step [of s pg e i d] assms Pair by simp
  ultimately show ?thesis using assms(1) unfolding joint_ok_def announced_known by blast
qed

interpretation console: invariant_machine joint_init joint_enabled joint_step joint_ok
  by unfold_locales (simp_all add: joint_init_ok joint_ok_step)

text \<open>C8: The console handles the answer to its command when the loop that sent the batch has just ended, and no
  machine has sent output or a result for the batch before. From then on every event the server announces reaches
  the page at once, in order and without loss, no other command is run on the page, nobody clears the history, no
  machine goes away inside a command of the batch, and no machine reports on another batch whose loop is still
  running. Under these conditions the console and the history agree on every child: its row in the table carries
  the number of the child, it counts as done exactly when the child's row in the history is settled, and then both
  have the same status.\<close>

theorem console_agrees:
  assumes "reach joint_init joint_enabled joint_step (s, pg)" "map_of (cp_known pg) i = Some d"
  shows "\<exists>j r. cs_jobs s i = Some j \<and> jb_target j = Some d \<and> map_of (cp_rows pg) d = Some r \<and> rw_command r = i \<and>
    (row_done r \<longleftrightarrow> settled (jb_status j)) \<and> (row_done r \<longrightarrow> rw_status r = jb_status j)"
proof -
  have "joint_ok (s, pg)" using console.inv_reach assms(1) .
  then have "known_agrees (s, pg) i d" using assms(2) unfolding joint_ok_def by simp
  then obtain j r where j: "cs_jobs s i = Some j" "jb_target j = Some d" "map_of (cp_rows pg) d = Some r" "rw_command r = i"
    "row_agrees (jb_status j) (rw_status r)" by (auto simp: known_agrees_def)
  have "(row_done r \<longleftrightarrow> settled (jb_status j)) \<and> (row_done r \<longrightarrow> rw_status r = jb_status j)"
    using j(5) by (auto simp: row_agrees_def row_done_def settled_def st_defs js_eq split: if_splits)
  with j show ?thesis by blast
qed

text \<open>C34: When a machine goes away inside a command, the server fails the child in the history and tells
  the console nothing: the row of the table stays running for good, whatever the other machines report.\<close>

theorem disconnect_unseen:
  assumes "prompt_reach s" "cs_jobs s i = Some j" "jb_parent j = Some p" "jb_status j = st_dispatched"
    "i \<in> set (cs_flight s d)" "map_of (cp_rows pg) d = Some r" "\<not> row_done r"
  shows "map_option jb_status (cs_jobs (fst (joint_step (Link_down d) (s, pg))) i) = Some st_failed \<and>
    snd (joint_step (Link_down d) (s, pg)) = pg \<and>
    (\<forall>es. (\<forall>e\<in>set es. ad_device e \<noteq> d) \<longrightarrow> map_of (cp_rows (fold on_command_event es pg)) d = Some r)"
proof (intro conjI allI impI)
  show "map_option jb_status (cs_jobs (fst (joint_step (Link_down d) (s, pg))) i) = Some st_failed"
  proof -
    have "prompt_ok s" using settle.inv_reach assms(1) by (simp add: prompt_reach_def)
    then show ?thesis using child_status [OF _ assms(2,3), of "Link_down d"] prompt_okD(4) assms(4,5)
      by (simp add: joint_step_def next_status_def)
  qed
  show "snd (joint_step (Link_down d) (s, pg)) = pg" by (simp add: joint_step_def)
  fix es :: "admin_event list" assume "\<forall>e\<in>set es. ad_device e \<noteq> d"
  then have "filter (for_row (cp_known pg) d) es = []" by (auto simp: filter_empty_conv for_row_def)
  then show "map_of (cp_rows (fold on_command_event es pg)) d = Some r" using assms(6) by (simp add: events_row)
qed

text \<open>Two machines; the console has the answer, and the first machine reports.\<close>

definition demo_turns :: "sv_ev list" where
  "demo_turns = [Link_up 3, Link_up 4, Ask demo_ask, Send_next 1, Send_next 1]"

definition demo_loop :: send_loop where
  "demo_loop = \<lparr>sl_todo = [], sl_done = [(2, demo_job 3), (3, demo_job 4)]\<rparr>"

lemma demo_turns_state:
  "cs_loops (run sv_step demo_turns sv_init) 1 = Some demo_loop" "cs_jobs (run sv_step demo_turns sv_init) 1 = Some (ask_job demo_ask)"
  by (simp_all add: demo_turns_def demo_simps demo_loop_def demo_job_def)

definition demo_joint :: joint where
  "demo_joint = (run sv_step demo_sent sv_init, run_created 2 (exec_answer [] (1, ask_job demo_ask) (sl_done demo_loop)) cmd_init)"

lemma demo_joint_init: "joint_init demo_joint"
  unfolding joint_init_def
proof (intro exI conjI)
  show "prompt_reach (run sv_step demo_turns sv_init)"
    unfolding prompt_reach_def by (rule reach_runI) (simp_all add: demo_turns_def prompt_enabled_def demo_simps)
  show "demo_joint = (loop_end 1 (run sv_step demo_turns sv_init),
      run_created 2 (exec_answer [] (1, ask_job demo_ask) (sl_done demo_loop)) cmd_init)"
    by (simp add: demo_joint_def demo_sent_def demo_turns_def)
qed (simp_all add: demo_turns_state demo_loop_def)

lemma demo_joint_known: "map_of (cp_known (snd demo_joint)) 2 = Some 3"
  by (simp add: demo_joint_def created_rows exec_answer_children demo_loop_def demo_job_def)

theorem console_agrees_witness:
  "\<exists>j r. cs_jobs (fst (joint_step (Result 3 2 st_complete [] 5) demo_joint)) 2 = Some j \<and>
    map_of (cp_rows (snd (joint_step (Result 3 2 st_complete [] 5) demo_joint))) 3 = Some r \<and>
    (row_done r \<longleftrightarrow> settled (jb_status j))"
proof -
  let ?x = "joint_step (Result 3 2 st_complete [] 5) demo_joint"
  have "reach joint_init joint_enabled joint_step ?x"
    by (intro reach_step reach_init demo_joint_init)
      (simp add: demo_joint_def joint_enabled_def prompt_enabled_def demo_sent_state)
  moreover have "map_of (cp_known (snd ?x)) 2 = Some 3" using demo_joint_known by simp
  ultimately show ?thesis using console_agrees [of "fst ?x" "snd ?x" 2 3] by (simp only: prod.collapse) blast
qed

theorem disconnect_unseen_witness:
  "let x = joint_step (Output 3 2 (js ''a'') False) demo_joint in
     map_option jb_status (cs_jobs (fst (joint_step (Link_down 3) x)) 2) = Some st_failed \<and> snd (joint_step (Link_down 3) x) = snd x"
proof -
  let ?x = "joint_step (Output 3 2 (js ''a'') False) demo_joint"
  let ?s = "run sv_step (demo_sent @ [Output 3 2 (js ''a'') False]) sv_init"
  have fst: "fst ?x = ?s" by (simp add: joint_step_def demo_joint_def run_append)
  have reach: "prompt_reach ?s"
    unfolding prompt_reach_def
    by (rule reach_runI) (simp_all add: run_ok_append demo_sent_prompt demo_sent_state prompt_enabled_def)
  have row: "\<exists>r. map_of (cp_rows (snd ?x)) 3 = Some r \<and> \<not> row_done r"
    by (simp add: joint_step_def demo_joint_def event_row created_rows exec_answer_children demo_loop_def demo_job_def for_row_def
        row_step_def output_row_def current_row_def child_row_def row_done_def st_dispatched_def js_eq)
  then obtain r where r: "map_of (cp_rows (snd ?x)) 3 = Some r" "\<not> row_done r" by blast
  have "cs_jobs ?s 2 = Some (demo_job 3)" "2 \<in> set (cs_flight ?s 3)"
    by (simp_all add: run_append demo_sent_state) (simp_all add: cmd_output_def Let_def)
  note child = this
  have x: "(?s, snd ?x) = ?x" unfolding fst [symmetric] by (rule prod.collapse)
  have "jb_parent (demo_job 3) = Some 1" "jb_status (demo_job 3) = st_dispatched" by (simp_all add: demo_job_def)
  from disconnect_unseen [OF reach child(1) this child(2) r] show ?thesis
    unfolding x Let_def by (elim conjE) (intro conjI)
qed

end
