(* ===== verification/Hub_Presence.thy ===== *)
theory Hub_Presence
  imports JS_String
begin

text \<open>
  The presence of the machines, as the room server keeps it: the hub's table of live connections
  (\<open>internal/biz/hub.go\<close>), the registration and the read loop of one connection
  (\<open>Handle\<close> of \<open>internal/service/tcp_handler.go\<close>) and the rows of the table
  \<open>devices\<close> they write (\<open>internal/data/device_repo.go\<close>), with the console's check-in
  operations on the same rows. A step is one turn of the hub's loop or one turn of a connection's
  loop: the server runs them concurrently, a row update is one statement of the database.

  The history of events is a table that outlives the server; the janitor trims it.

  What it shows: under orderly scheduling the flag \<open>connected\<close> that the console lists is
  exactly the hub's table, and what was recorded since the start of the server replays to it; and the three ways the
  code leaves that path (a late update of a replaced connection, a check-in overwritten by a reconnect,
  a record deleted during a registration).
\<close>

section \<open>Rows\<close>

text \<open>The check-in columns of a row.\<close>

record seat =
  se_status :: int
  se_name :: jstr
  se_num :: jstr
  se_in :: jstr
  se_out :: jstr

definition no_seat :: seat where
  "no_seat = \<lparr>se_status = 0, se_name = [], se_num = [], se_in = [], se_out = []\<rparr>"

datatype seat_op = Do_checkin jstr jstr | Do_checkout | Do_restore | Do_reset

text \<open>\<open>Checkin\<close>, \<open>Checkout\<close>, \<open>RestoreCheckout\<close>, \<open>ResetCheckin\<close>, at the time \<open>now\<close>.\<close>

fun seat_apply :: "jstr \<Rightarrow> seat_op \<Rightarrow> seat \<Rightarrow> seat" where
  "seat_apply now (Do_checkin name num) r = r\<lparr>se_status := 1, se_name := name, se_num := num, se_in := now\<rparr>"
| "seat_apply now Do_checkout r = r\<lparr>se_status := 2, se_out := now\<rparr>"
| "seat_apply now Do_restore r = r\<lparr>se_status := 1, se_out := []\<rparr>"
| "seat_apply now Do_reset r = no_seat"

record dev_row =
  dr_connected :: bool
  dr_seat :: seat

text \<open>
  \<open>Create\<close> names thirty-five columns and thirty-four values; SQLite refuses a row whose values do
  not match its columns, and \<open>Handle\<close> drops the error.
\<close>

definition create_columns :: "string list" where
  "create_columns = [''assigned_id'', ''mac_address'', ''hostname'', ''username'', ''os_name'',
    ''os_version'', ''os_pretty_name'', ''kernel_release'', ''kernel_arch'', ''cpu_model'',
    ''cpu_physical_cores'', ''cpu_logical_cores'', ''cpu_packages'', ''gpu_info'', ''memory_total'',
    ''memory_used'', ''disk_info'', ''local_ip'', ''de_name'', ''wm_name'', ''shell'', ''terminal'',
    ''display_info'', ''uptime'', ''packages'', ''fastfetch_raw'', ''connected'', ''last_seen'',
    ''first_seen'', ''updated_at'', ''checkin_status'', ''student_name'', ''student_num'',
    ''checkin_time'', ''checkout_time'']"

definition create_values :: string where
  "create_values = ''??????????????????????????????????''"

definition create_row :: "int \<Rightarrow> dev_row \<Rightarrow> (int \<rightharpoonup> dev_row) \<Rightarrow> (int \<rightharpoonup> dev_row)" where
  "create_row d r rows =
    (if length create_values = length create_columns \<and> rows d = None then rows(d \<mapsto> r) else rows)"

definition set_connected :: "int \<Rightarrow> bool \<Rightarrow> (int \<rightharpoonup> dev_row) \<Rightarrow> (int \<rightharpoonup> dev_row)" where
  "set_connected d b rows = rows(d := map_option (\<lambda>r. r\<lparr>dr_connected := b\<rparr>) (rows d))"

text \<open>\<open>Update\<close> writes the flag and all check-in columns of the row, when there is one.\<close>

definition update_row :: "int \<Rightarrow> dev_row \<Rightarrow> (int \<rightharpoonup> dev_row) \<Rightarrow> (int \<rightharpoonup> dev_row)" where
  "update_row d r rows = (if rows d = None then rows else rows(d \<mapsto> r))"

section \<open>The hub\<close>

datatype conn_phase = P_assigned | P_info | P_live | P_leaving | P_gone

text \<open>One run of \<open>Handle\<close>: the number it was given, the check-in columns of
  \<open>existingDevice\<close> as \<open>AssignIdentity\<close> read them, and how far it is.\<close>

record conn =
  cn_device :: int
  cn_seen :: "seat option"
  cn_phase :: conn_phase
  cn_closed :: bool

record hub =
  hb_clients :: "int \<rightharpoonup> nat"
  hb_conns :: "nat \<rightharpoonup> conn"
  hb_rows :: "int \<rightharpoonup> dev_row"
  hb_log :: "(int \<times> bool) list" \<comment> \<open>\<open>device_events\<close>, the oldest first\<close>
  hb_boot :: int \<comment> \<open>how many of them are from before the start, less what was trimmed; no code reads it\<close>

definition set_phase :: "nat \<Rightarrow> conn_phase \<Rightarrow> hub \<Rightarrow> hub" where
  "set_phase c p h = h\<lparr>hb_conns := (hb_conns h)(c := map_option (\<lambda>k. k\<lparr>cn_phase := p\<rparr>) (hb_conns h c))\<rparr>"

definition close_conn :: "nat option \<Rightarrow> hub \<Rightarrow> hub" where
  "close_conn co h = (case co of None \<Rightarrow> h | Some c \<Rightarrow>
    h\<lparr>hb_conns := (hb_conns h)(c := map_option (\<lambda>k. k\<lparr>cn_closed := True\<rparr>) (hb_conns h c))\<rparr>)"

text \<open>\<open>AssignIdentity\<close> answered \<open>d\<close>: the row of a known machine is read, a new number gets a
  placeholder row.\<close>

definition accept_conn :: "nat \<Rightarrow> int \<Rightarrow> hub \<Rightarrow> hub" where
  "accept_conn c d h = h\<lparr>
    hb_rows := (if hb_rows h d = None
      then (hb_rows h)(d \<mapsto> \<lparr>dr_connected = False, dr_seat = no_seat\<rparr>) else hb_rows h),
    hb_conns := (hb_conns h)(c \<mapsto> \<lparr>cn_device = d, cn_seen = map_option dr_seat (hb_rows h d),
      cn_phase = P_assigned, cn_closed = False\<rparr>)\<rparr>"

text \<open>The two client branches of \<open>Run\<close>.\<close>

definition hub_register :: "nat \<Rightarrow> hub \<Rightarrow> hub" where
  "hub_register c h = (case hb_conns h c of None \<Rightarrow> h | Some k \<Rightarrow>
    let d = cn_device k;
        old = (if hb_clients h d = Some c then None else hb_clients h d);
        h = set_phase c P_info (close_conn old h)
    in h\<lparr>hb_clients := (hb_clients h)(d \<mapsto> c),
         hb_rows := set_connected d True (hb_rows h),
         hb_log := hb_log h @ [(d, True)]\<rparr>)"

definition hub_unregister :: "nat \<Rightarrow> hub \<Rightarrow> hub" where
  "hub_unregister c h = (case hb_conns h c of None \<Rightarrow> h | Some k \<Rightarrow>
    let d = cn_device k in
    if hb_clients h d = Some c
    then (set_phase c P_gone h)\<lparr>hb_clients := (hb_clients h)(d := None),
           hb_rows := set_connected d False (hb_rows h),
           hb_log := hb_log h @ [(d, False)]\<rparr>
    else set_phase c P_gone h)"

text \<open>The line \<open>system_info\<close>: the check-in columns are those of \<open>existingDevice\<close>, else those of a
  fresh read, else the row is to be created.\<close>

definition system_info :: "nat \<Rightarrow> hub \<Rightarrow> hub" where
  "system_info c h = (case hb_conns h c of None \<Rightarrow> h | Some k \<Rightarrow>
    let d = cn_device k in
    (set_phase c P_live h)\<lparr>hb_rows := (case cn_seen k of
        Some s \<Rightarrow> update_row d \<lparr>dr_connected = True, dr_seat = s\<rparr> (hb_rows h)
      | None \<Rightarrow> (case hb_rows h d of
          Some r \<Rightarrow> update_row d \<lparr>dr_connected = True, dr_seat = dr_seat r\<rparr> (hb_rows h)
        | None \<Rightarrow> create_row d \<lparr>dr_connected = True, dr_seat = no_seat\<rparr> (hb_rows h)))\<rparr>)"

definition ping_write :: "nat \<Rightarrow> hub \<Rightarrow> hub" where
  "ping_write c h = (case hb_conns h c of None \<Rightarrow> h | Some k \<Rightarrow>
    h\<lparr>hb_rows := set_connected (cn_device k) True (hb_rows h)\<rparr>)"

text \<open>The console's requests: a check-in operation, \<open>Delete\<close> (the row, then \<open>Kick\<close>), \<open>Reset\<close> (all
  rows, then \<open>KickAll\<close>).\<close>

definition seat_write :: "jstr \<Rightarrow> int \<Rightarrow> seat_op \<Rightarrow> hub \<Rightarrow> hub" where
  "seat_write now d op h = h\<lparr>hb_rows := (hb_rows h)(d :=
    map_option (\<lambda>r. r\<lparr>dr_seat := seat_apply now op (dr_seat r)\<rparr>) (hb_rows h d))\<rparr>"

definition delete_device :: "int \<Rightarrow> hub \<Rightarrow> hub" where
  "delete_device d h = close_conn (hb_clients h d) (h\<lparr>hb_rows := (hb_rows h)(d := None)\<rparr>)"

definition reset_devices :: "hub \<Rightarrow> hub" where
  "reset_devices h = h\<lparr>hb_rows := Map.empty,
    hb_conns := (\<lambda>c. map_option (\<lambda>k. if hb_clients h (cn_device k) = Some c
      then k\<lparr>cn_closed := True\<rparr> else k) (hb_conns h c))\<rparr>"

text \<open>The janitor: \<open>DeleteOlderThan\<close> removes the oldest events, \<open>DeleteGhostRows\<close> some rows that are not connected
  (placeholders, which are told by columns that are not modelled).\<close>

definition trim_events :: "nat \<Rightarrow> hub \<Rightarrow> hub" where
  "trim_events n h = h\<lparr>hb_log := drop n (hb_log h), hb_boot := hb_boot h - int n\<rparr>"

definition sweep_rows :: "(int \<Rightarrow> bool) \<Rightarrow> hub \<Rightarrow> hub" where
  "sweep_rows ghost h = h\<lparr>hb_rows := (\<lambda>d. case hb_rows h d of None \<Rightarrow> None
     | Some r \<Rightarrow> if ghost d \<and> \<not> dr_connected r then None else Some r)\<rparr>"

datatype hub_ev = Trim_events nat | Sweep_rows "int \<Rightarrow> bool" | Accept nat int | Hub_register nat | System_info nat | Ping nat | Read_failed nat
  | Hub_unregister nat | Seat_write jstr int seat_op | Delete_device int | Reset_devices

fun hub_step :: "hub_ev \<Rightarrow> hub \<Rightarrow> hub" where
  "hub_step (Trim_events n) h = trim_events n h"
| "hub_step (Sweep_rows ghost) h = sweep_rows ghost h"
| "hub_step (Accept c d) h = accept_conn c d h"
| "hub_step (Hub_register c) h = hub_register c h"
| "hub_step (System_info c) h = system_info c h"
| "hub_step (Ping c) h = ping_write c h"
| "hub_step (Read_failed c) h = set_phase c P_leaving h"
| "hub_step (Hub_unregister c) h = hub_unregister c h"
| "hub_step (Seat_write now d op) h = seat_write now d op h"
| "hub_step (Delete_device d) h = delete_device d h"
| "hub_step Reset_devices h = reset_devices h"

definition in_phase :: "hub \<Rightarrow> nat \<Rightarrow> conn_phase \<Rightarrow> bool" where
  "in_phase h c p = (map_option cn_phase (hb_conns h c) = Some p)"

text \<open>A line that was read before the connection was closed is still handled, so \<open>cn_closed\<close> does
  not stop a turn of the loop.\<close>

fun hub_enabled :: "hub \<Rightarrow> hub_ev \<Rightarrow> bool" where
  "hub_enabled h (Accept c d) = (hb_conns h c = None)"
| "hub_enabled h (Trim_events n) = (n \<le> length (hb_log h))"
| "hub_enabled h (Hub_register c) = in_phase h c P_assigned"
| "hub_enabled h (System_info c) = in_phase h c P_info"
| "hub_enabled h (Ping c) = in_phase h c P_live"
| "hub_enabled h (Read_failed c) = (in_phase h c P_info \<or> in_phase h c P_live)"
| "hub_enabled h (Hub_unregister c) = in_phase h c P_leaving"
| "hub_enabled h _ = True"

text \<open>The server starts with nobody connected, with whatever rows and events its database has, and with
  \<open>MarkAllOffline\<close>, which records no event, and \<open>DeleteGhostRows\<close> in \<^verbatim>\<open>cmd/server/main.go\<close>. So a start
  comes after any end of the server before it.\<close>

definition server_start :: "(int \<Rightarrow> bool) \<Rightarrow> hub \<Rightarrow> hub" where
  "server_start ghost h = sweep_rows ghost \<lparr>hb_clients = Map.empty, hb_conns = Map.empty,
     hb_rows = (\<lambda>d. map_option (\<lambda>r. r\<lparr>dr_connected := False\<rparr>) (hb_rows h d)), hb_log = hb_log h,
     hb_boot = int (length (hb_log h))\<rparr>"

definition hub_init :: "hub \<Rightarrow> bool" where
  "hub_init h \<longleftrightarrow> hb_clients h = Map.empty \<and> hb_conns h = Map.empty \<and> hb_boot h = int (length (hb_log h)) \<and>
    (\<forall>d r. hb_rows h d = Some r \<longrightarrow> \<not> dr_connected r)"

lemma server_start_init: "hub_init (server_start ghost h)"
  by (auto simp: hub_init_def server_start_def sweep_rows_def split: option.splits if_splits)

text \<open>
  Orderly scheduling: a connection writes its row only while it is the one the hub holds, and a
  number whose record was deleted is not handed out again while its old connection is still there.
\<close>

fun orderly :: "hub \<Rightarrow> hub_ev \<Rightarrow> bool" where
  "orderly h (System_info c) = (\<exists>k. hb_conns h c = Some k \<and> hb_clients h (cn_device k) = Some c)"
| "orderly h (Ping c) = (\<exists>k. hb_conns h c = Some k \<and> hb_clients h (cn_device k) = Some c)"
| "orderly h (Accept c d) = (hb_rows h d = None \<longrightarrow> hb_clients h d = None)"
| "orderly h _ = True"

definition orderly_enabled :: "hub \<Rightarrow> hub_ev \<Rightarrow> bool" where
  "orderly_enabled h e \<longleftrightarrow> hub_enabled h e \<and> orderly h e"

section \<open>What the history promises\<close>

text \<open>The abstract server: who is online, the history of coming and going, and how much of it is older than the
  start.\<close>

datatype roster_ev = Come int | Leave int | Forget nat

type_synonym roster = "int set \<times> int \<times> (int \<times> bool) list"

fun roster_step :: "roster_ev \<Rightarrow> roster \<Rightarrow> roster" where
  "roster_step (Come d) (on, b, l) = (insert d on, b, l @ [(d, True)])"
| "roster_step (Leave d) (on, b, l) = (on - {d}, b, l @ [(d, False)])"
| "roster_step (Forget n) (on, b, l) = (on, b - int n, drop n l)"

fun roster_enabled :: "roster \<Rightarrow> roster_ev \<Rightarrow> bool" where
  "roster_enabled (on, b, l) (Come d) = True"
| "roster_enabled (on, b, l) (Leave d) = (d \<in> on)"
| "roster_enabled (on, b, l) (Forget n) = (n \<le> length l)"

definition roster_init :: "roster \<Rightarrow> bool" where
  "roster_init r \<longleftrightarrow> (\<exists>l. r = ({}, int (length l), l))"

text \<open>The events recorded since the start that are still there.\<close>

definition news :: "int \<Rightarrow> 'a list \<Rightarrow> 'a list" where
  "news b l = drop (nat b) l"

lemma news_append: "nat b \<le> length l \<Longrightarrow> news b (l @ m) = news b l @ m"
  by (simp add: news_def)

lemma news_drop: "news (b - int n) (drop n l) = drop (n - nat b) (news b l)"
proof -
  have "nat (b - int n) + n = n - nat b + nat b" by linarith
  then show ?thesis by (simp add: news_def)
qed

text \<open>Reading a history from its start.\<close>

fun replay :: "(int \<times> bool) list \<Rightarrow> int set \<Rightarrow> int set" where
  "replay [] on = on"
| "replay ((d, b) # l) on = replay l (if b then insert d on else on - {d})"

lemma replay_append: "replay (l @ m) on = replay m (replay l on)"
  by (induction l on rule: replay.induct) auto

text \<open>Only the last event of a machine counts.\<close>

lemma replay_last: "d \<in> fst ` set l \<Longrightarrow> d \<in> replay l on \<longleftrightarrow> d \<in> replay l on'"
proof (induction l arbitrary: on on' rule: rev_induct)
  case (snoc x l)
  obtain d' b where x: "x = (d', b)" by force
  show ?case
  proof (cases "d = d'")
    case False
    then have "d \<in> fst ` set l" using snoc.prems x by auto
    then show ?thesis using snoc.IH [of on on'] x False by (simp add: replay_append)
  qed (simp add: x replay_append)
qed simp

lemma replay_drop: "d \<in> fst ` set (drop n l) \<Longrightarrow> d \<in> replay (drop n l) {} \<longleftrightarrow> d \<in> replay l {}"
  using replay_last [of d "drop n l" "{}" "replay (take n l) {}"] replay_append [of "take n l" "drop n l" "{}"] by simp

lemma set_drop_fst: "d \<in> fst ` set (drop n l) \<Longrightarrow> d \<in> fst ` set l"
  using set_drop_subset [of n l] by auto

definition roster_ok :: "roster \<Rightarrow> bool" where
  "roster_ok r \<longleftrightarrow> (case r of (on, b, l) \<Rightarrow> nat b \<le> length l
     \<and> (\<forall>d\<in>fst ` set (news b l). d \<in> replay (news b l) {} \<longleftrightarrow> d \<in> on)
     \<and> (0 \<le> b \<longrightarrow> replay (news b l) {} = on))"

lemma roster_ok_step:
  assumes "roster_ok r" "roster_enabled r e"
  shows "roster_ok (roster_step e r)"
proof -
  obtain on b l where r: "r = (on, b, l)" by (cases r)
  note ok = assms(1) [unfolded r roster_ok_def, simplified]
  show ?thesis
  proof (cases e)
    case (Forget n)
    have e: "news (b - int n) (drop n l) = drop (n - nat b) (news b l)" by (rule news_drop)
    have "nat (b - int n) \<le> length l - n" using ok assms(2) by (simp add: r Forget) linarith
    moreover have "d \<in> replay (drop (n - nat b) (news b l)) {} \<longleftrightarrow> d \<in> on"
      if "d \<in> fst ` set (drop (n - nat b) (news b l))" for d
      using replay_drop [OF that] set_drop_fst [OF that] ok by blast
    moreover have "replay (drop (n - nat b) (news b l)) {} = on" if "0 \<le> b - int n"
      using that ok by simp
    ultimately show ?thesis by (simp add: r Forget roster_ok_def e)
  qed (use ok in \<open>auto simp: r roster_ok_def news_append replay_append\<close>)
qed

lemma roster_machine: "invariant_machine roster_init roster_enabled roster_step roster_ok"
proof
  show "roster_ok r" if "roster_init r" for r
    using that by (auto simp: roster_init_def roster_ok_def news_def)
qed (rule roster_ok_step)

definition hub_roster :: "hub \<Rightarrow> roster" where
  "hub_roster h = (dom (hb_clients h), hb_boot h, hb_log h)"

fun hub_moves :: "hub \<Rightarrow> hub_ev \<Rightarrow> roster_ev list" where
  "hub_moves h (Hub_register c) = (case hb_conns h c of None \<Rightarrow> [] | Some k \<Rightarrow> [Come (cn_device k)])"
| "hub_moves h (Hub_unregister c) = (case hb_conns h c of None \<Rightarrow> [] | Some k \<Rightarrow>
    if hb_clients h (cn_device k) = Some c then [Leave (cn_device k)] else [])"
| "hub_moves h (Trim_events n) = [Forget n]"
| "hub_moves h _ = []"

lemmas hub_ops = set_phase_def close_conn_def accept_conn_def hub_register_def hub_unregister_def
  system_info_def ping_write_def seat_write_def delete_device_def reset_devices_def set_connected_def
  update_row_def trim_events_def sweep_rows_def Let_def

lemma create_refused [simp]: "create_row d r rows = rows"
  by (simp add: create_row_def create_values_def create_columns_def)

lemma hub_clients_step:
  "hb_clients (hub_step e h) = (case e of
      Hub_register c \<Rightarrow> (case hb_conns h c of None \<Rightarrow> hb_clients h
        | Some k \<Rightarrow> (hb_clients h)(cn_device k \<mapsto> c))
    | Hub_unregister c \<Rightarrow> (case hb_conns h c of None \<Rightarrow> hb_clients h
        | Some k \<Rightarrow> if hb_clients h (cn_device k) = Some c
            then (hb_clients h)(cn_device k := None) else hb_clients h)
    | _ \<Rightarrow> hb_clients h)"
  by (cases e) (auto simp: hub_ops split: option.split)

lemma hub_log_step:
  "hb_log (hub_step e h) = (case e of Trim_events n \<Rightarrow> drop n (hb_log h) | _ \<Rightarrow> hb_log h) @ (case e of
      Hub_register c \<Rightarrow> (case hb_conns h c of None \<Rightarrow> [] | Some k \<Rightarrow> [(cn_device k, True)])
    | Hub_unregister c \<Rightarrow> (case hb_conns h c of None \<Rightarrow> []
        | Some k \<Rightarrow> if hb_clients h (cn_device k) = Some c then [(cn_device k, False)] else [])
    | _ \<Rightarrow> [])"
  by (cases e) (auto simp: hub_ops split: option.split)

lemma hub_boot_step: "hb_boot (hub_step e h) = (case e of Trim_events n \<Rightarrow> hb_boot h - int n | _ \<Rightarrow> hb_boot h)"
  by (cases e) (auto simp: hub_ops split: option.split)

text \<open>The hub holds running connections, each under the number it was given.\<close>

definition hub_wf :: "hub \<Rightarrow> bool" where
  "hub_wf h \<longleftrightarrow> (\<forall>d c. hb_clients h d = Some c \<longrightarrow>
     (\<exists>k. hb_conns h c = Some k \<and> cn_device k = d \<and> cn_phase k \<in> {P_info, P_live, P_leaving}))"

lemma hub_wfD: "hub_wf h \<Longrightarrow> hb_clients h d = Some c \<Longrightarrow>
    \<exists>k. hb_conns h c = Some k \<and> cn_device k = d \<and> cn_phase k \<in> {P_info, P_live, P_leaving}"
  by (simp add: hub_wf_def)

text \<open>What a step does to a connection the hub still holds afterwards.\<close>

definition keeps_conns :: "hub \<Rightarrow> hub \<Rightarrow> bool" where
  "keeps_conns h h' \<longleftrightarrow> (\<forall>d c. hb_clients h' d = Some c \<longrightarrow> hb_clients h d = Some c) \<and>
    (\<forall>c k. hb_conns h c = Some k \<and> hb_clients h' (cn_device k) = Some c \<longrightarrow>
      (\<exists>k'. hb_conns h' c = Some k' \<and> cn_device k' = cn_device k \<and>
        (cn_phase k' = cn_phase k \<or> cn_phase k' \<in> {P_info, P_live, P_leaving})))"

lemma hub_wf_keep: "hub_wf h \<Longrightarrow> keeps_conns h h' \<Longrightarrow> hub_wf h'"
  unfolding hub_wf_def keeps_conns_def by (metis (full_types))

lemma hub_wf_register:
  assumes "hub_wf h" "hb_conns h c = Some k"
  shows "hub_wf (hub_register c h)"
  unfolding hub_wf_def
proof (intro allI impI)
  fix d c' assume held: "hb_clients (hub_register c h) d = Some c'"
  have eq: "hb_clients (hub_register c h) = (hb_clients h)(cn_device k \<mapsto> c)"
    using assms(2) hub_clients_step [of "Hub_register c" h] by simp
  show "\<exists>k. hb_conns (hub_register c h) c' = Some k \<and> cn_device k = d \<and>
      cn_phase k \<in> {P_info, P_live, P_leaving}"
  proof (cases "d = cn_device k")
    case True
    with held eq have "c' = c" by simp
    with True assms(2) show ?thesis by (auto simp: hub_ops split: option.split)
  next
    case False
    with held eq have "hb_clients h d = Some c'" by simp
    with hub_wfD [OF assms(1)] obtain k' where k': "hb_conns h c' = Some k'" "cn_device k' = d"
      "cn_phase k' \<in> {P_info, P_live, P_leaving}" by blast
    with False assms(2) have "c' \<noteq> c" by auto
    with k' assms(2) show ?thesis by (auto simp: hub_ops split: option.split)
  qed
qed

lemma hub_wf_step:
  assumes "hub_wf h" "hub_enabled h e"
  shows "hub_wf (hub_step e h)"
proof (cases e)
  case (Hub_register c)
  with assms show ?thesis by (auto simp: in_phase_def intro: hub_wf_register)
next
  case (Accept c d)
  with assms show ?thesis
    by (auto intro!: hub_wf_keep [OF assms(1)] simp: keeps_conns_def hub_ops)
next
  case (Hub_unregister c)
  with assms show ?thesis
    by (auto intro!: hub_wf_keep [OF assms(1)] dest!: hub_wfD
        simp: keeps_conns_def hub_ops in_phase_def split: option.split if_splits)
qed (auto intro!: hub_wf_keep [OF assms(1)] simp: keeps_conns_def hub_ops split: option.split)

lemma hub_machine: "invariant_machine hub_init hub_enabled hub_step hub_wf"
  by unfold_locales (auto simp: hub_init_def intro: hub_wf_step, simp add: hub_wf_def)

interpretation hub: refinement_inv hub_init hub_enabled hub_step hub_wf
    roster_init roster_enabled roster_step hub_roster hub_moves roster_ok
proof (intro refinement_inv.intro refinement.intro refinement_axioms.intro hub_machine roster_machine)
  show "roster_init (hub_roster h)" if "hub_init h" for h
    using that by (simp add: hub_init_def roster_init_def hub_roster_def)
  show "run_ok roster_enabled roster_step (hub_moves h e) (hub_roster h)" if "hub_enabled h e" for h e
    using that by (cases e) (auto simp: hub_roster_def split: option.split)
  show "hub_roster (hub_step e h) = run roster_step (hub_moves h e) (hub_roster h)" for h e
    unfolding hub_roster_def hub_clients_step hub_log_step hub_boot_step
    by (cases e) (auto split: option.split)
qed

section \<open>The flag of the list\<close>

definition flags_exact :: "hub \<Rightarrow> bool" where
  "flags_exact h \<longleftrightarrow> hub_wf h \<and>
    (\<forall>d r. hb_rows h d = Some r \<longrightarrow> dr_connected r = (hb_clients h d \<noteq> None))"

lemma flags_exact_step:
  assumes "flags_exact h" "orderly_enabled h e"
  shows "flags_exact (hub_step e h)"
proof -
  have wf: "hub_wf (hub_step e h)"
    using assms by (auto simp: flags_exact_def orderly_enabled_def intro: hub_wf_step)
  have "dr_connected r = (hb_clients (hub_step e h) d \<noteq> None)"
    if "hb_rows (hub_step e h) d = Some r" for d r
    using that assms unfolding hub_clients_step
    by (cases e) (auto simp: flags_exact_def orderly_enabled_def in_phase_def hub_ops
        split: option.split_asm option.split if_splits)
  with wf show ?thesis by (simp add: flags_exact_def)
qed

interpretation presence: invariant_machine hub_init orderly_enabled hub_step flags_exact
proof
  show "flags_exact h" if "hub_init h" for h
    using that hub.inv_init [OF that] by (auto simp: flags_exact_def hub_init_def)
qed (rule flags_exact_step)

definition orderly_reach :: "hub \<Rightarrow> bool" where
  "orderly_reach h \<longleftrightarrow> reach hub_init orderly_enabled hub_step h"


section \<open>Properties\<close>

text \<open>C7: However the registrations, replacements, disconnects, deletions and check-in operations
  are interleaved, as long as connections write their row only while the hub holds them, the flag
  connected of every record, which is what the console lists and counts, is set exactly when the
  hub holds a connection for that machine.\<close>

theorem presence_exact:
  assumes "orderly_reach h" "hb_rows h d = Some r"
  shows "dr_connected r = (hb_clients h d \<noteq> None)"
  using presence.inv_reach assms unfolding orderly_reach_def flags_exact_def by blast


text \<open>A connection that was replaced, and whose machine has since gone, can still have its line
  system_info in hand: handling it marks the record connected, its own end is ignored by the hub as
  stale, and the machine stays listed online with no connection.\<close>

theorem late_update_stays_online:
  assumes "hb_conns h c = Some k" "cn_phase k = P_info"
    and "hb_clients h (cn_device k) = None" "hb_rows h (cn_device k) = Some r"
  shows "run_ok hub_enabled hub_step [System_info c, Read_failed c, Hub_unregister c] h \<and>
    (let h' = run hub_step [System_info c, Read_failed c, Hub_unregister c] h in
      hb_clients h' (cn_device k) = None \<and> map_option dr_connected (hb_rows h' (cn_device k)) = Some True)"
  using assms by (auto simp: hub_ops in_phase_def split: option.split)

text \<open>C37: A check-in operation made from the console between the registration of a known machine and
  its line system_info is undone by that line, which writes back the columns read at the
  registration; on a machine that is new to the server the operation is kept.\<close>

theorem checkin_during_reconnect_lost:
  assumes "hb_conns h c = None"
  shows "let h' = run hub_step [Accept c d, Hub_register c, Seat_write now d op, System_info c] h in
    map_option dr_seat (hb_rows h' d) = Some (case hb_rows h d of
      Some r \<Rightarrow> dr_seat r | None \<Rightarrow> seat_apply now op no_seat)"
  using assms by (auto simp: hub_ops split: option.split)

text \<open>When the record of a machine is deleted while the machine registers, the machine ends up
  connected and no event other than a new registration ever gives it a record again: the insert
  that should do so names more columns than values, and its error is dropped.\<close>

theorem record_never_created:
  assumes "hb_conns h c = None" "\<And>c'. Accept c' d \<notin> set es"
  shows "let h' = run hub_step [Accept c d, Delete_device d, Hub_register c, System_info c] h in
    hb_clients h' d = Some c \<and> in_phase h' c P_live \<and> hb_rows (run hub_step es h') d = None"
proof -
  have stays: "hb_rows (run hub_step es g) d = None" if "hb_rows g d = None" for g
    using that assms(2)
  proof (induction es arbitrary: g)
    case (Cons e es)
    have "hb_rows (hub_step e g) d = None"
      using Cons.prems by (cases e) (auto simp: hub_ops split: option.split)
    then show ?case using Cons by simp
  qed simp
  define h' where "h' = run hub_step [Accept c d, Delete_device d, Hub_register c, System_info c] h"
  have "hb_clients h' d = Some c" "in_phase h' c P_live" "hb_rows h' d = None"
    using assms(1) by (cases "hb_clients h d"; force simp: h'_def hub_ops in_phase_def)+
  with stays show ?thesis by (simp only: Let_def h'_def [symmetric])
qed

section \<open>A room with one known machine\<close>

definition known_row :: dev_row where
  "known_row = \<lparr>dr_connected = False, dr_seat = no_seat\<rparr>"

definition hub0 :: hub where
  "hub0 = \<lparr>hb_clients = Map.empty, hb_conns = Map.empty, hb_rows = [1 \<mapsto> known_row],
    hb_log = [(1, False), (2, True)], hb_boot = 2\<rparr>"

definition join_run :: "hub_ev list" where
  "join_run = [Accept 0 1, Hub_register 0, System_info 0]"

definition replaced_run :: "hub_ev list" where
  "replaced_run = [Accept 0 1, Hub_register 0, Accept 1 1, Hub_register 1, Read_failed 1, Hub_unregister 1]"

lemma hub0_init: "hub_init hub0"
  by (simp add: hub_init_def hub0_def known_row_def split: if_splits)

lemmas hub_run = hub0_def known_row_def no_seat_def hub_ops in_phase_def orderly_enabled_def

lemma presence_exact_witness:
  "dr_connected \<lparr>dr_connected = True, dr_seat = no_seat\<rparr> = (hb_clients (run hub_step join_run hub0) 1 \<noteq> None)"
proof (rule presence_exact)
  show "orderly_reach (run hub_step join_run hub0)"
    unfolding orderly_reach_def
    by (intro reach_runI hub0_init) (simp add: join_run_def hub_run)
  show "hb_rows (run hub_step join_run hub0) 1 = Some \<lparr>dr_connected = True, dr_seat = no_seat\<rparr>"
    by (simp add: join_run_def hub_run)
qed




text \<open>When the server ends, whoever is online stays so in the history: no event is recorded for it, and after the next
  start the whole history replays to a machine that is not connected.\<close>

lemma old_history_misleads:
  "let h = server_start (\<lambda>_. False) (run hub_step join_run hub0) in
     hub_init h \<and> 1 \<in> replay (hb_log h) {} \<and> hb_clients h 1 = None"
proof -
  have "hb_log (run hub_step join_run hub0) = [(1, False), (2, True), (1, True)]"
    by (simp add: join_run_def hub_run)
  then have "1 \<in> replay (hb_log (server_start (\<lambda>_. False) (run hub_step join_run hub0))) {}"
    by (simp add: server_start_def sweep_rows_def)
  then show ?thesis using server_start_init by (simp add: Let_def) (simp add: server_start_def sweep_rows_def)
qed

lemma late_update_stays_online_witness:
  "run_ok hub_enabled hub_step [System_info 0, Read_failed 0, Hub_unregister 0] (run hub_step replaced_run hub0)"
  by (rule conjunct1 [OF late_update_stays_online [where k = "\<lparr>cn_device = 1, cn_seen = Some no_seat, cn_phase = P_info, cn_closed = True\<rparr>"
      and r = known_row]]) (simp_all add: replaced_run_def hub_run)

lemma checkin_during_reconnect_lost_witness:
  "map_option dr_seat (hb_rows (run hub_step [Accept 0 1, Hub_register 0,
      Seat_write (js ''t'') 1 (Do_checkin (js ''Ann'') (js ''7'')), System_info 0] hub0) 1) = Some no_seat"
  using checkin_during_reconnect_lost [of hub0 0 1 "js ''t''" "Do_checkin (js ''Ann'') (js ''7'')"]
  by (simp add: hub0_def known_row_def Let_def)

lemma record_never_created_witness:
  "hb_rows (run hub_step [Read_failed 0, Hub_unregister 0]
     (run hub_step [Accept 0 1, Delete_device 1, Hub_register 0, System_info 0] hub0)) 1 = None"
  using record_never_created [of hub0 0 1 "[Read_failed 0, Hub_unregister 0]"]
  by (simp add: hub0_def Let_def)

end
