(* ===== verification/Display_Carousel.thy ===== *)
theory Display_Carousel
  imports Types_Model
begin

text \<open>
  The time synchronised page carousel of \<^verbatim>\<open>internal/server/web/broadcast/display.js\<close>: which
  page a display shows at a server time (\<^verbatim>\<open>calcSyncedPageIndex\<close>) and how long until it must
  switch (\<^verbatim>\<open>calcNextSwitchMs\<close>). Date parsing (\<open>new Date(s).getTime()\<close>) is the argument
  \<open>date\<close>, with \<^term>\<open>None\<close> for an invalid date.
\<close>

text \<open>The variable \<open>pages\<close>: an array, or whatever object a failed request answered
  (\<open>data.pages || data\<close>), whose \<open>length\<close> is \<open>undefined\<close>.\<close>

datatype pagesv = Arr "broadcast_page list" | NonArr

fun plen :: "pagesv \<Rightarrow> jint" where
  "plen (Arr ps) = Some (int (length ps))"
| "plen NonArr = None"

text \<open>\<open>pages[i]\<close>, where \<open>i\<close> may be \<open>NaN\<close>.\<close>

fun page_at :: "pagesv \<Rightarrow> jint \<Rightarrow> broadcast_page option" where
  "page_at (Arr ps) (Some i) = nth_opt ps i"
| "page_at _ _ = None"

definition page_dur :: "broadcast_page \<Rightarrow> int" where
  "page_dur p = (if duration_ms p = 0 then 10000 else duration_ms p)"

fun total_dur :: "broadcast_page list \<Rightarrow> int" where
  "total_dur [] = 0"
| "total_dur (p # ps) = page_dur p + total_dur ps"

text \<open>The second loop: the first page whose accumulated end lies beyond the cycle position,
  with that end.\<close>

fun find_slot :: "int \<Rightarrow> int \<Rightarrow> int \<Rightarrow> broadcast_page list \<Rightarrow> (int \<times> int) option" where
  "find_slot cycle acc j [] = None"
| "find_slot cycle acc j (p # ps) =
     (if cycle < acc + page_dur p then Some (j, acc + page_dur p)
      else find_slot cycle (acc + page_dur p) (j + 1) ps)"

definition server_now :: "int \<Rightarrow> jint \<Rightarrow> jint" where
  "server_now now off = nlift2 (-) (Some now) off"

definition elapsed_since :: "(jstr \<Rightarrow> jint) \<Rightarrow> int \<Rightarrow> jint \<Rightarrow> jstr \<Rightarrow> jint" where
  "elapsed_since date now off started = nlift2 (-) (server_now now off) (date started)"

definition keep_index :: "pagesv \<Rightarrow> jint \<Rightarrow> jint" where
  "keep_index pages cur = (if ncmp (<) cur (Some 0) \<or> ncmp (\<ge>) cur (plen pages) then Some 0 else cur)"

definition calc_synced_page_index ::
  "(jstr \<Rightarrow> jint) \<Rightarrow> int \<Rightarrow> jint \<Rightarrow> jstr option \<Rightarrow> pagesv \<Rightarrow> jint \<Rightarrow> jint" where
  "calc_synced_page_index date now off started pages cur =
     (case (started, pages) of
        (Some st, Arr ps) \<Rightarrow>
          (if st \<noteq> [] \<and> 1 < length ps then
             (case elapsed_since date now off st of
                Some el \<Rightarrow>
                  (if 0 \<le> el \<and> 0 < total_dur ps then
                     (case js_rem el (total_dur ps) of
                        Some cycle \<Rightarrow>
                          (case find_slot cycle 0 0 ps of
                             Some (j, _) \<Rightarrow> Some j
                           | None \<Rightarrow> keep_index pages cur)
                      | None \<Rightarrow> keep_index pages cur)
                   else keep_index pages cur)
              | None \<Rightarrow> keep_index pages cur)
           else keep_index pages cur)
      | _ \<Rightarrow> keep_index pages cur)"

definition own_duration :: "pagesv \<Rightarrow> jint \<Rightarrow> int" where
  "own_duration pages cur = (case page_at pages cur of Some p \<Rightarrow> page_dur p | None \<Rightarrow> 10000)"

definition calc_next_switch_ms ::
  "(jstr \<Rightarrow> jint) \<Rightarrow> int \<Rightarrow> jint \<Rightarrow> jstr option \<Rightarrow> pagesv \<Rightarrow> jint \<Rightarrow> int" where
  "calc_next_switch_ms date now off started pages cur =
     (case (started, pages) of
        (Some st, Arr ps) \<Rightarrow>
          (if st \<noteq> [] \<and> 1 < length ps then
             (case elapsed_since date now off st of
                Some el \<Rightarrow>
                  (if 0 < total_dur ps then
                     (case js_rem el (total_dur ps) of
                        Some cycle \<Rightarrow>
                          (case find_slot cycle 0 0 ps of
                             Some (_, acc) \<Rightarrow> acc - cycle
                           | None \<Rightarrow> own_duration pages cur)
                      | None \<Rightarrow> own_duration pages cur)
                   else own_duration pages cur)
              | None \<Rightarrow> own_duration pages cur)
           else own_duration pages cur)
      | _ \<Rightarrow> own_duration pages cur)"

section \<open>Lemmas\<close>

text \<open>A playable page has no negative duration; a zero one counts as ten seconds.\<close>

definition playable :: "broadcast_page list \<Rightarrow> bool" where
  "playable ps \<longleftrightarrow> (\<forall>p\<in>set ps. 0 \<le> duration_ms p)"

lemma page_dur_pos: "0 \<le> duration_ms p \<Longrightarrow> 0 < page_dur p"
  by (auto simp: page_dur_def)

lemma playable_Cons [simp]: "playable (p # ps) \<longleftrightarrow> 0 \<le> duration_ms p \<and> playable ps"
  by (simp add: playable_def)

lemma playable_Nil [simp]: "playable []"
  by (simp add: playable_def)

lemma total_dur_nonneg: "playable ps \<Longrightarrow> 0 \<le> total_dur ps"
  by (induction ps) (auto dest: page_dur_pos)

lemma total_dur_pos: "playable ps \<Longrightarrow> ps \<noteq> [] \<Longrightarrow> 0 < total_dur ps"
  by (cases ps) (auto simp: add_pos_nonneg page_dur_pos total_dur_nonneg)

lemma total_dur_append: "total_dur (ps @ qs) = total_dur ps + total_dur qs"
  by (induction ps) auto

lemma total_dur_take_Suc:
  "n < length ps \<Longrightarrow> total_dur (take (Suc n) ps) = total_dur (take n ps) + page_dur (ps ! n)"
  by (simp add: take_Suc_conv_app_nth total_dur_append)

lemma playable_take: "playable ps \<Longrightarrow> playable (take n ps)"
  by (auto simp: playable_def dest: in_set_takeD)

lemma total_dur_take_mono:
  assumes "playable ps" "m \<le> n"
  shows "total_dur (take m ps) \<le> total_dur (take n ps)"
proof -
  have "take n ps = take m ps @ take (n - m) (drop m ps)"
    using assms(2) by (metis le_add_diff_inverse take_add)
  moreover have "playable (take (n - m) (drop m ps))"
    using assms(1) by (auto simp: playable_def dest: in_set_takeD in_set_dropD)
  ultimately show ?thesis by (simp add: total_dur_append total_dur_nonneg)
qed

text \<open>What the search finds: the slot that contains the cycle position.\<close>

lemma find_slot_Some:
  assumes "find_slot cycle acc j ps = Some (k, e)" "acc \<le> cycle"
  shows "\<exists>n < length ps. k = j + int n \<and> e = acc + total_dur (take (Suc n) ps)
           \<and> acc + total_dur (take n ps) \<le> cycle \<and> cycle < e"
  using assms
proof (induction ps arbitrary: acc j)
  case (Cons p ps)
  show ?case
  proof (cases "cycle < acc + page_dur p")
    case True
    with Cons.prems show ?thesis by (intro exI [of _ 0]) auto
  next
    case False
    with Cons.IH [of "acc + page_dur p" "j + 1"] Cons.prems
    obtain n where "n < length ps" "k = j + 1 + int n"
      "e = acc + page_dur p + total_dur (take (Suc n) ps)"
      "acc + page_dur p + total_dur (take n ps) \<le> cycle" "cycle < e" by auto
    then show ?thesis by (intro exI [of _ "Suc n"]) auto
  qed
qed simp

lemma find_slot_total:
  "acc \<le> cycle \<Longrightarrow> cycle < acc + total_dur ps \<Longrightarrow> \<exists>k e. find_slot cycle acc j ps = Some (k, e)"
  by (induction ps arbitrary: acc j) (auto simp: add.assoc)

lemma slot_unique:
  assumes "playable ps" "m < length ps" "n < length ps"
    and "total_dur (take m ps) \<le> c" "c < total_dur (take (Suc m) ps)"
    and "total_dur (take n ps) \<le> c" "c < total_dur (take (Suc n) ps)"
  shows "m = n"
proof (rule linorder_cases [of m n])
  assume "m < n"
  then have "total_dur (take (Suc m) ps) \<le> total_dur (take n ps)"
    using assms(1) by (intro total_dur_take_mono) auto
  with assms show ?thesis by simp
next
  assume "n < m"
  then have "total_dur (take (Suc n) ps) \<le> total_dur (take m ps)"
    using assms(1) by (intro total_dur_take_mono) auto
  with assms show ?thesis by simp
qed simp

text \<open>The slot of a cycle position, as a page number.\<close>

definition in_slot :: "broadcast_page list \<Rightarrow> nat \<Rightarrow> int \<Rightarrow> bool" where
  "in_slot ps n c \<longleftrightarrow> n < length ps \<and> total_dur (take n ps) \<le> c \<and> c < total_dur (take (Suc n) ps)"

lemma in_slot_unique: "playable ps \<Longrightarrow> in_slot ps m c \<Longrightarrow> in_slot ps n c \<Longrightarrow> m = n"
  unfolding in_slot_def by (rule slot_unique) auto

lemma find_slot_in_slot:
  assumes "0 \<le> c" "c < total_dur ps"
  obtains n where "find_slot c 0 0 ps = Some (int n, total_dur (take (Suc n) ps))" "in_slot ps n c"
proof -
  obtain k e where ke: "find_slot c 0 0 ps = Some (k, e)"
    using find_slot_total [of 0 c ps 0] assms by auto
  from find_slot_Some [OF this assms(1)] ke that show ?thesis
    by (auto simp: in_slot_def)
qed

text \<open>Both functions in the synchronised case.\<close>

lemma synced_case:
  assumes "started \<noteq> []" "1 < length ps" "playable ps"
    and "elapsed_since date now off started = Some el" "0 \<le> el"
  obtains n where "in_slot ps n (el mod total_dur ps)"
    and "calc_synced_page_index date now off (Some started) (Arr ps) cur = Some (int n)"
    and "calc_next_switch_ms date now off (Some started) (Arr ps) cur
           = total_dur (take (Suc n) ps) - el mod total_dur ps"
proof -
  have pos: "0 < total_dur ps" using assms(2,3) by (intro total_dur_pos) auto
  then have c: "0 \<le> el mod total_dur ps" "el mod total_dur ps < total_dur ps" by simp_all
  obtain n where n: "find_slot (el mod total_dur ps) 0 0 ps = Some (int n, total_dur (take (Suc n) ps))"
    "in_slot ps n (el mod total_dur ps)"
    using find_slot_in_slot [OF c] by blast
  show ?thesis
    by (rule that [OF n(2)])
      (use assms pos n in \<open>simp_all add: calc_synced_page_index_def calc_next_switch_ms_def js_rem_nonneg\<close>)
qed

lemma keep_index_range:
  assumes "ps \<noteq> []" "cur \<noteq> None"
  shows "\<exists>i. keep_index (Arr ps) cur = Some i \<and> 0 \<le> i \<and> i < int (length ps)"
  using assms by (auto simp: keep_index_def not_less)

text \<open>Moving the clock moves the elapsed time.\<close>

lemma elapsed_shift:
  "elapsed_since date now off st = Some el \<Longrightarrow> elapsed_since date (now + t) off st = Some (el + t)"
  by (cases off; cases "date st") (auto simp: elapsed_since_def server_now_def)

lemma mod_shift:
  fixes c t T el :: int
  assumes "c = el mod T" "0 \<le> t" "c + t < T" "0 < T"
  shows "(el + t) mod T = c + t"
proof -
  have "0 \<le> c" using assms(1,4) by simp
  then have "0 \<le> c + t" using assms(2) by simp
  then have "(c + t) mod T = c + t" using assms(3) by (simp add: mod_pos_pos_trivial)
  then show ?thesis using assms(1) by (simp add: mod_add_left_eq)
qed

lemma mod_wrap:
  fixes el T :: int
  shows "(el + (T - el mod T)) mod T = 0"
  by (metis add.commute add_diff_eq cancel_comm_monoid_add_class.diff_cancel mod_0 mod_add_self2 mod_diff_right_eq)

lemma in_slot_later: "in_slot ps n c \<Longrightarrow> 0 \<le> t \<Longrightarrow> c + t < total_dur (take (Suc n) ps) \<Longrightarrow> in_slot ps n (c + t)"
  by (auto simp: in_slot_def)

lemma in_slot_next:
  assumes "playable ps" "Suc n < length ps"
  shows "in_slot ps (Suc n) (total_dur (take (Suc n) ps))"
  using assms total_dur_take_Suc [of "Suc n" ps] page_dur_pos [of "ps ! Suc n"]
  by (auto simp: in_slot_def playable_def)

lemma in_slot_first: "playable ps \<Longrightarrow> ps \<noteq> [] \<Longrightarrow> in_slot ps 0 0"
  by (cases ps) (auto simp: in_slot_def page_dur_pos)

lemma slot_end_le: "playable ps \<Longrightarrow> n < length ps \<Longrightarrow> total_dur (take (Suc n) ps) \<le> total_dur ps"
  using total_dur_take_mono [of ps "Suc n" "length ps"] by simp

lemma calc_range:
  assumes "ps \<noteq> []" "cur \<noteq> None"
  shows "\<exists>i. calc_synced_page_index date now off started (Arr ps) cur = Some i
           \<and> 0 \<le> i \<and> i < int (length ps)"
proof -
  note keep = keep_index_range [OF assms]
  have found: "0 \<le> j \<and> j < int (length ps)"
    if "find_slot c 0 0 ps = Some (j, e)" "0 \<le> c" for c j e
    using find_slot_Some [OF that] by auto
  show ?thesis
    using keep unfolding calc_synced_page_index_def
    by (auto split: option.splits dest!: js_rem_bounds [rotated 2] intro!: found)
qed

section \<open>Properties\<close>

text \<open>C26: in the synchronised case (a parsable start in the past, at least two pages) the page
  shown is the one whose slot, the half-open interval between the sums of the durations before
  and after it, contains the elapsed server time modulo the cycle; the time to the next switch
  is positive and at most that page's duration.\<close>

theorem synced_index_slot:
  assumes "started \<noteq> []" "1 < length ps" "playable ps"
    and "elapsed_since date now off started = Some el" "0 \<le> el"
  shows "\<exists>n < length ps.
     calc_synced_page_index date now off (Some started) (Arr ps) cur = Some (int n)
   \<and> total_dur (take n ps) \<le> el mod total_dur ps
   \<and> el mod total_dur ps < total_dur (take (Suc n) ps)
   \<and> 0 < calc_next_switch_ms date now off (Some started) (Arr ps) cur
   \<and> calc_next_switch_ms date now off (Some started) (Arr ps) cur \<le> page_dur (ps ! n)"
proof -
  obtain n where n: "in_slot ps n (el mod total_dur ps)"
    "calc_synced_page_index date now off (Some started) (Arr ps) cur = Some (int n)"
    "calc_next_switch_ms date now off (Some started) (Arr ps) cur
       = total_dur (take (Suc n) ps) - el mod total_dur ps"
    using synced_case [OF assms] by blast
  then show ?thesis
    using total_dur_take_Suc [of n ps] by (intro exI [of _ n]) (auto simp: in_slot_def)
qed

text \<open>C27: the two routines agree: the page does not change before the announced switch, and at
  the switch it is the following page, the first one again after the last.\<close>

theorem next_switch_exact:
  assumes "started \<noteq> []" "1 < length ps" "playable ps"
    and "elapsed_since date now off started = Some el" "0 \<le> el"
    and "calc_synced_page_index date now off (Some started) (Arr ps) cur = Some (int n)"
    and "w = calc_next_switch_ms date now off (Some started) (Arr ps) cur"
  shows "(0 \<le> t \<and> t < w \<longrightarrow>
            calc_synced_page_index date (now + t) off (Some started) (Arr ps) cur' = Some (int n))
       \<and> calc_synced_page_index date (now + w) off (Some started) (Arr ps) cur'
            = Some (int (Suc n mod length ps))"
proof -
  let ?T = "total_dur ps" and ?c = "el mod total_dur ps"
  have T: "0 < ?T" using assms(2,3) by (intro total_dur_pos) auto
  have slot: "in_slot ps n ?c" and w: "w = total_dur (take (Suc n) ps) - ?c"
    using assms(6,7) synced_case [OF assms(1-5), of cur] by auto
  have n: "n < length ps" and c0: "0 \<le> ?c" and cw: "?c < total_dur (take (Suc n) ps)"
    using slot T by (auto simp: in_slot_def)
  have shown: "calc_synced_page_index date (now + t) off (Some started) (Arr ps) cur' = Some (int m)"
    if "in_slot ps m ((el + t) mod ?T)" "0 \<le> t" for t m
  proof -
    have "0 \<le> el + t" using assms(5) that(2) by simp
    then show ?thesis
      using synced_case [OF assms(1-3) elapsed_shift [OF assms(4), of t], of cur']
        in_slot_unique [OF assms(3) that(1)] by metis
  qed
  have end_le: "total_dur (take (Suc n) ps) \<le> ?T" using assms(3) n by (rule slot_end_le)
  have "calc_synced_page_index date (now + t) off (Some started) (Arr ps) cur' = Some (int n)"
    if "0 \<le> t" "t < w"
  proof (rule shown [OF _ that(1)])
    have "(el + t) mod ?T = ?c + t" using that w end_le T by (intro mod_shift) auto
    moreover have "in_slot ps n (?c + t)" using slot that w by (intro in_slot_later) auto
    ultimately show "in_slot ps n ((el + t) mod ?T)" by simp
  qed
  moreover have "in_slot ps (Suc n mod length ps) ((el + w) mod ?T)"
  proof (cases "Suc n < length ps")
    case True
    have "total_dur (take (Suc n) ps) < ?T"
      using in_slot_next [OF assms(3) True] slot_end_le [OF assms(3) True] by (auto simp: in_slot_def)
    then have "(el + w) mod ?T = ?c + w" using w cw T by (intro mod_shift) auto
    with in_slot_next [OF assms(3) True] show ?thesis using True by (simp add: w)
  next
    case False
    then have "Suc n = length ps" using n by simp
    moreover have "ps \<noteq> []" using n by auto
    ultimately show ?thesis using w mod_wrap [of el ?T] in_slot_first [OF assms(3)] by auto
  qed
  ultimately show ?thesis using shown [of _ w] w cw by auto
qed

text \<open>Every page gets exactly its duration in every full cycle of the server clock.\<close>

theorem cycle_share:
  assumes "started \<noteq> []" "1 < length ps" "playable ps" "n < length ps" "date started = Some t0" "0 \<le> k"
  shows "int (card {now. t0 + k * total_dur ps \<le> now - off \<and> now - off < t0 + (k + 1) * total_dur ps \<and>
           calc_synced_page_index date now (Some off) (Some started) (Arr ps) cur = Some (int n)})
         = page_dur (ps ! n)"
proof -
  let ?T = "total_dur ps" and ?base = "off + t0 + k * total_dur ps"
  have T: "0 < ?T" using assms(2,3) by (intro total_dur_pos) auto
  have iff: "calc_synced_page_index date (?base + r) (Some off) (Some started) (Arr ps) cur = Some (int n)
        \<longleftrightarrow> in_slot ps n r" if "0 \<le> r" "r < ?T" for r
  proof -
    have el: "elapsed_since date (?base + r) (Some off) started = Some (k * ?T + r)"
      by (simp add: elapsed_since_def server_now_def assms(5))
    have "0 \<le> k * ?T + r" using that assms(6) T by simp
    moreover have "(k * ?T + r) mod ?T = r" using that by (simp add: mod_pos_pos_trivial)
    ultimately show ?thesis
      using synced_case [OF assms(1-3) el, of cur] in_slot_unique [OF assms(3)] by (metis of_nat_eq_iff option.inject)
  qed
  have "{now. t0 + k * ?T \<le> now - off \<and> now - off < t0 + (k + 1) * ?T \<and>
           calc_synced_page_index date now (Some off) (Some started) (Arr ps) cur = Some (int n)}
        = (+) ?base ` {total_dur (take n ps)..<total_dur (take (Suc n) ps)}" (is "?A = ?B")
  proof (intro set_eqI iffI)
    fix now assume "now \<in> ?A"
    then have "0 \<le> now - ?base" "now - ?base < ?T" and a: "now \<in> ?A" by (auto simp: algebra_simps)
    with iff [of "now - ?base"] have "in_slot ps n (now - ?base)" by simp
    then show "now \<in> ?B" by (intro image_eqI [of _ _ "now - ?base"]) (auto simp: in_slot_def)
  next
    fix now assume "now \<in> ?B"
    then have "in_slot ps n (now - ?base)" using assms(4) by (auto simp: in_slot_def)
    then obtain r where r: "now = ?base + r" "in_slot ps n r"
      by (metis add_diff_cancel_left' diff_add_cancel add.commute)
    have "0 \<le> r" "r < ?T"
      using r(2) slot_end_le [OF assms(3,4)] total_dur_nonneg [OF playable_take [OF assms(3)], of n]
      by (auto simp: in_slot_def)
    with iff [of r] r show "now \<in> ?A" by (auto simp: algebra_simps)
  qed
  then show ?thesis
    using total_dur_take_Suc [OF assms(4)] page_dur_pos [of "ps ! n"] assms(3,4)
    by (simp add: card_image playable_def)
qed

text \<open>Two displays whose clocks read the same server time show the same page, whatever their
  own clocks and whatever page each showed before.\<close>

theorem displays_agree:
  assumes "started \<noteq> []" "1 < length ps" "playable ps"
    and "server_now now1 off1 = server_now now2 off2"
    and "elapsed_since date now1 off1 started = Some el" "0 \<le> el"
  shows "calc_synced_page_index date now1 off1 (Some started) (Arr ps) cur1
       = calc_synced_page_index date now2 off2 (Some started) (Arr ps) cur2"
proof -
  have "elapsed_since date now2 off2 started = Some el"
    using assms(4,5) by (simp add: elapsed_since_def)
  then show ?thesis
    using synced_case [OF assms(1-3) assms(5,6), of cur1] synced_case [OF assms(1-3) _ assms(6), of date now2 off2 cur2]
      in_slot_unique [OF assms(3)] by metis
qed

text \<open>With at least one page and a numeric current index the computed index is always a valid
  one, synchronised or not, for any durations.\<close>

theorem synced_index_in_range:
  assumes "ps \<noteq> []" "cur \<noteq> None"
  shows "\<exists>i. calc_synced_page_index date now off started (Arr ps) cur = Some i
           \<and> 0 \<le> i \<and> i < int (length ps)"
  using assms by (rule calc_range)

section \<open>Witnesses\<close>

definition demo_page :: "int \<Rightarrow> int \<Rightarrow> broadcast_page" where
  "demo_page i d = \<lparr>page_id = i, page_mode = js ''before'', page_title = [], sort_order = 0, duration_ms = d,
     page_bg_color = [], transition = js ''fade'', items = None\<rparr>"

definition demo_date :: "jstr \<Rightarrow> jint" where
  "demo_date s = (if s = js ''t0'' then Some 1000 else None)"

lemmas demo_simps = demo_page_def demo_date_def calc_synced_page_index_def calc_next_switch_ms_def
  elapsed_since_def server_now_def js_rem_def page_dur_def keep_index_def js_def

lemma synced_index_slot_witness:
  "\<exists>n < 2. calc_synced_page_index demo_date 17000 (Some 0) (Some (js ''t0'')) (Arr [demo_page 1 0, demo_page 2 5000]) None = Some (int n)"
  using synced_index_slot [of "js ''t0''" "[demo_page 1 0, demo_page 2 5000]" demo_date 17000 "Some 0" 16000 None]
  by (auto simp: demo_simps)

lemma next_switch_exact_witness:
  "calc_synced_page_index demo_date (17000 + 9000) (Some 0) (Some (js ''t0'')) (Arr [demo_page 1 0, demo_page 2 5000]) None
     = Some (int (Suc 0 mod 2))"
  using next_switch_exact [of "js ''t0''" "[demo_page 1 0, demo_page 2 5000]" demo_date 17000 "Some 0" 16000 None 0 9000 0 None]
  by (simp add: demo_simps)

lemma cycle_share_witness:
  "int (card {now. 1000 + 0 * total_dur [demo_page 1 0, demo_page 2 5000] \<le> now - 0 \<and>
       now - 0 < 1000 + (0 + 1) * total_dur [demo_page 1 0, demo_page 2 5000] \<and>
       calc_synced_page_index demo_date now (Some 0) (Some (js ''t0'')) (Arr [demo_page 1 0, demo_page 2 5000]) None
         = Some (int 1)}) = 5000"
  using cycle_share [of "js ''t0''" "[demo_page 1 0, demo_page 2 5000]" 1 demo_date 1000 0 0 None]
  by (simp add: demo_page_def demo_date_def page_dur_def js_def)

lemma displays_agree_witness:
  "calc_synced_page_index demo_date 17000 (Some 0) (Some (js ''t0'')) (Arr [demo_page 1 0, demo_page 2 5000]) None
   = calc_synced_page_index demo_date 17300 (Some 300) (Some (js ''t0'')) (Arr [demo_page 1 0, demo_page 2 5000]) (Some 1)"
  using displays_agree [of "js ''t0''" "[demo_page 1 0, demo_page 2 5000]" 17000 "Some 0" 17300 "Some 300" demo_date 16000 None "Some 1"]
  by (simp add: demo_page_def demo_date_def server_now_def elapsed_since_def js_def)

lemma synced_index_in_range_witness:
  "\<exists>i. calc_synced_page_index demo_date 0 None None (Arr [demo_page 1 0]) (Some 7) = Some i \<and> 0 \<le> i \<and> i < 1"
  using synced_index_in_range [of "[demo_page 1 0]" "Some 7" demo_date 0 None None] by simp

end
