(* ===== verification/Display_Render.thy ===== *)
theory Display_Render
  imports Types_Model
begin

text \<open>
  What \<^verbatim>\<open>display.js\<close> draws: the element built for an item (\<^verbatim>\<open>renderItem\<close>,
  \<^verbatim>\<open>renderScrollingNotice\<close>), font sizes (\<^verbatim>\<open>scaleFont\<close>), the clock and countdown texts,
  and the keys the full screen page swallows (\<^verbatim>\<open>blockKeys\<close>). A style is the map of the
  properties assigned; what the browser makes of them is not modelled.
\<close>

section \<open>Font sizes\<close>

datatype css = Pct rat | Vh jsnum | Txt jstr | Num int

definition scale_font :: "jstr \<Rightarrow> css" where
  "scale_font fs =
     (if fs = [] then Txt []
      else let v = parse_float fs in
           if \<not> num_truthy v then Txt fs else Vh v)"

section \<open>Texts of the clock and the countdown\<close>

definition pad2 :: "nat \<Rightarrow> jstr" where
  "pad2 n = pad_start 2 48 (nat_digits n)"

definition clock_text :: "nat \<Rightarrow> nat \<Rightarrow> nat \<Rightarrow> jstr" where
  "clock_text h m s = pad2 h @ js '':'' @ pad2 m @ js '':'' @ pad2 s"

text \<open>The function \<open>pad\<close> of the countdown; \<open>NaN < 10\<close> is false.\<close>

definition pad :: "jint \<Rightarrow> jstr" where
  "pad n = (case n of None \<Rightarrow> js ''NaN''
            | Some v \<Rightarrow> if v < 10 then js ''0'' @ int_str v else int_str v)"

definition countdown_fields :: "int \<Rightarrow> int \<times> int \<times> int" where
  "countdown_fields r = (r div 3600000, (r mod 3600000) div 60000, (r mod 60000) div 1000)"

definition countdown_text :: "(jstr \<Rightarrow> jint) \<Rightarrow> int \<Rightarrow> jstr option \<Rightarrow> jint \<Rightarrow> jstr" where
  "countdown_text date now target off =
     (case target of
        None \<Rightarrow> js ''--:--:--''
      | Some t \<Rightarrow>
          (if t = [] then js ''--:--:--''
           else case nlift2 (-) (date t) (nlift2 (-) (Some now) off) of
                  None \<Rightarrow> pad None @ js '':'' @ pad None @ js '':'' @ pad None
                | Some r \<Rightarrow>
                    (if r \<le> 0 then js ''00:00:00''
                     else let (h, m, s) = countdown_fields r in
                          pad (Some h) @ js '':'' @ pad (Some m) @ js '':'' @ pad (Some s))))"

section \<open>Items\<close>

datatype child = Img jstr | Span jstr css jstr jstr
  \<comment> \<open>an image with its source; a scrolling span with its text, font size, colour and weight\<close>

record elem =
  class_name :: jstr
  style :: "string \<Rightarrow> css option"
  text_content :: jstr
  child :: "child option"

text \<open>Result of \<open>JSON.parse(it.extra_json)\<close>: it throws, answers \<open>null\<close>, or a value whose
  \<open>scroll_speed\<close> may be a number.\<close>

datatype extra = Extra_error | Extra_null | Extra_val "rat option"

definition scroll_speed :: "extra \<Rightarrow> rat option" where
  \<comment> \<open>\<^term>\<open>None\<close>: the property access on \<open>null\<close> throws\<close>
  "scroll_speed x = (case x of
     Extra_error \<Rightarrow> Some 120
   | Extra_null \<Rightarrow> None
   | Extra_val None \<Rightarrow> Some 120
   | Extra_val (Some v) \<Rightarrow> Some (if v = 0 then 120 else v))"

definition scroll_duration :: "rat \<Rightarrow> rat \<Rightarrow> rat \<Rightarrow> rat" where
  "scroll_duration el_width span_width speed = (el_width + span_width) / speed"

definition align_map :: "jstr \<Rightarrow> jstr option" where
  "align_map a = (if a = js ''left'' then Some (js ''flex-start'')
     else if a = js ''center'' then Some (js ''center'')
     else if a = js ''right'' then Some (js ''flex-end'') else None)"

definition justify :: "jstr \<Rightarrow> jstr" where
  "justify a = str_or (align_map a) (js ''center'')"

definition anim_css :: "jstr \<Rightarrow> css option" where
  "anim_css a = (if a = js ''fadeIn'' then Some (Txt (js ''fadeIn 0.5s ease''))
     else if a = js ''slideUp'' then Some (Txt (js ''slideUp 0.5s ease''))
     else if a = js ''pulse'' then Some (Txt (js ''pulse 2s ease infinite'')) else None)"

definition broadcast_font_css :: css where
  "broadcast_font_css = Txt (js ''\"BroadcastFont\",sans-serif'')"

definition base_style :: "bool \<Rightarrow> broadcast_item \<Rightarrow> string \<Rightarrow> css option" where
  "base_style font_loaded it =
     (let s = [''position'' \<mapsto> Txt (js ''absolute''),
               ''left'' \<mapsto> Pct (pos_x it), ''top'' \<mapsto> Pct (pos_y it),
               ''width'' \<mapsto> Pct (item_width it), ''height'' \<mapsto> Pct (item_height it),
               ''fontSize'' \<mapsto> scale_font (font_size it),
               ''color'' \<mapsto> Txt (font_color it), ''fontWeight'' \<mapsto> Txt (font_weight it),
               ''backgroundColor'' \<mapsto>
                 Txt (if item_bg_color it \<noteq> js ''transparent'' then item_bg_color it else []),
               ''borderRadius'' \<mapsto> Txt (border_radius it), ''zIndex'' \<mapsto> Num (z_index it)];
          s1 = (if font_loaded then s(''fontFamily'' \<mapsto> broadcast_font_css) else s)
      in case anim_css (animation it) of Some a \<Rightarrow> s1(''animation'' \<mapsto> a) | None \<Rightarrow> s1)"

definition render_item :: "(jstr \<Rightarrow> extra) \<Rightarrow> bool \<Rightarrow> broadcast_item \<Rightarrow> elem option" where
  "render_item json font_loaded it =
     (let s = base_style font_loaded it;
          e = \<lparr>class_name = js ''broadcast-item '' @ item_type it, style = s, text_content = [], child = None\<rparr>
      in if item_type it = js ''text'' then
           Some (e\<lparr>text_content := content it,
             style := s(''display'' \<mapsto> Txt (js ''flex''), ''alignItems'' \<mapsto> Txt (js ''center''),
               ''justifyContent'' \<mapsto> Txt (justify (text_align it)),
               ''textAlign'' \<mapsto> Txt (if text_align it = [] then js ''center'' else text_align it),
               ''whiteSpace'' \<mapsto> Txt (js ''pre-wrap''), ''lineHeight'' \<mapsto> Txt (js ''1.2''))\<rparr>)
         else if item_type it = js ''clock'' then
           Some (e\<lparr>text_content := js ''00:00:00'',
             class_name := class_name e @ js '' bc-clock-val'',
             style := s(''display'' \<mapsto> Txt (js ''flex''), ''alignItems'' \<mapsto> Txt (js ''center''),
               ''justifyContent'' \<mapsto> Txt (justify (text_align it)),
               ''fontFamily'' \<mapsto> Txt (js ''monospace''), ''whiteSpace'' \<mapsto> Txt (js ''nowrap''))\<rparr>)
         else if item_type it = js ''image'' then
           Some (e\<lparr>child := Some (Img (content it))\<rparr>)
         else if item_type it = js ''countdown'' then
           Some (e\<lparr>text_content := js ''--:--:--''\<rparr>)
         else if item_type it = js ''scrolling_notice'' then
           (case scroll_speed (json (extra_json it)) of
              None \<Rightarrow> None
            | Some _ \<Rightarrow>
                Some (e\<lparr>child := Some (Span (content it) (scale_font (font_size it)) (font_color it) (font_weight it)),
                  style := s(''display'' \<mapsto> Txt (js ''flex''), ''alignItems'' \<mapsto> Txt (js ''center''),
                    ''overflow'' \<mapsto> Txt (js ''hidden''), ''whiteSpace'' \<mapsto> Txt (js ''nowrap''))\<rparr>))
         else Some e)"

text \<open>All items of a page, in order; one that throws aborts the page.\<close>

fun render_items :: "(jstr \<Rightarrow> extra) \<Rightarrow> bool \<Rightarrow> broadcast_item list \<Rightarrow> elem list option" where
  "render_items json fl [] = Some []"
| "render_items json fl (it # its) =
     (case render_item json fl it of None \<Rightarrow> None
      | Some e \<Rightarrow> map_option ((#) e) (render_items json fl its))"

text \<open>The classes of an element are the blank separated parts of its class name.\<close>

fun split_sp :: "jstr \<Rightarrow> jstr \<Rightarrow> jstr list" where
  "split_sp w [] = [rev w]"
| "split_sp w (c # s) = (if c = 32 then rev w # split_sp [] s else split_sp (c # w) s)"

definition has_class :: "elem \<Rightarrow> jstr \<Rightarrow> bool" where
  "has_class e c \<longleftrightarrow> c \<in> set (split_sp [] (class_name e))"

definition tick_elem :: "jstr \<Rightarrow> jstr \<Rightarrow> elem \<Rightarrow> elem" where
  "tick_elem clock cd e =
     (let e1 = (if has_class e (js ''bc-clock-val'') then e\<lparr>text_content := clock\<rparr> else e)
      in if has_class e1 (js ''broadcast-item'') \<and> has_class e1 (js ''countdown'')
         then e1\<lparr>text_content := cd\<rparr> else e1)"

section \<open>Blocked keys\<close>

record key_event =
  ke_key :: jstr
  ke_code :: jstr
  key_code :: int
  ctrl_key :: bool
  shift_key :: bool
  alt_key :: bool

definition block_keys :: "key_event \<Rightarrow> bool" where
  "block_keys e =
     (let k = (if ke_key e \<noteq> [] then ke_key e else ke_code e) in
      if k = js ''Escape'' \<or> k = js ''F11'' \<or> key_code e = 27 \<or> key_code e = 122 then True
      else if ctrl_key e \<and> (k = js ''w'' \<or> k = js ''W'' \<or> k = js ''t'' \<or> k = js ''T'' \<or> k = js ''n'' \<or> k = js ''N''
                \<or> key_code e = 87 \<or> key_code e = 84 \<or> key_code e = 78) then True
      else if ctrl_key e \<and> shift_key e \<and> (k = js ''Tab'' \<or> key_code e = 9) then True
      else if alt_key e \<and> (k = js ''F4'' \<or> key_code e = 115) then True
      else k = js ''Meta'' \<or> k = js ''OS'' \<or> key_code e = 91 \<or> key_code e = 92)"

section \<open>Lemmas\<close>

lemma pad_digits: "0 \<le> v \<Longrightarrow> pad (Some v) = pad_start 2 48 (nat_digits (nat v))"
proof (cases "v < 10")
  case True
  then show "0 \<le> v \<Longrightarrow> ?thesis"
    using length_nat_digits_small [of "nat v"]
    by (simp add: pad_def int_str_nonneg pad_start_def js_def)
next
  case False
  then have "10 \<le> nat v" by simp
  then have "2 \<le> length (nat_digits (nat v))"
    by (subst nat_digits.simps) (auto simp: Suc_le_eq)
  then show "0 \<le> v \<Longrightarrow> ?thesis" using False
    by (simp add: pad_def int_str_nonneg pad_start_def)
qed

lemma digits_val_zeros: "digits_val (replicate n 48 @ s) = digits_val s"
  by (induction n) (auto simp: digits_val_def)

lemma pad_val: "0 \<le> v \<Longrightarrow> int (digits_val (pad (Some v))) = v"
  by (simp add: pad_digits pad_start_def digits_val_zeros)

lemma length_pad: "0 \<le> v \<Longrightarrow> v < 100 \<Longrightarrow> length (pad (Some v)) = 2"
  using length_nat_digits_small [of "nat v"] length_nat_digits_two [of "nat v"]
  by (cases "v < 10") (simp_all add: pad_digits length_pad_start)

lemma countdown_fields_sum:
  assumes "countdown_fields r = (h, m, s)" "0 \<le> r"
  shows "0 \<le> h" "0 \<le> m" "m < 60" "0 \<le> s" "s < 60" "h * 3600 + m * 60 + s = r div 1000"
proof -
  have e: "h = r div 3600000" "m = (r mod 3600000) div 60000" "s = (r mod 60000) div 1000"
    using assms(1) by (auto simp: countdown_fields_def)
  have "(r mod 3600000) mod 60000 = r mod 60000" by (simp add: mod_mod_cancel)
  then have "r mod 3600000 = 60000 * m + r mod 60000"
    unfolding e by (metis mult_div_mod_eq)
  moreover have "r = 3600000 * h + r mod 3600000" unfolding e by simp
  ultimately have "r = (3600 * h + 60 * m) * 1000 + r mod 60000" by simp
  then have "r div 1000 = 3600 * h + 60 * m + s"
    unfolding e(3) by (metis add.commute div_mult_self1 zero_neq_numeral)
  then show "h * 3600 + m * 60 + s = r div 1000" by simp
  show "0 \<le> h" "0 \<le> m" "0 \<le> s" unfolding e using assms(2) by (simp_all add: pos_imp_zdiv_nonneg_iff)
  have "r mod 3600000 < 3600000" "r mod 60000 < 60000" by simp_all
  then show "m < 60" "s < 60" unfolding e by linarith+
qed

lemma render_item_class:
  "render_item json fl it = Some e \<Longrightarrow> \<exists>t. class_name e = js ''broadcast-item '' @ item_type it @ t"
  by (auto simp: render_item_def Let_def split: if_splits option.splits)

lemma render_items_Some_iff:
  "(\<exists>es. render_items json fl its = Some es) \<longleftrightarrow> (\<forall>it\<in>set its. \<exists>e. render_item json fl it = Some e)"
  by (induction its) (auto split: option.splits)

lemma render_items_length: "render_items json fl its = Some es \<Longrightarrow> length es = length its"
  by (induction its arbitrary: es) (auto split: option.splits)

section \<open>Properties\<close>

text \<open>A countdown to a parsable target that is not yet reached shows hours, minutes and seconds
  that add up to the whole seconds left, minutes and seconds below sixty, every field at least
  two digits that read back as its value; below a hundred hours the text has the fixed width of
  the clock.\<close>

theorem countdown_text_correct:
  assumes "t \<noteq> []" "date t = Some due" "0 < r" "r = due - (now - off)"
  shows "\<exists>h m s. countdown_text date now (Some t) (Some off)
                 = pad (Some h) @ js '':'' @ pad (Some m) @ js '':'' @ pad (Some s)
           \<and> h * 3600 + m * 60 + s = r div 1000 \<and> 0 \<le> h \<and> 0 \<le> m \<and> m < 60 \<and> 0 \<le> s \<and> s < 60
           \<and> int (digits_val (pad (Some h))) = h \<and> int (digits_val (pad (Some m))) = m
           \<and> int (digits_val (pad (Some s))) = s
           \<and> (r < 360000000 \<longrightarrow> length (countdown_text date now (Some t) (Some off)) = 8)"
proof -
  obtain h m s where f: "countdown_fields r = (h, m, s)" by (cases "countdown_fields r") auto
  note fs = countdown_fields_sum [OF f]
  have shown: "countdown_text date now (Some t) (Some off)
               = pad (Some h) @ js '':'' @ pad (Some m) @ js '':'' @ pad (Some s)"
    using assms f by (simp add: countdown_text_def)
  have "h < 100" if "r < 360000000"
    using that f by (auto simp: countdown_fields_def)
  then show ?thesis
    using shown fs assms(3) by (intro exI [of _ h] exI [of _ m] exI [of _ s])
      (auto simp: pad_val length_pad js_def)
qed

text \<open>A font size that starts with a positive whole number is taken as that many hundredths of
  the viewport height whatever unit follows it, so a pixel size such as \<open>48px\<close> is not passed
  through.\<close>

theorem scale_font_ignores_unit:
  assumes "0 < n" "number_stop unit"
  shows "scale_font (nat_digits n @ unit) = Vh (Fin (of_nat n))"
  using assms by (simp add: scale_font_def parse_float_stop num_truthy_def)

text \<open>A page of items is drawn completely, one element per item in order, unless it has a
  scrolling notice whose extra data is the JSON value \<open>null\<close>; then nothing is drawn.\<close>

theorem render_items_total:
  "(\<exists>es. render_items json fl its = Some es \<and> length es = length its) \<longleftrightarrow>
   \<not> (\<exists>it\<in>set its. item_type it = js ''scrolling_notice'' \<and> json (extra_json it) = Extra_null)"
proof -
  have one: "(\<exists>e. render_item json fl it = Some e) \<longleftrightarrow>
      \<not> (item_type it = js ''scrolling_notice'' \<and> json (extra_json it) = Extra_null)" for it
    by (auto simp: render_item_def Let_def scroll_speed_def js_def split: extra.splits option.splits)
  have "(\<exists>es. render_items json fl its = Some es \<and> length es = length its)
      \<longleftrightarrow> (\<exists>es. render_items json fl its = Some es)"
    using render_items_length by blast
  also have "\<dots> \<longleftrightarrow> (\<forall>it\<in>set its. \<exists>e. render_item json fl it = Some e)"
    by (rule render_items_Some_iff)
  finally show ?thesis by (simp add: one)
qed

section \<open>Witnesses\<close>

lemma countdown_text_correct_witness:
  "\<exists>h m s. countdown_text (\<lambda>_. Some 3725000) 0 (Some (js ''x'')) (Some 0)
      = pad (Some h) @ js '':'' @ pad (Some m) @ js '':'' @ pad (Some s) \<and> h * 3600 + m * 60 + s = 3725"
  using countdown_text_correct [of "js ''x''" "\<lambda>_. Some 3725000" 3725000 3725000 0 0]
  by (auto simp: js_def)

lemma scale_font_ignores_unit_witness: "scale_font (nat_digits 48 @ js ''px'') = Vh (Fin 48)"
  using scale_font_ignores_unit [of 48 "js ''px''"] by (simp add: number_stop_def js_def is_digit_def)

lemma render_items_total_witness: "\<exists>es. render_items (\<lambda>_. Extra_null) True [] = Some es \<and> length es = length ([] :: broadcast_item list)"
  using render_items_total [of "\<lambda>_. Extra_null" True "[]"] by simp

end
