(* ===== verification/Display_Machine.thy ===== *)
theory Display_Machine
  imports Display_Carousel Display_Render
begin

text \<open>
  The display page of \<^verbatim>\<open>internal/server/web/broadcast/display.js\<close> as an event driven machine.
  The state holds the variables of the closure and the part of the browser they talk to: the
  sockets with their ready state, the pending timers, the requests in flight, the container's
  children. An event is a callback the browser can deliver: a socket opening, a frame, a close, a
  timer, the answer of a request, a click. Each handler is one definition, composed as in the code.
  An exception thrown inside a handler ends that handler; wherever the code can throw, the throwing
  statement is the last one with an effect, so the state is left as it is at that point.
\<close>

section \<open>State\<close>

datatype ready = CONNECTING | OPEN | CLOSING | CLOSED

datatype tkind = Tk_page | Tk_reconnect | Tk_ping | Tk_remove nat | Tk_clock | Tk_lock
  \<comment> \<open>\<open>pageTimer\<close>, the reconnect timeout, \<open>pingTimer\<close>, the removal of an old page element,
     \<open>clockTimer\<close>, \<open>lockCheckTimer\<close>; the delays other than the page's are constants: 5 s for
     the reconnect, 30 s, 0.8 s, 1 s and 0.5 s\<close>

datatype request = R_pages | R_countdown | R_config | R_fonts jstr "nat option"
  \<comment> \<open>the last with the configured font and the style element found when it was sent\<close>

text \<open>A page element of the container; \<open>el_page\<close> records the page it was built from, which no code
  reads.\<close>

record page_el =
  el_id :: nat
  el_background :: jstr
  el_items :: "elem list"
  el_active :: bool
  el_page :: broadcast_page

datatype node = Empty_msg | Page_el page_el

record dstate =
  d_mode :: jstr
  pages :: pagesv
  current_idx :: jint
  page_timer :: "nat option"
  page_delay :: int \<comment> \<open>the delay \<open>pageTimer\<close> was last set with\<close>
  ws :: "nat option"
  ws_reconnect :: bool
  ping_timer :: "nat option"
  clock_timer :: "nat option"
  lock_timer :: "nat option"
  font_loaded :: bool
  d_active_font :: "jstr option"
  cd_target :: "jstr option"
  cd_offset :: jint
  server_offset :: jint
  sync_started :: "jstr option"
  socks :: "ready list"
  timers :: "(nat \<times> tkind) list"
  next_id :: nat
  requests :: "request list"
  pings :: nat
  nodes :: "node list"
  font_styles :: "(nat \<times> jstr \<times> jstr) list"
  clock_label :: jstr
  fullscreen :: bool
  fs_requests :: nat

text \<open>What the code takes from the platform: date parsing, JSON parsing of the extra data, and the
  local time of day of an instant.\<close>

record env =
  date :: "jstr \<Rightarrow> jint"
  json :: "jstr \<Rightarrow> extra"
  time_of_day :: "int \<Rightarrow> nat \<times> nat \<times> nat"

section \<open>Timers\<close>

definition add_timer :: "tkind \<Rightarrow> dstate \<Rightarrow> dstate" where
  "add_timer k s = s\<lparr>timers := timers s @ [(next_id s, k)], next_id := Suc (next_id s)\<rparr>"

definition clear_timer :: "nat option \<Rightarrow> dstate \<Rightarrow> dstate" where
  "clear_timer t s = (case t of None \<Rightarrow> s | Some i \<Rightarrow> s\<lparr>timers := filter (\<lambda>x. fst x \<noteq> i) (timers s)\<rparr>)"

definition sock_ready :: "nat option \<Rightarrow> dstate \<Rightarrow> ready option" where
  "sock_ready w s = (case w of None \<Rightarrow> None | Some i \<Rightarrow> if i < length (socks s) then Some (socks s ! i) else None)"

section \<open>Requests\<close>

definition fetch :: "request \<Rightarrow> dstate \<Rightarrow> dstate" where
  "fetch r s = s\<lparr>requests := requests s @ [r]\<rparr>"

definition load_font :: "dstate \<Rightarrow> dstate" where
  "load_font s = fetch R_config s"

definition fetch_countdown :: "dstate \<Rightarrow> dstate" where
  "fetch_countdown s = fetch R_countdown s"

definition poll_pages_http :: "dstate \<Rightarrow> dstate" where
  "poll_pages_http s = fetch_countdown (fetch R_pages s)"

section \<open>Pages\<close>

definition schedule_next :: "broadcast_page option \<Rightarrow> dstate \<Rightarrow> dstate" where
  "schedule_next p s =
     (let s1 = clear_timer (page_timer s) s in
      if ncmp (\<le>) (plen (pages s1)) (Some 1) then s1
      else if sock_ready (ws s1) s1 = Some OPEN then s1
      else let dur = (case p of None \<Rightarrow> 10000 | Some q \<Rightarrow> if duration_ms q \<noteq> 0 then duration_ms q else 10000) in
        (add_timer Tk_page s1)\<lparr>page_timer := Some (next_id s1), page_delay := dur\<rparr>)"

definition show_empty :: "dstate \<Rightarrow> dstate" where
  "show_empty s = (clear_timer (page_timer s) s)\<lparr>nodes := [Empty_msg]\<rparr>"

text \<open>\<open>c.querySelector(".broadcast-page.active")\<close> and the removal of its class.\<close>

fun first_active :: "node list \<Rightarrow> nat option" where
  "first_active [] = None"
| "first_active (Empty_msg # ns) = first_active ns"
| "first_active (Page_el p # ns) = (if el_active p then Some (el_id p) else first_active ns)"

fun deactivate :: "nat \<Rightarrow> node \<Rightarrow> node" where
  "deactivate i Empty_msg = Empty_msg"
| "deactivate i (Page_el p) = Page_el (if el_id p = i then p\<lparr>el_active := False\<rparr> else p)"

definition retire_old :: "dstate \<Rightarrow> dstate" where
  "retire_old s = (case first_active (nodes s) of
     None \<Rightarrow> s
   | Some i \<Rightarrow> add_timer (Tk_remove i) (s\<lparr>nodes := map (deactivate i) (nodes s)\<rparr>))"

definition append_page :: "broadcast_page \<Rightarrow> elem list \<Rightarrow> dstate \<Rightarrow> dstate" where
  "append_page p es s =
     s\<lparr>nodes := nodes s @ [Page_el \<lparr>el_id = next_id s,
         el_background = (if page_bg_color p = [] then js ''#000'' else page_bg_color p),
         el_items = es, el_active = True, el_page = p\<rparr>],
       next_id := Suc (next_id s)\<rparr>"

definition page_items :: "broadcast_page \<Rightarrow> broadcast_item list" where
  "page_items p = (case items p of None \<Rightarrow> [] | Some its \<Rightarrow> its)"

definition render_current_page :: "env \<Rightarrow> dstate \<Rightarrow> dstate" where
  "render_current_page \<epsilon> s =
     (if plen (pages s) = Some 0 then s
      else case page_at (pages s) (current_idx s) of
        None \<Rightarrow> s \<comment> \<open>\<open>page.bg_color\<close> of \<open>undefined\<close> throws\<close>
      | Some p \<Rightarrow>
          (case render_items (json \<epsilon>) (font_loaded s) (page_items p) of
             None \<Rightarrow> s \<comment> \<open>an item throws before the page is appended\<close>
           | Some es \<Rightarrow> schedule_next (Some p) (append_page p es (retire_old s))))"

section \<open>The socket\<close>

definition close_sock :: "nat option \<Rightarrow> dstate \<Rightarrow> dstate" where
  "close_sock w s = (case sock_ready w s of
     Some r \<Rightarrow> if r = CONNECTING \<or> r = OPEN then s\<lparr>socks := (socks s)[the w := CLOSING]\<rparr> else s
   | None \<Rightarrow> s)"

definition stop_ping :: "dstate \<Rightarrow> dstate" where
  "stop_ping s = (if ping_timer s = None then s else (clear_timer (ping_timer s) s)\<lparr>ping_timer := None\<rparr>)"

definition connect_ws :: "dstate \<Rightarrow> dstate" where
  "connect_ws s =
     (let s1 = stop_ping (close_sock (ws s) s) in
      s1\<lparr>ws := Some (length (socks s1)), socks := socks s1 @ [CONNECTING]\<rparr>)"

definition on_open :: "nat \<Rightarrow> dstate \<Rightarrow> dstate" where
  "on_open i s =
     (let s1 = s\<lparr>socks := (socks s)[i := OPEN]\<rparr>;
          s2 = (if \<not> ws_reconnect s1 then (poll_pages_http s1)\<lparr>ws_reconnect := True\<rparr> else s1);
          s3 = clear_timer (page_timer s2) s2
      in (add_timer Tk_ping s3)\<lparr>ping_timer := Some (next_id s3)\<rparr>)"

definition on_close :: "nat \<Rightarrow> dstate \<Rightarrow> dstate" where
  "on_close i s =
     (let s1 = stop_ping (s\<lparr>socks := (socks s)[i := CLOSED]\<rparr>);
          s2 = (if ncmp (>) (plen (pages s1)) (Some 1)
                then schedule_next (case page_at (pages s1) (current_idx s1) of
                                      None \<Rightarrow> page_at (pages s1) (Some 0) | Some p \<Rightarrow> Some p) s1
                else s1)
      in add_timer Tk_reconnect s2)"

record ws_msg =
  m_type :: jstr
  m_pages :: "broadcast_page list option"
  m_server_time :: "jstr option"
  m_started_at :: "jstr option"
  m_page_index :: "int option"

definition note_server_time :: "env \<Rightarrow> int \<Rightarrow> jstr option \<Rightarrow> dstate \<Rightarrow> dstate" where
  "note_server_time \<epsilon> now st s =
     (if truthy_str st then s\<lparr>server_offset := nlift2 (-) (Some now) (date \<epsilon> (the st))\<rparr> else s)"

definition note_started :: "jstr option \<Rightarrow> dstate \<Rightarrow> dstate" where
  "note_started st s = (if truthy_str st then s\<lparr>sync_started := st\<rparr> else s)"

definition handle_ws_message :: "env \<Rightarrow> int \<Rightarrow> ws_msg \<Rightarrow> dstate \<Rightarrow> dstate" where
  "handle_ws_message \<epsilon> now msg s0 =
     (let s = note_started (m_started_at msg) (note_server_time \<epsilon> now (m_server_time msg) s0) in
      if m_type msg = js ''pages_updated'' \<and> m_pages msg \<noteq> None then
        (let ps = the (m_pages msg);
             s1 = (fetch_countdown (load_font s))\<lparr>pages := Arr ps\<rparr>
         in if ps = [] then show_empty s1
            else render_current_page \<epsilon> (s1\<lparr>current_idx := keep_index (Arr ps) (current_idx s1)\<rparr>))
      else if m_type msg = js ''page_switch'' then
        (case m_page_index msg of
           None \<Rightarrow> s
         | Some idx \<Rightarrow>
             (if ncmp (>) (plen (pages s)) (Some 0) \<and> 0 \<le> idx \<and> ncmp (<) (Some idx) (plen (pages s))
                 \<and> Some idx \<noteq> current_idx s
              then render_current_page \<epsilon> (s\<lparr>current_idx := Some idx\<rparr>) else s))
      else if m_type msg = js ''sync_reset'' then
        (let s1 = s\<lparr>sync_started := m_started_at msg\<rparr> in
         if ncmp (>) (plen (pages s1)) (Some 0)
         then render_current_page \<epsilon> (s1\<lparr>current_idx := Some 0\<rparr>) else s1)
      else s)"

section \<open>Answers of requests\<close>

text \<open>The body of \<open>/api/broadcast/pages\<close>: an array of pages, or an object whose \<open>pages\<close> may be
  missing (an error report).\<close>

datatype pages_body = Body_array "broadcast_page list"
  | Body_obj "broadcast_page list option" "jstr option" "jstr option"

definition on_pages_body :: "env \<Rightarrow> int \<Rightarrow> pages_body option \<Rightarrow> dstate \<Rightarrow> dstate" where
  "on_pages_body \<epsilon> now body s =
     (case body of
        None \<Rightarrow> s
      | Some b \<Rightarrow>
          (let new_pages = (case b of Body_array ps \<Rightarrow> Arr ps | Body_obj (Some ps) _ _ \<Rightarrow> Arr ps
                              | Body_obj None _ _ \<Rightarrow> NonArr);
               st = (case b of Body_array _ \<Rightarrow> None | Body_obj _ t _ \<Rightarrow> t);
               sa = (case b of Body_array _ \<Rightarrow> None | Body_obj _ _ a \<Rightarrow> a);
               s1 = (note_started sa (note_server_time \<epsilon> now st s))\<lparr>pages := new_pages\<rparr>
           in if plen (pages s1) = Some 0 then show_empty s1
              else render_current_page \<epsilon> (s1\<lparr>current_idx :=
                     calc_synced_page_index (date \<epsilon>) now (server_offset s1) (sync_started s1)
                       (pages s1) (current_idx s1)\<rparr>)))"

definition on_countdown_body :: "env \<Rightarrow> int \<Rightarrow> (jstr option \<times> jstr option) option \<Rightarrow> dstate \<Rightarrow> dstate" where
  "on_countdown_body \<epsilon> now body s =
     (case body of
        None \<Rightarrow> s
      | Some (target, st) \<Rightarrow>
          (let s1 = s\<lparr>cd_target := (if truthy_str target then target else None)\<rparr> in
           if truthy_str st then s1\<lparr>cd_offset := nlift2 (-) (Some now) (date \<epsilon> (the st))\<rparr> else s1))"

fun map_elems :: "(elem \<Rightarrow> elem) \<Rightarrow> node \<Rightarrow> node" where
  "map_elems f Empty_msg = Empty_msg"
| "map_elems f (Page_el p) = Page_el (p\<lparr>el_items := map f (el_items p)\<rparr>)"

definition on_config_body :: "jstr option option \<Rightarrow> dstate \<Rightarrow> dstate" where
  "on_config_body body s =
     (case body of
        None \<Rightarrow> s
      | Some af \<Rightarrow>
          (let f = str_or af [] in
           if d_active_font s = Some f then s
           else let s1 = s\<lparr>d_active_font := Some f\<rparr>;
                    existing = (case font_styles s1 of [] \<Rightarrow> None | (i, _) # _ \<Rightarrow> Some i)
                in if f = [] then
                     s1\<lparr>font_styles := tl (font_styles s1), font_loaded := False,
                        nodes := map (map_elems (\<lambda>e. e\<lparr>style := (style e)(''fontFamily'' \<mapsto> Txt [])\<rparr>)) (nodes s1)\<rparr>
                   else fetch (R_fonts f existing) s1))"

definition on_fonts_body :: "jstr \<Rightarrow> nat option \<Rightarrow> broadcast_font list option \<Rightarrow> dstate \<Rightarrow> dstate" where
  "on_fonts_body cfg existing body s =
     (case body of
        None \<Rightarrow> s
      | Some fonts \<Rightarrow>
          (if d_active_font s \<noteq> Some cfg then s
           else case find_first (\<lambda>x. font_filename x = cfg) fonts of
             None \<Rightarrow> s
           | Some f \<Rightarrow>
               (let fmt = (if font_format f = js ''ttf'' then js ''truetype'' else font_format f);
                    i = (case existing of Some e \<Rightarrow> e | None \<Rightarrow> next_id s)
                in s\<lparr>font_styles := filter (\<lambda>x. fst x \<noteq> i) (font_styles s) @ [(i, font_filename f, fmt)],
                     next_id := Suc (next_id s), font_loaded := True,
                     nodes := map (map_elems (\<lambda>e. e\<lparr>style := (style e)(''fontFamily'' \<mapsto> broadcast_font_css)\<rparr>)) (nodes s)\<rparr>)))"

section \<open>Timer callbacks and start\<close>

definition request_fs :: "dstate \<Rightarrow> dstate" where
  "request_fs s = s\<lparr>fs_requests := Suc (fs_requests s)\<rparr>"

definition on_page_timer :: "env \<Rightarrow> dstate \<Rightarrow> dstate" where
  "on_page_timer \<epsilon> s =
     render_current_page \<epsilon> (s\<lparr>current_idx :=
       (case (current_idx s, plen (pages s)) of (Some c, Some n) \<Rightarrow> js_rem (c + 1) n | _ \<Rightarrow> None)\<rparr>)"

definition on_ping_timer :: "dstate \<Rightarrow> dstate" where
  "on_ping_timer s = (if sock_ready (ws s) s = Some OPEN then s\<lparr>pings := Suc (pings s)\<rparr> else s)"

definition on_clock_timer :: "env \<Rightarrow> int \<Rightarrow> dstate \<Rightarrow> dstate" where
  "on_clock_timer \<epsilon> now s =
     (case time_of_day \<epsilon> now of (h, m, sec) \<Rightarrow>
        let t = clock_text h m sec; cd = countdown_text (date \<epsilon>) now (cd_target s) (cd_offset s)
        in s\<lparr>clock_label := t, nodes := map (map_elems (tick_elem t cd)) (nodes s)\<rparr>)"

fun not_el :: "nat \<Rightarrow> node \<Rightarrow> bool" where
  "not_el i Empty_msg = True"
| "not_el i (Page_el p) = (el_id p \<noteq> i)"

definition fire :: "env \<Rightarrow> int \<Rightarrow> nat \<Rightarrow> tkind \<Rightarrow> dstate \<Rightarrow> dstate" where
  "fire \<epsilon> now t k s =
     (let once = clear_timer (Some t) s in
      case k of
        Tk_page \<Rightarrow> on_page_timer \<epsilon> once
      | Tk_reconnect \<Rightarrow> connect_ws once
      | Tk_remove i \<Rightarrow> once\<lparr>nodes := filter (not_el i) (nodes once)\<rparr>
      | Tk_ping \<Rightarrow> on_ping_timer s
      | Tk_clock \<Rightarrow> on_clock_timer \<epsilon> now s
      | Tk_lock \<Rightarrow> if fullscreen s then s else request_fs s)"

definition blank :: "jstr \<Rightarrow> dstate" where
  "blank m = \<lparr>d_mode = m, pages = Arr [], current_idx = Some (- 1), page_timer = None, page_delay = 0, ws = None,
     ws_reconnect = False, ping_timer = None, clock_timer = None, lock_timer = None,
     font_loaded = False, d_active_font = None, cd_target = None, cd_offset = Some 0,
     server_offset = Some 0, sync_started = None, socks = [], timers = [], next_id = 0,
     requests = [], pings = 0, nodes = [], font_styles = [], clock_label = [],
     fullscreen = False, fs_requests = 0\<rparr>"

definition init_global_clock :: "dstate \<Rightarrow> dstate" where
  "init_global_clock s =
     (let s1 = clear_timer (clock_timer s) s in
      (add_timer Tk_clock s1)\<lparr>clock_timer := Some (next_id s1)\<rparr>)"

definition start_fullscreen_lock :: "dstate \<Rightarrow> dstate" where
  "start_fullscreen_lock s =
     (let s1 = request_fs s in (add_timer Tk_lock s1)\<lparr>lock_timer := Some (next_id s1)\<rparr>)"

definition init_display :: "jstr \<Rightarrow> dstate" where
  "init_display m = connect_ws (start_fullscreen_lock (init_global_clock (load_font (blank m))))"

section \<open>Events\<close>

datatype ev = Ws_open nat | Ws_message nat ws_msg | Ws_closing nat | Ws_closed nat
  | Timer nat | Resp_pages "pages_body option" | Resp_countdown "(jstr option \<times> jstr option) option"
  | Resp_config "jstr option option" | Resp_fonts jstr "nat option" "broadcast_font list option"
  | Click | Fs_change bool

definition answered :: "request \<Rightarrow> dstate \<Rightarrow> dstate" where
  "answered r s = s\<lparr>requests := remove1 r (requests s)\<rparr>"

fun dstep :: "env \<Rightarrow> int \<times> ev \<Rightarrow> dstate \<Rightarrow> dstate" where
  "dstep \<epsilon> (now, Ws_open i) s = on_open i s"
| "dstep \<epsilon> (now, Ws_message i m) s = handle_ws_message \<epsilon> now m s"
| "dstep \<epsilon> (now, Ws_closing i) s = s\<lparr>socks := (socks s)[i := CLOSING]\<rparr>"
| "dstep \<epsilon> (now, Ws_closed i) s = on_close i s"
| "dstep \<epsilon> (now, Timer t) s = (case map_of (timers s) t of None \<Rightarrow> s | Some k \<Rightarrow> fire \<epsilon> now t k s)"
| "dstep \<epsilon> (now, Resp_pages b) s = on_pages_body \<epsilon> now b (answered R_pages s)"
| "dstep \<epsilon> (now, Resp_countdown b) s = on_countdown_body \<epsilon> now b (answered R_countdown s)"
| "dstep \<epsilon> (now, Resp_config b) s = on_config_body b (answered R_config s)"
| "dstep \<epsilon> (now, Resp_fonts c x b) s = on_fonts_body c x b (answered (R_fonts c x) s)"
| "dstep \<epsilon> (now, Click) s = request_fs s"
| "dstep \<epsilon> (now, Fs_change b) s = s\<lparr>fullscreen := b\<rparr>"

text \<open>What the browser can deliver: a socket opens once while connecting, delivers frames only while
  open, may enter the closing handshake, and closes once; a pending timer fires; a request in
  flight is answered.\<close>

definition sock_in :: "dstate \<Rightarrow> nat \<Rightarrow> ready list \<Rightarrow> bool" where
  "sock_in s i rs \<longleftrightarrow> i < length (socks s) \<and> socks s ! i \<in> set rs"

fun denabled :: "dstate \<Rightarrow> int \<times> ev \<Rightarrow> bool" where
  "denabled s (now, Ws_open i) = sock_in s i [CONNECTING]"
| "denabled s (now, Ws_message i m) = sock_in s i [OPEN]"
| "denabled s (now, Ws_closing i) = sock_in s i [OPEN]"
| "denabled s (now, Ws_closed i) = sock_in s i [CONNECTING, OPEN, CLOSING]"
| "denabled s (now, Timer t) = (t \<in> fst ` set (timers s))"
| "denabled s (now, Resp_pages b) = (R_pages \<in> set (requests s))"
| "denabled s (now, Resp_countdown b) = (R_countdown \<in> set (requests s))"
| "denabled s (now, Resp_config b) = (R_config \<in> set (requests s))"
| "denabled s (now, Resp_fonts c x b) = (R_fonts c x \<in> set (requests s))"
| "denabled s (now, Click) = True"
| "denabled s (now, Fs_change b) = True"

end
