(* ===== verification/Display_Control.thy ===== *)
theory Display_Control
  imports Display_Machine
begin

text \<open>
  The control invariant of the display: one connection attempt at a time, one keep-alive interval
  exactly while a socket is up, at most one page timer and none while the server drives the page.
\<close>

definition last_ready :: "dstate \<Rightarrow> ready" where
  "last_ready s = last (socks s)"

text \<open>The timers are seen through the set of pending ids of a kind.\<close>

definition pending :: "tkind \<Rightarrow> dstate \<Rightarrow> nat set" where
  "pending k s = {t. (t, k) \<in> set (timers s)}"

definition timer_ids_ok :: "dstate \<Rightarrow> bool" where
  "timer_ids_ok s \<longleftrightarrow> distinct (map fst (timers s)) \<and> (\<forall>x\<in>set (timers s). fst x < next_id s)"

text \<open>The variable \<open>v\<close> owns the timers of kind \<open>k\<close>: the id it holds was issued and is not the id of
  a timer of another kind, and every pending timer of that kind is the one it holds.\<close>

definition owns :: "nat option \<Rightarrow> tkind \<Rightarrow> dstate \<Rightarrow> bool" where
  "owns v k s \<longleftrightarrow> (\<forall>t. v = Some t \<longrightarrow> t < next_id s \<and> (\<forall>k'. k' \<noteq> k \<longrightarrow> t \<notin> pending k' s))
     \<and> pending k s \<subseteq> set_option v"

definition socks_ok :: "dstate \<Rightarrow> bool" where
  "socks_ok s \<longleftrightarrow> socks s \<noteq> [] \<and> ws s = Some (length (socks s) - 1) \<and> (\<forall>r\<in>set (butlast (socks s)). r = CLOSED)"

definition link_ok :: "ready \<Rightarrow> dstate \<Rightarrow> bool" where
  "link_ok r s \<longleftrightarrow>
     (r = OPEN \<longrightarrow> (\<exists>t. ping_timer s = Some t \<and> t \<in> pending Tk_ping s) \<and> pending Tk_page s = {})
   \<and> (r = CLOSING \<longrightarrow> ping_timer s \<noteq> None)
   \<and> (r = CONNECTING \<or> r = CLOSED \<longrightarrow> ping_timer s = None)
   \<and> (r = CLOSED \<longrightarrow> (\<exists>t. pending Tk_reconnect s = {t}))
   \<and> (r \<noteq> CLOSED \<longrightarrow> pending Tk_reconnect s = {})"

text \<open>What every operation keeps, whatever it does to the socket.\<close>

definition base_inv :: "dstate \<Rightarrow> bool" where
  "base_inv s \<longleftrightarrow> timer_ids_ok s \<and> owns (page_timer s) Tk_page s \<and> owns (ping_timer s) Tk_ping s"

definition control_inv :: "dstate \<Rightarrow> bool" where
  "control_inv s \<longleftrightarrow> base_inv s \<and> socks_ok s \<and> link_ok (last_ready s) s"

section \<open>Frame\<close>

text \<open>The fields the invariant reads. An operation that leaves them alone keeps it.\<close>

definition ctl :: "dstate \<Rightarrow> nat option \<times> nat option \<times> nat option \<times> ready list \<times> (nat \<times> tkind) list" where
  "ctl s = (page_timer s, ping_timer s, ws s, socks s, timers s)"

lemma pending_frame: "timers s' = timers s \<Longrightarrow> pending k s' = pending k s"
  by (simp add: pending_def)

lemma owns_frame: "owns v k s \<Longrightarrow> timers s' = timers s \<Longrightarrow> next_id s \<le> next_id s' \<Longrightarrow> owns v k s'"
  by (fastforce simp: owns_def pending_frame [of s' s])

lemma ids_frame: "timer_ids_ok s \<Longrightarrow> timers s' = timers s \<Longrightarrow> next_id s \<le> next_id s' \<Longrightarrow> timer_ids_ok s'"
  by (auto simp: timer_ids_ok_def)

lemma control_inv_frame:
  assumes "control_inv s" "ctl s' = ctl s" "next_id s \<le> next_id s'"
  shows "control_inv s'"
proof -
  have e: "page_timer s' = page_timer s" "ping_timer s' = ping_timer s" "ws s' = ws s" "socks s' = socks s"
    "timers s' = timers s" using assms(2) by (simp_all add: ctl_def)
  note b = assms(1) [unfolded control_inv_def base_inv_def]
  have "base_inv s'" unfolding base_inv_def e(1,2)
    using b ids_frame [OF _ e(5) assms(3)] owns_frame [OF _ e(5) assms(3)] by blast
  moreover have "socks_ok s'" "link_ok (last_ready s') s'"
    using b by (simp_all add: socks_ok_def link_ok_def last_ready_def e pending_frame [OF e(5)])
  ultimately show ?thesis by (simp add: control_inv_def)
qed

lemma ctl_upd [simp]:
  "ctl (s\<lparr>pages := a\<rparr>) = ctl s" "ctl (s\<lparr>current_idx := b\<rparr>) = ctl s" "ctl (s\<lparr>ws_reconnect := c\<rparr>) = ctl s"
  "ctl (s\<lparr>clock_timer := d\<rparr>) = ctl s" "ctl (s\<lparr>lock_timer := d\<rparr>) = ctl s" "ctl (s\<lparr>font_loaded := c\<rparr>) = ctl s"
  "ctl (s\<lparr>d_active_font := e\<rparr>) = ctl s" "ctl (s\<lparr>cd_target := e\<rparr>) = ctl s" "ctl (s\<lparr>cd_offset := b\<rparr>) = ctl s"
  "ctl (s\<lparr>server_offset := b\<rparr>) = ctl s" "ctl (s\<lparr>sync_started := e\<rparr>) = ctl s" "ctl (s\<lparr>requests := f\<rparr>) = ctl s"
  "ctl (s\<lparr>pings := g\<rparr>) = ctl s" "ctl (s\<lparr>nodes := h\<rparr>) = ctl s" "ctl (s\<lparr>font_styles := i\<rparr>) = ctl s"
  "ctl (s\<lparr>clock_label := j\<rparr>) = ctl s" "ctl (s\<lparr>fullscreen := c\<rparr>) = ctl s" "ctl (s\<lparr>fs_requests := g\<rparr>) = ctl s"
  "ctl (s\<lparr>next_id := g\<rparr>) = ctl s" "ctl (s\<lparr>page_delay := y\<rparr>) = ctl s"
  by (simp_all add: ctl_def)

lemma ctl_ops [simp]:
  "ctl (fetch r s) = ctl s" "next_id (fetch r s) = next_id s"
  "ctl (note_server_time \<epsilon> now st s) = ctl s" "next_id (note_server_time \<epsilon> now st s) = next_id s"
  "ctl (note_started st s) = ctl s" "next_id (note_started st s) = next_id s"
  "ctl (answered r s) = ctl s" "next_id (answered r s) = next_id s"
  "ctl (request_fs s) = ctl s" "next_id (request_fs s) = next_id s"
  by (simp_all add: fetch_def note_server_time_def note_started_def answered_def request_fs_def)

lemma frame_upd [inv_intros]:
  assumes "control_inv s"
  shows "control_inv (s\<lparr>pages := a\<rparr>)" "control_inv (s\<lparr>current_idx := b\<rparr>)" "control_inv (s\<lparr>ws_reconnect := c\<rparr>)"
    "control_inv (s\<lparr>nodes := h\<rparr>)" "control_inv (s\<lparr>sync_started := e\<rparr>)" "control_inv (s\<lparr>fullscreen := c\<rparr>)"
    "control_inv (s\<lparr>clock_timer := d\<rparr>)" "control_inv (s\<lparr>lock_timer := d\<rparr>)" "control_inv (s\<lparr>pings := g\<rparr>)"
    "control_inv (fetch r s)" "control_inv (note_server_time \<epsilon> now st s)" "control_inv (note_started sa s)"
    "control_inv (answered r s)" "control_inv (request_fs s)"
  by (rule control_inv_frame [OF assms]; simp)+

section \<open>Timers\<close>

lemma timers_clear: "timers (clear_timer v s) = filter (\<lambda>x. fst x \<notin> set_option v) (timers s)"
  by (cases v) (auto simp: clear_timer_def)

lemma clear_timer_fields [simp]:
  "page_timer (clear_timer v s) = page_timer s" "ping_timer (clear_timer v s) = ping_timer s"
  "ws (clear_timer v s) = ws s" "socks (clear_timer v s) = socks s" "next_id (clear_timer v s) = next_id s"
  "pages (clear_timer v s) = pages s" "current_idx (clear_timer v s) = current_idx s"
  "nodes (clear_timer v s) = nodes s" "ws_reconnect (clear_timer v s) = ws_reconnect s"
  by (cases v; simp add: clear_timer_def)+

lemma add_timer_fields [simp]:
  "page_timer (add_timer k s) = page_timer s" "ping_timer (add_timer k s) = ping_timer s"
  "ws (add_timer k s) = ws s" "socks (add_timer k s) = socks s" "next_id (add_timer k s) = Suc (next_id s)"
  "pages (add_timer k s) = pages s" "current_idx (add_timer k s) = current_idx s"
  "nodes (add_timer k s) = nodes s" "timers (add_timer k s) = timers s @ [(next_id s, k)]"
  by (simp_all add: add_timer_def)

lemma pending_clear [simp]: "pending k (clear_timer v s) = pending k s - set_option v"
  by (auto simp: pending_def timers_clear)

lemma pending_add [simp]:
  "pending k (add_timer k' s) = (if k = k' then insert (next_id s) (pending k s) else pending k s)"
  by (auto simp: pending_def)

lemma pending_upd [simp]:
  "pending k (s\<lparr>page_timer := v\<rparr>) = pending k s" "pending k (s\<lparr>ping_timer := v\<rparr>) = pending k s"
  "pending k (s\<lparr>socks := q\<rparr>) = pending k s" "pending k (s\<lparr>ws := v\<rparr>) = pending k s"
  "pending k (s\<lparr>page_delay := y\<rparr>) = pending k s"
  by (simp_all add: pending_def)

lemma pending_old: "timer_ids_ok s \<Longrightarrow> t \<in> pending k s \<Longrightarrow> t < next_id s"
  by (auto simp: timer_ids_ok_def pending_def)

lemma pending_kind: "timer_ids_ok s \<Longrightarrow> t \<in> pending k s \<Longrightarrow> t \<in> pending k' s \<Longrightarrow> k = k'"
  unfolding timer_ids_ok_def pending_def by (auto dest: eq_key_imp_eq_value)

lemma owns_upd [simp]:
  "owns w k (s\<lparr>page_timer := v\<rparr>) = owns w k s" "owns w k (s\<lparr>ping_timer := v\<rparr>) = owns w k s"
  "owns w k (s\<lparr>socks := q\<rparr>) = owns w k s" "owns w k (s\<lparr>ws := v\<rparr>) = owns w k s"
  by (simp_all add: owns_def)

lemma delay_upd [simp]:
  "control_inv (s\<lparr>page_delay := y\<rparr>) = control_inv s" "owns w k (s\<lparr>page_delay := y\<rparr>) = owns w k s"
  "timer_ids_ok (s\<lparr>page_delay := y\<rparr>) = timer_ids_ok s" "socks_ok (s\<lparr>page_delay := y\<rparr>) = socks_ok s"
  "last_ready (s\<lparr>page_delay := y\<rparr>) = last_ready s"
  by (simp_all add: owns_def timer_ids_ok_def socks_ok_def last_ready_def control_inv_def base_inv_def link_ok_def)

lemma ids_upd [simp]:
  "timer_ids_ok (s\<lparr>page_timer := v\<rparr>) = timer_ids_ok s" "timer_ids_ok (s\<lparr>ping_timer := v\<rparr>) = timer_ids_ok s"
  "timer_ids_ok (s\<lparr>socks := q\<rparr>) = timer_ids_ok s" "timer_ids_ok (s\<lparr>ws := v\<rparr>) = timer_ids_ok s"
  by (simp_all add: timer_ids_ok_def)

lemma ids_clear [simp]: "timer_ids_ok s \<Longrightarrow> timer_ids_ok (clear_timer v s)"
  by (auto simp: timer_ids_ok_def timers_clear distinct_map_filter)

lemma ids_add [simp]: "timer_ids_ok s \<Longrightarrow> timer_ids_ok (add_timer k s)"
  by (fastforce simp: timer_ids_ok_def)

lemma owns_clear [simp]: "owns w k s \<Longrightarrow> owns w k (clear_timer v s)"
  by (auto simp: owns_def)

lemma owns_add [simp]: "owns w k s \<Longrightarrow> k' \<noteq> k \<Longrightarrow> owns w k (add_timer k' s)"
  by (fastforce simp: owns_def)

lemma owns_fresh: "timer_ids_ok s \<Longrightarrow> pending k s = {} \<Longrightarrow> owns (Some (next_id s)) k (add_timer k s)"
  by (auto simp: owns_def dest: pending_old)

lemma owns_None: "owns v k s \<Longrightarrow> owns None k (clear_timer v s)"
  by (auto simp: owns_def)

text \<open>Clearing the timer a variable owns touches no other kind.\<close>

lemma owned_other: "owns v k s \<Longrightarrow> k' \<noteq> k \<Longrightarrow> pending k' s - set_option v = pending k' s"
  by (cases v) (auto simp: owns_def)

lemma owned_all: "owns v k s \<Longrightarrow> pending k s - set_option v = {}"
  by (auto simp: owns_def)

lemma controlD:
  assumes "control_inv s"
  shows "timer_ids_ok s" "owns (page_timer s) Tk_page s" "owns (ping_timer s) Tk_ping s" "socks_ok s"
    "link_ok (last_ready s) s"
  using assms by (simp_all add: control_inv_def base_inv_def)

lemma last_ready_upd [simp]:
  "last_ready (clear_timer v s) = last_ready s" "last_ready (add_timer k s) = last_ready s"
  "last_ready (s\<lparr>page_timer := v\<rparr>) = last_ready s" "last_ready (s\<lparr>ping_timer := v\<rparr>) = last_ready s"
  by (simp_all add: last_ready_def)

lemma socks_ok_upd [simp]:
  "socks_ok (clear_timer v s) = socks_ok s" "socks_ok (add_timer k s) = socks_ok s"
  "socks_ok (s\<lparr>page_timer := v\<rparr>) = socks_ok s" "socks_ok (s\<lparr>ping_timer := v\<rparr>) = socks_ok s"
  by (simp_all add: socks_ok_def)

lemma clear_page_inv [inv_intros]:
  assumes "control_inv s"
  shows "control_inv (clear_timer (page_timer s) s)"
  using controlD [OF assms] owned_other [OF controlD(2) [OF assms]] owned_all [OF controlD(2) [OF assms]]
  by (auto simp: control_inv_def base_inv_def link_ok_def)

lemma no_page_after_clear: "control_inv s \<Longrightarrow> pending Tk_page (clear_timer (page_timer s) s) = {}"
  by (simp add: owned_all controlD(2))

lemma sock_ready_last: "socks_ok s \<Longrightarrow> sock_ready (ws s) s = Some (last_ready s)"
  by (auto simp: socks_ok_def sock_ready_def last_ready_def last_conv_nth)

lemma add_other_inv [inv_intros]:
  "control_inv s \<Longrightarrow> k \<noteq> Tk_page \<Longrightarrow> k \<noteq> Tk_ping \<Longrightarrow> k \<noteq> Tk_reconnect \<Longrightarrow> control_inv (add_timer k s)"
  by (simp add: control_inv_def base_inv_def link_ok_def)

lemma set_page_timer_inv:
  assumes "control_inv s" "pending Tk_page s = {}" "last_ready s \<noteq> OPEN"
  shows "control_inv ((add_timer Tk_page s)\<lparr>page_timer := Some (next_id s)\<rparr>)"
  using controlD [OF assms(1)] assms(2,3) owns_fresh
  by (simp add: control_inv_def base_inv_def link_ok_def)

section \<open>Operations\<close>

lemma schedule_next_inv [inv_intros]:
  assumes "control_inv s"
  shows "control_inv (schedule_next p s)"
proof -
  let ?s = "clear_timer (page_timer s) s"
  have i: "control_inv ?s" using assms by (rule clear_page_inv)
  have r: "sock_ready (ws ?s) ?s = Some (last_ready ?s)"
    using i by (intro sock_ready_last controlD(4))
  show ?thesis
    using i no_page_after_clear [OF assms] r
    by (auto simp: schedule_next_def Let_def intro!: set_page_timer_inv simp del: clear_timer_fields)
qed

lemma show_empty_inv [inv_intros]: "control_inv s \<Longrightarrow> control_inv (show_empty s)"
  unfolding show_empty_def by (intro inv_intros)

lemma retire_old_inv [inv_intros]: "control_inv s \<Longrightarrow> control_inv (retire_old s)"
  by (auto simp: retire_old_def split: option.splits intro!: inv_intros)

lemma append_page_inv [inv_intros]: "control_inv s \<Longrightarrow> control_inv (append_page p es s)"
  by (erule control_inv_frame) (simp_all add: append_page_def)

lemma render_inv [inv_intros]: "control_inv s \<Longrightarrow> control_inv (render_current_page \<epsilon> s)"
  by (auto simp: render_current_page_def split: option.splits intro!: inv_intros)

lemma message_inv: "control_inv s \<Longrightarrow> control_inv (handle_ws_message \<epsilon> now m s)"
  unfolding handle_ws_message_def load_font_def fetch_countdown_def Let_def
  by (auto split: option.splits intro!: inv_intros)

lemma pages_body_inv: "control_inv s \<Longrightarrow> control_inv (on_pages_body \<epsilon> now b s)"
  unfolding on_pages_body_def Let_def by (auto split: option.splits intro!: inv_intros)

lemma countdown_body_inv: "control_inv s \<Longrightarrow> control_inv (on_countdown_body \<epsilon> now b s)"
  by (erule control_inv_frame) (auto simp: on_countdown_body_def Let_def split: option.splits)

lemma config_body_inv: "control_inv s \<Longrightarrow> control_inv (on_config_body b s)"
  by (erule control_inv_frame)
    (auto simp: on_config_body_def Let_def fetch_def split: option.splits)

lemma fonts_body_inv: "control_inv s \<Longrightarrow> control_inv (on_fonts_body c x b s)"
  by (erule control_inv_frame) (auto simp: on_fonts_body_def Let_def split: option.splits)

lemma page_timer_inv: "control_inv s \<Longrightarrow> control_inv (on_page_timer \<epsilon> s)"
  unfolding on_page_timer_def by (intro inv_intros)

lemma clear_fired_inv:
  assumes "control_inv s" "t \<in> pending k s" "k \<noteq> Tk_ping" "k \<noteq> Tk_reconnect"
  shows "control_inv (clear_timer (Some t) s)"
proof -
  have "pending k' s - {t} = pending k' s" if "k' \<noteq> k" for k'
    using pending_kind [OF controlD(1) [OF assms(1)] assms(2)] that by auto
  then show ?thesis using controlD [OF assms(1)] assms(3,4)
    by (auto simp: control_inv_def base_inv_def link_ok_def)
qed

section \<open>The socket\<close>

lemma stop_ping_fields [simp]:
  "socks (stop_ping s) = socks s" "ws (stop_ping s) = ws s" "page_timer (stop_ping s) = page_timer s"
  "next_id (stop_ping s) = next_id s" "ping_timer (stop_ping s) = None" "pages (stop_ping s) = pages s"
  "current_idx (stop_ping s) = current_idx s" "nodes (stop_ping s) = nodes s"
  by (simp_all add: stop_ping_def)

lemma pending_stop_ping [simp]: "pending k (stop_ping s) = pending k s - set_option (ping_timer s)"
  by (simp add: stop_ping_def)

lemma stop_ping_base:
  assumes "timer_ids_ok s" "owns (page_timer s) Tk_page s" "owns (ping_timer s) Tk_ping s"
  shows "base_inv (stop_ping s)"
  using assms owns_None [OF assms(3)] by (auto simp: base_inv_def stop_ping_def)

text \<open>Only the newest socket is alive, so an enabled socket event is about it.\<close>

lemma live_is_last:
  assumes "socks_ok s" "i < length (socks s)" "socks s ! i \<noteq> CLOSED"
  shows "i = length (socks s) - 1"
proof (rule ccontr)
  assume "i \<noteq> length (socks s) - 1"
  then have "i < length (butlast (socks s))" using assms(2) by simp
  then have "socks s ! i \<in> set (butlast (socks s))" by (metis nth_butlast nth_mem)
  with assms show False by (simp add: socks_ok_def)
qed

lemma live_ready:
  assumes "socks_ok s" "sock_in s i rs" "CLOSED \<notin> set rs"
  shows "i = length (socks s) - 1" "last_ready s \<in> set rs"
proof -
  have i: "i < length (socks s)" "socks s ! i \<in> set rs" using assms(2) by (auto simp: sock_in_def)
  with assms(3) have "socks s ! i \<noteq> CLOSED" by auto
  with live_is_last [OF assms(1) i(1)] show e: "i = length (socks s) - 1" by simp
  then show "last_ready s \<in> set rs"
    using i assms(1) by (auto simp: last_ready_def socks_ok_def last_conv_nth)
qed

lemma socks_update_last:
  assumes "socks_ok s" "i = length (socks s) - 1"
  shows "socks_ok (s\<lparr>socks := (socks s)[i := r]\<rparr>)" "last_ready (s\<lparr>socks := (socks s)[i := r]\<rparr>) = r"
  using assms by (auto simp: socks_ok_def last_ready_def last_list_update butlast_list_update)

lemma connect_inv:
  assumes "timer_ids_ok s" "owns (page_timer s) Tk_page s" "owns (ping_timer s) Tk_ping s"
    and "socks s = [] \<and> ws s = None \<or> socks_ok s \<and> last_ready s = CLOSED" "pending Tk_reconnect s = {}"
  shows "control_inv (connect_ws s)"
proof -
  have c: "close_sock (ws s) s = s"
    using assms(4) by (auto simp: close_sock_def sock_ready_last) (simp add: sock_ready_def)
  have closed: "\<forall>r\<in>set (socks s). r = CLOSED"
  proof (cases "socks s = []")
    case False
    then have "socks_ok s" "last (socks s) = CLOSED" using assms(4) by (auto simp: last_ready_def)
    then show ?thesis using False
      by (metis append_butlast_last_id in_set_conv_decomp insertE list.set(2) rotate1.simps(2) set_rotate1 socks_ok_def)
  qed simp
  have "base_inv (stop_ping s)" using assms(1-3) by (rule stop_ping_base)
  then show ?thesis
    using closed assms(5)
    by (simp add: connect_ws_def c Let_def control_inv_def base_inv_def socks_ok_def link_ok_def last_ready_def)
qed

lemma open_inv:
  assumes "control_inv s" "sock_in s i [CONNECTING]"
  shows "control_inv (on_open i s)"
proof -
  note d = controlD [OF assms(1)]
  have i: "i = length (socks s) - 1" "last_ready s = CONNECTING"
    using live_ready [OF d(4) assms(2)] by auto
  define s2 where "s2 = (let s1 = s\<lparr>socks := (socks s)[i := OPEN]\<rparr> in
     if \<not> ws_reconnect s1 then (poll_pages_http s1)\<lparr>ws_reconnect := True\<rparr> else s1)"
  have e: "timers s2 = timers s" "page_timer s2 = page_timer s" "ping_timer s2 = ping_timer s"
    "ws s2 = ws s" "socks s2 = (socks s)[i := OPEN]" "next_id s2 = next_id s"
    by (simp_all add: s2_def Let_def poll_pages_http_def fetch_countdown_def fetch_def)
  have p: "pending k s2 = pending k s" for k by (rule pending_frame) (rule e)
  have ids: "timer_ids_ok s2" using d(1) by (simp add: timer_ids_ok_def e)
  have ow: "owns (page_timer s2) Tk_page s2" "owns None Tk_ping s2"
    using d(2,3,5) i(2) by (auto simp: owns_def e p link_ok_def)
  have so: "socks_ok s2" "last_ready s2 = OPEN"
    using socks_update_last [OF d(4) i(1), of OPEN] by (simp_all add: socks_ok_def last_ready_def e)
  let ?s3 = "clear_timer (page_timer s2) s2"
  have no: "pending Tk_page ?s3 = {}" "pending Tk_ping ?s3 = {}" "pending Tk_reconnect ?s3 = {}"
    using ow d(5) i(2) by (auto simp: owns_def p link_ok_def)
  have "owns (Some (next_id ?s3)) Tk_ping (add_timer Tk_ping ?s3)"
    using ids no(2) by (intro owns_fresh) simp_all
  then have "control_inv ((add_timer Tk_ping ?s3)\<lparr>ping_timer := Some (next_id ?s3)\<rparr>)"
    using ids ow so no by (simp add: control_inv_def base_inv_def link_ok_def)
  then show ?thesis by (simp add: on_open_def s2_def Let_def)
qed

lemma closing_inv:
  assumes "control_inv s" "sock_in s i [OPEN]"
  shows "control_inv (s\<lparr>socks := (socks s)[i := CLOSING]\<rparr>)"
proof -
  note d = controlD [OF assms(1)]
  have i: "i = length (socks s) - 1" "last_ready s = OPEN"
    using live_ready [OF d(4) assms(2)] by auto
  show ?thesis using d i socks_update_last [OF d(4) i(1), of CLOSING]
    by (auto simp: control_inv_def base_inv_def link_ok_def)
qed

text \<open>Between the closing of the socket and the scheduling of the reconnect the state is as in
  \<^const>\<open>control_inv\<close> but for the missing reconnect timer.\<close>

definition unlinked :: "dstate \<Rightarrow> bool" where
  "unlinked s \<longleftrightarrow> base_inv s \<and> socks_ok s \<and> last_ready s = CLOSED \<and> ping_timer s = None \<and> pending Tk_reconnect s = {}"

lemma unlinked_schedule:
  assumes "unlinked s"
  shows "unlinked (schedule_next p s)"
proof -
  have own: "owns (page_timer s) Tk_page s" using assms by (simp add: unlinked_def base_inv_def)
  let ?s = "clear_timer (page_timer s) s"
  have u: "unlinked ?s" "pending Tk_page ?s = {}"
    using assms own owned_other [OF own] by (auto simp: unlinked_def base_inv_def owned_all)
  then have "owns (Some (next_id ?s)) Tk_page (add_timer Tk_page ?s)"
    by (intro owns_fresh) (simp_all add: unlinked_def base_inv_def)
  with u show ?thesis
    by (auto simp: schedule_next_def Let_def unlinked_def base_inv_def)
qed

lemma close_inv:
  assumes "control_inv s" "sock_in s i [CONNECTING, OPEN, CLOSING]"
  shows "control_inv (on_close i s)"
proof -
  note d = controlD [OF assms(1)]
  have i: "i = length (socks s) - 1" "last_ready s \<noteq> CLOSED"
    using live_ready [OF d(4) assms(2)] by auto
  let ?s1 = "stop_ping (s\<lparr>socks := (socks s)[i := CLOSED]\<rparr>)"
  have "base_inv ?s1" using d by (intro stop_ping_base) simp_all
  then have u: "unlinked ?s1"
    using socks_update_last [OF d(4) i(1), of CLOSED] d(5) i(2)
    by (auto simp: unlinked_def link_ok_def socks_ok_def last_ready_def)
  have link: "control_inv (add_timer Tk_reconnect t)" if "unlinked t" for t
    using that by (auto simp: unlinked_def control_inv_def base_inv_def link_ok_def)
  show ?thesis
    unfolding on_close_def Let_def by (rule link) (use u unlinked_schedule [OF u] in auto)
qed

section \<open>The invariant of every run\<close>

lemma map_of_pending: "map_of (timers s) t = Some k \<Longrightarrow> t \<in> pending k s"
  by (simp add: pending_def map_of_SomeD)

lemma fire_inv:
  assumes "control_inv s" "t \<in> pending k s"
  shows "control_inv (fire \<epsilon> now t k s)"
proof (cases k)
  case Tk_page
  then show ?thesis using clear_fired_inv [OF assms] by (simp add: fire_def page_timer_inv)
next
  case Tk_reconnect
  note d = controlD [OF assms(1)]
  have "last_ready s = CLOSED \<and> pending Tk_reconnect s = {t}"
    using assms(2) Tk_reconnect d(5) by (auto simp: link_ok_def)
  then show ?thesis using Tk_reconnect d
    by (auto simp: fire_def intro!: connect_inv)
next
  case (Tk_remove i)
  then show ?thesis using clear_fired_inv [OF assms] by (simp add: fire_def frame_upd)
next
  case Tk_ping
  then show ?thesis using assms by (simp add: fire_def on_ping_timer_def frame_upd)
next
  case Tk_clock
  then show ?thesis using assms
    by (auto simp: fire_def on_clock_timer_def Let_def split: prod.splits elim!: control_inv_frame)
next
  case Tk_lock
  then show ?thesis using assms by (simp add: fire_def frame_upd)
qed

lemma control_step:
  assumes "control_inv s" "denabled s e"
  shows "control_inv (dstep \<epsilon> e s)"
proof -
  obtain now v where e: "e = (now, v)" by (cases e)
  show ?thesis
    using assms unfolding e
    by (cases v) (auto split: option.splits dest: map_of_pending
        intro: fire_inv open_inv close_inv closing_inv message_inv pages_body_inv countdown_body_inv
          config_body_inv fonts_body_inv frame_upd)
qed

lemma control_init: "control_inv (init_display m)"
proof -
  let ?s = "start_fullscreen_lock (init_global_clock (load_font (blank m)))"
  have f: "timers ?s = [(0, Tk_clock), (1, Tk_lock)]" "next_id ?s = 2" "page_timer ?s = None"
    "ping_timer ?s = None" "socks ?s = []" "ws ?s = None"
    by (simp_all add: start_fullscreen_lock_def init_global_clock_def load_font_def fetch_def blank_def
        clear_timer_def request_fs_def add_timer_def Let_def)
  have p: "pending Tk_page ?s = {}" "pending Tk_ping ?s = {}" "pending Tk_reconnect ?s = {}"
    by (auto simp: pending_def f)
  show ?thesis unfolding init_display_def
    by (rule connect_inv) (simp_all add: f p timer_ids_ok_def owns_def)
qed

definition d_reach :: "env \<Rightarrow> jstr \<Rightarrow> dstate \<Rightarrow> bool" where
  "d_reach \<epsilon> m = reach (\<lambda>s. s = init_display m) denabled (dstep \<epsilon>)"

interpretation display_control: invariant_machine "\<lambda>s. s = init_display m" denabled "dstep \<epsilon>" control_inv
  for m \<epsilon>
  by unfold_locales (simp_all add: control_init control_step)

lemma d_reach_control: "d_reach \<epsilon> m s \<Longrightarrow> control_inv s"
  unfolding d_reach_def by (rule display_control.inv_reach)

section \<open>Properties\<close>

definition live_socks :: "dstate \<Rightarrow> nat set" where
  "live_socks s = {i. i < length (socks s) \<and> socks s ! i \<noteq> CLOSED}"

lemma live_socks_eq:
  assumes "socks_ok s"
  shows "live_socks s = (if last_ready s = CLOSED then {} else {length (socks s) - 1})"
proof -
  have ne: "socks s \<noteq> []" using assms by (simp add: socks_ok_def)
  then have l: "socks s ! (length (socks s) - 1) = last_ready s" by (simp add: last_ready_def last_conv_nth)
  have "i = length (socks s) - 1 \<and> last_ready s \<noteq> CLOSED" if "i \<in> live_socks s" for i
    using live_is_last [OF assms, of i] that l by (auto simp: live_socks_def)
  moreover have "length (socks s) - 1 \<in> live_socks s" if "last_ready s \<noteq> CLOSED"
    using that l ne by (auto simp: live_socks_def)
  ultimately show ?thesis by auto
qed

text \<open>C2: however sockets fail and reconnect, there is always exactly one of a live socket and a
  scheduled reconnect: attempts neither pile up nor stop.\<close>

theorem one_connection:
  assumes "d_reach \<epsilon> m s"
  shows "card (live_socks s) + card (pending Tk_reconnect s) = 1"
proof -
  note d = controlD [OF d_reach_control [OF assms]]
  show ?thesis using live_socks_eq [OF d(4)] d(5) by (auto simp: link_ok_def)
qed

lemma card_pending: "owns v k s \<Longrightarrow> card (pending k s) \<le> 1"
  by (cases v) (auto simp: owns_def intro: card_mono [of "{_}", simplified])

text \<open>At most one local page timer is pending, and none while a socket is open, so the server's
  switches never compete with the local carousel; and the keep-alive interval runs exactly once
  while a socket is open and never outlives it.\<close>

theorem timers_follow_socket:
  assumes "d_reach \<epsilon> m s"
  shows "card (pending Tk_page s) \<le> 1 \<and> card (pending Tk_ping s) \<le> 1
       \<and> (\<forall>i\<in>live_socks s. socks s ! i = OPEN \<longrightarrow> pending Tk_page s = {} \<and> card (pending Tk_ping s) = 1)
       \<and> (live_socks s = {} \<longrightarrow> pending Tk_ping s = {})"
proof -
  note d = controlD [OF d_reach_control [OF assms]]
  have le: "card (pending Tk_page s) \<le> 1" "card (pending Tk_ping s) \<le> 1"
    using card_pending d(2,3) by blast+
  have "pending Tk_page s = {} \<and> card (pending Tk_ping s) = 1" if "last_ready s = OPEN"
  proof -
    obtain t where t: "ping_timer s = Some t" "t \<in> pending Tk_ping s" and p: "pending Tk_page s = {}"
      using d(5) \<open>last_ready s = OPEN\<close> by (auto simp: link_ok_def)
    then have "pending Tk_ping s = {t}" using d(3) by (auto simp: owns_def)
    with p show ?thesis by simp
  qed
  moreover have "pending Tk_ping s = {}" if "last_ready s = CLOSED"
    using d(3,5) that by (auto simp: link_ok_def owns_def)
  moreover have "socks s ! (length (socks s) - 1) = last_ready s"
    using d(4) by (simp add: socks_ok_def last_ready_def last_conv_nth)
  ultimately show ?thesis using le live_socks_eq [OF d(4)] by auto
qed

section \<open>Witnesses\<close>

definition demo_env :: env where
  "demo_env = \<lparr>date = demo_date, json = (\<lambda>_. Extra_error), time_of_day = (\<lambda>_. (0, 0, 0))\<rparr>"

definition demo_run :: "(int \<times> ev) list" where
  "demo_run = [(0, Ws_open 0), (5, Ws_closed 0), (5000, Timer 3), (5010, Ws_open 1)]"

lemma demo_run_ok: "run_ok denabled (dstep demo_env) demo_run (init_display (js ''before''))"
  by code_simp

lemma demo_reach: "d_reach demo_env (js ''before'') (run (dstep demo_env) demo_run (init_display (js ''before'')))"
  unfolding d_reach_def by (rule reach_runI) (simp_all add: demo_run_ok)

lemma one_connection_witness:
  "card (live_socks (run (dstep demo_env) demo_run (init_display (js ''before''))))
   + card (pending Tk_reconnect (run (dstep demo_env) demo_run (init_display (js ''before'')))) = 1"
  by (rule one_connection [OF demo_reach])

lemma timers_follow_socket_witness:
  "card (pending Tk_page (run (dstep demo_env) demo_run (init_display (js ''before'')))) \<le> 1"
  using timers_follow_socket [OF demo_reach] by simp

end
