(* ===== verification/Display_View.thy ===== *)
theory Display_View
  imports Display_Control
begin

text \<open>
  What the audience sees. The view invariant ties the element with class \<open>active\<close> in the container
  to the variables \<open>pages\<close> and \<open>currentIdx\<close>. It holds in every run in which the server answers
  with lists of pages that can be drawn; the last section shows what a failed page request does.
\<close>

fun els :: "node list \<Rightarrow> page_el list" where
  "els [] = []"
| "els (Empty_msg # ns) = els ns"
| "els (Page_el p # ns) = p # els ns"

definition actives :: "node list \<Rightarrow> page_el list" where
  "actives ns = filter el_active (els ns)"

definition shown_pages :: "dstate \<Rightarrow> broadcast_page list" where
  "shown_pages s = map el_page (actives (nodes s))"

definition wf_nodes :: "dstate \<Rightarrow> bool" where
  "wf_nodes s \<longleftrightarrow> distinct (map el_id (els (nodes s))) \<and> (\<forall>p\<in>set (els (nodes s)). el_id p < next_id s)
     \<and> (\<forall>i. pending (Tk_remove i) s \<noteq> {} \<longrightarrow> i < next_id s \<and> (\<forall>p\<in>set (actives (nodes s)). el_id p \<noteq> i))"

definition drawable :: "env \<Rightarrow> broadcast_page list \<Rightarrow> bool" where
  "drawable \<epsilon> ps \<longleftrightarrow> (\<forall>p\<in>set ps. \<not> (\<exists>it\<in>set (page_items p).
      item_type it = js ''scrolling_notice'' \<and> json \<epsilon> (extra_json it) = Extra_null))"

definition view_inv :: "env \<Rightarrow> dstate \<Rightarrow> bool" where
  "view_inv \<epsilon> s \<longleftrightarrow> wf_nodes s \<and>
     (\<exists>ps i. pages s = Arr ps \<and> drawable \<epsilon> ps \<and> current_idx s = Some i
        \<and> (ps = [] \<longrightarrow> shown_pages s = [] \<and> pending Tk_page s = {})
        \<and> (ps \<noteq> [] \<longrightarrow> 0 \<le> i \<and> i < int (length ps) \<and> shown_pages s = [ps ! nat i]))"

section \<open>The container\<close>

lemma els_append [simp]: "els (ns @ ms) = els ns @ els ms"
  by (induction ns rule: els.induct) auto

lemma actives_append [simp]: "actives (ns @ ms) = actives ns @ actives ms"
  by (simp add: actives_def)

lemma first_active_Some: "first_active ns = Some i \<Longrightarrow> \<exists>p qs. actives ns = p # qs \<and> el_id p = i"
  by (induction ns rule: first_active.induct) (auto simp: actives_def split: if_splits)

lemma first_active_None: "first_active ns = None \<Longrightarrow> actives ns = []"
  by (induction ns rule: first_active.induct) (auto simp: actives_def split: if_splits)

lemma els_deactivate:
  "els (map (deactivate i) ns) = map (\<lambda>p. if el_id p = i then p\<lparr>el_active := False\<rparr> else p) (els ns)"
  by (induction ns rule: els.induct) auto

lemma ids_deactivate [simp]: "map el_id (els (map (deactivate i) ns)) = map el_id (els ns)"
  by (induction ns rule: els.induct) auto

lemma actives_deactivate: "actives (map (deactivate i) ns) = filter (\<lambda>p. el_id p \<noteq> i) (actives ns)"
  by (induction ns rule: els.induct) (auto simp: actives_def)

lemma els_map_elems: "map el_id (els (map (map_elems f) ns)) = map el_id (els ns)"
  by (induction ns rule: els.induct) auto

lemma actives_map_elems:
  "map el_page (actives (map (map_elems f) ns)) = map el_page (actives ns)"
  "map el_id (actives (map (map_elems f) ns)) = map el_id (actives ns)"
  by (induction ns rule: els.induct) (auto simp: actives_def)

lemma els_filter: "els (filter (not_el i) ns) = filter (\<lambda>p. el_id p \<noteq> i) (els ns)"
  by (induction ns rule: els.induct) auto

lemma actives_subset: "set (actives ns) \<subseteq> set (els ns)"
  by (auto simp: actives_def)

lemma wf_ids:
  "wf_nodes s \<longleftrightarrow> distinct (map el_id (els (nodes s))) \<and> (\<forall>i\<in>set (map el_id (els (nodes s))). i < next_id s)
     \<and> (\<forall>i. pending (Tk_remove i) s \<noteq> {} \<longrightarrow> i < next_id s \<and> i \<notin> set (map el_id (actives (nodes s))))"
  by (auto simp: wf_nodes_def)

lemma wf_frame:
  assumes "wf_nodes s" "map el_id (els (nodes s')) = map el_id (els (nodes s))"
    "set (map el_id (actives (nodes s'))) \<subseteq> set (map el_id (actives (nodes s)))"
    "next_id s \<le> next_id s'" "\<And>i. pending (Tk_remove i) s' \<subseteq> pending (Tk_remove i) s"
  shows "wf_nodes s'"
  using assms unfolding wf_ids by (metis (no_types, lifting) less_le_trans subset_empty subset_eq)

section \<open>Drawing the current page\<close>

lemma schedule_fields [simp]:
  "nodes (schedule_next p s) = nodes s" "pages (schedule_next p s) = pages s"
  "current_idx (schedule_next p s) = current_idx s"
  by (simp_all add: schedule_next_def Let_def)

lemma schedule_next_id: "next_id s \<le> next_id (schedule_next p s)"
  by (simp add: schedule_next_def Let_def)

lemma schedule_pending: "k \<noteq> Tk_page \<Longrightarrow> pending k (schedule_next p s) \<subseteq> pending k s"
  by (auto simp: schedule_next_def Let_def)

lemma schedule_wf: "wf_nodes s \<Longrightarrow> wf_nodes (schedule_next p s)"
  by (erule wf_frame) (simp_all add: schedule_next_id schedule_pending)

lemma drawable_render:
  assumes "drawable \<epsilon> ps" "p \<in> set ps"
  obtains es where "render_items (json \<epsilon>) fl (page_items p) = Some es"
proof -
  have "\<forall>it\<in>set (page_items p). \<exists>e. render_item (json \<epsilon>) fl it = Some e"
    using assms
    by (auto simp: drawable_def render_item_def Let_def scroll_speed_def js_def split: extra.splits option.splits)
  then show ?thesis using that render_items_Some_iff [of "json \<epsilon>" fl "page_items p"] by blast
qed

lemma retire_facts:
  assumes "wf_nodes s" "length (actives (nodes s)) \<le> 1"
  shows "wf_nodes (retire_old s)" "actives (nodes (retire_old s)) = []" "pages (retire_old s) = pages s"
    "current_idx (retire_old s) = current_idx s"
proof -
  show "pages (retire_old s) = pages s" "current_idx (retire_old s) = current_idx s"
    by (simp_all add: retire_old_def split: option.splits)
  have "actives (nodes (retire_old s)) = [] \<and> wf_nodes (retire_old s)"
  proof (cases "first_active (nodes s)")
    case (Some i)
    then obtain p where p: "actives (nodes s) = [p]" "el_id p = i"
      using first_active_Some [OF Some] assms(2) by auto
    then have "p \<in> set (els (nodes s))" using actives_subset by fastforce
    then have lt: "i < next_id s" using p assms(1) by (auto simp: wf_nodes_def)
    have n: "nodes (retire_old s) = map (deactivate i) (nodes s)" "next_id (retire_old s) = Suc (next_id s)"
      "pending k (retire_old s) = (if k = Tk_remove i then insert (next_id s) (pending k s) else pending k s)" for k
      using Some by (auto simp: retire_old_def pending_def)
    have a: "actives (nodes (retire_old s)) = []"
      by (simp add: n actives_deactivate p)
    moreover have "wf_nodes (retire_old s)"
      using assms(1) lt a unfolding wf_ids n(2,3)
      by (fastforce simp: n(1) simp del: list.set_map)
    ultimately show ?thesis by simp
  next
    case None
    then show ?thesis using assms by (simp add: retire_old_def first_active_None)
  qed
  then show "actives (nodes (retire_old s)) = []" "wf_nodes (retire_old s)" by simp_all
qed

lemma append_facts:
  assumes "wf_nodes s" "actives (nodes s) = []"
  shows "wf_nodes (append_page p es s)" "shown_pages (append_page p es s) = [p]"
    "pages (append_page p es s) = pages s" "current_idx (append_page p es s) = current_idx s"
proof -
  have pd: "pending k (append_page p es s) = pending k s" for k by (simp add: append_page_def pending_def)
  have a: "actives (nodes (append_page p es s)) = [\<lparr>el_id = next_id s,
     el_background = (if page_bg_color p = [] then js ''#000'' else page_bg_color p),
     el_items = es, el_active = True, el_page = p\<rparr>]"
    using assms(2) by (simp add: append_page_def) (simp add: actives_def)
  then show "shown_pages (append_page p es s) = [p]" by (simp add: shown_pages_def)
  show "wf_nodes (append_page p es s)"
    using assms(1) a unfolding wf_nodes_def pd by (fastforce simp: append_page_def)
qed (simp_all add: append_page_def)

lemma shown_schedule [simp]: "shown_pages (schedule_next p s) = shown_pages s"
  by (simp add: shown_pages_def)

text \<open>Drawing establishes the view invariant from any well formed container.\<close>

lemma render_view:
  assumes "wf_nodes s" "length (actives (nodes s)) \<le> 1" "pages s = Arr ps" "drawable \<epsilon> ps"
    and "current_idx s = Some i" "0 \<le> i" "i < int (length ps)"
  shows "view_inv \<epsilon> (render_current_page \<epsilon> s)" "current_idx (render_current_page \<epsilon> s) = Some i"
    "pages (render_current_page \<epsilon> s) = Arr ps" "shown_pages (render_current_page \<epsilon> s) = [ps ! nat i]"
proof -
  have mem: "ps ! nat i \<in> set ps" using assms(6,7) by auto
  obtain es where es: "render_items (json \<epsilon>) (font_loaded s) (page_items (ps ! nat i)) = Some es"
    using drawable_render [OF assms(4) mem] by blast
  let ?p = "ps ! nat i"
  let ?s = "append_page ?p es (retire_old s)"
  have r: "render_current_page \<epsilon> s = schedule_next (Some ?p) ?s"
    using assms(3,5-7) es by (cases ps) (simp_all add: render_current_page_def)
  note rf = retire_facts [OF assms(1,2)]
  note af = append_facts [OF rf(1,2), of ?p es]
  show "current_idx (render_current_page \<epsilon> s) = Some i" "pages (render_current_page \<epsilon> s) = Arr ps"
    "shown_pages (render_current_page \<epsilon> s) = [?p]"
    using af rf assms(3,5) by (simp_all add: r)
  then show "view_inv \<epsilon> (render_current_page \<epsilon> s)"
    using assms(4,6,7) schedule_wf [OF af(1)] by (auto simp: view_inv_def r)
qed

lemma view_active: "view_inv \<epsilon> s \<Longrightarrow> wf_nodes s \<and> length (actives (nodes s)) \<le> 1"
proof -
  assume v: "view_inv \<epsilon> s"
  then have "length (shown_pages s) \<le> 1"
    unfolding view_inv_def by (metis One_nat_def bot_nat_0.extremum le_refl length_Cons list.size(3))
  with v show ?thesis by (simp add: view_inv_def shown_pages_def)
qed

lemma show_empty_view:
  assumes "control_inv s" "wf_nodes s" "pages s = Arr []" "current_idx s = Some i"
  shows "view_inv \<epsilon> (show_empty s)"
proof -
  let ?s = "show_empty s"
  have p: "pending k ?s \<subseteq> pending k s" for k by (auto simp: show_empty_def pending_def timers_clear)
  have np: "pending Tk_page ?s = {}"
    using no_page_after_clear [OF assms(1)] by (simp add: show_empty_def pending_def)
  have f: "nodes ?s = [Empty_msg]" "next_id ?s = next_id s" "pages ?s = Arr []" "current_idx ?s = Some i"
    using assms(3,4) by (simp_all add: show_empty_def)
  have "wf_nodes ?s"
    by (rule wf_frame [of "s\<lparr>nodes := []\<rparr>"])
      (use assms(2) p in \<open>auto simp: f actives_def wf_nodes_def pending_def\<close>)
  then show ?thesis
    by (simp add: view_inv_def f np drawable_def shown_pages_def actives_def)
qed

lemma view_frame:
  assumes "view_inv \<epsilon> s" "pages s' = pages s" "current_idx s' = current_idx s"
    "map el_id (els (nodes s')) = map el_id (els (nodes s))"
    "map el_id (actives (nodes s')) = map el_id (actives (nodes s))" "shown_pages s' = shown_pages s"
    "next_id s \<le> next_id s'" "\<And>k. k = Tk_page \<or> (\<exists>i. k = Tk_remove i) \<Longrightarrow> pending k s' \<subseteq> pending k s"
  shows "view_inv \<epsilon> s'"
proof -
  have "wf_nodes s'" using assms(1,4,5,7,8)
    by (intro wf_frame [of s s']) (auto simp: view_inv_def)
  moreover have "pending Tk_page s' \<subseteq> pending Tk_page s" by (rule assms(8)) simp
  ultimately show ?thesis using assms(1-3,6) unfolding view_inv_def by (metis subset_empty)
qed

section \<open>Events\<close>

definition vw :: "dstate \<Rightarrow> pagesv \<times> jint \<times> node list \<times> (nat \<times> tkind) list \<times> nat" where
  "vw s = (pages s, current_idx s, nodes s, timers s, next_id s)"

lemma view_cong: "vw s' = vw s \<Longrightarrow> view_inv \<epsilon> s' = view_inv \<epsilon> s"
  by (simp add: vw_def view_inv_def wf_nodes_def shown_pages_def pending_def)

lemma view_same: "view_inv \<epsilon> s \<Longrightarrow> vw s' = vw s \<Longrightarrow> view_inv \<epsilon> s'"
  using view_cong by blast

lemma vw_upd [simp]:
  "vw (s\<lparr>ws_reconnect := c\<rparr>) = vw s" "vw (s\<lparr>d_active_font := e\<rparr>) = vw s" "vw (s\<lparr>cd_target := e\<rparr>) = vw s"
  "vw (s\<lparr>cd_offset := b\<rparr>) = vw s" "vw (s\<lparr>server_offset := b\<rparr>) = vw s" "vw (s\<lparr>sync_started := e\<rparr>) = vw s"
  "vw (s\<lparr>requests := f\<rparr>) = vw s" "vw (s\<lparr>pings := g\<rparr>) = vw s" "vw (s\<lparr>fullscreen := c\<rparr>) = vw s"
  "vw (s\<lparr>fs_requests := g\<rparr>) = vw s" "vw (s\<lparr>socks := q\<rparr>) = vw s" "vw (s\<lparr>ws := e'\<rparr>) = vw s"
  "vw (s\<lparr>ping_timer := e'\<rparr>) = vw s" "vw (s\<lparr>page_timer := e'\<rparr>) = vw s" "vw (s\<lparr>page_delay := y\<rparr>) = vw s"
  by (simp_all add: vw_def)

lemma vw_ops [simp]:
  "vw (fetch r s) = vw s" "vw (note_server_time \<epsilon> now st s) = vw s" "vw (note_started sa s) = vw s"
  "vw (answered r s) = vw s" "vw (request_fs s) = vw s" "vw (load_font s) = vw s" "vw (fetch_countdown s) = vw s"
  "vw (poll_pages_http s) = vw s" "vw (close_sock w s) = vw s" "vw (on_countdown_body \<epsilon> now b s) = vw s"
  by (simp_all add: fetch_def note_server_time_def note_started_def answered_def request_fs_def load_font_def
      fetch_countdown_def poll_pages_http_def close_sock_def on_countdown_body_def Let_def split: option.splits)

lemma vwD: "vw s' = vw s \<Longrightarrow> pages s' = pages s \<and> current_idx s' = current_idx s \<and> nodes s' = nodes s
    \<and> timers s' = timers s \<and> next_id s' = next_id s"
  by (simp add: vw_def)

lemma wf_cong: "nodes s' = nodes s \<Longrightarrow> timers s' = timers s \<Longrightarrow> next_id s' = next_id s \<Longrightarrow> wf_nodes s' = wf_nodes s"
  by (simp add: wf_nodes_def pending_def)

lemma clear_view: "view_inv \<epsilon> s \<Longrightarrow> view_inv \<epsilon> (clear_timer v s)"
  by (erule view_frame) (auto simp: shown_pages_def)

lemma add_other_view: "view_inv \<epsilon> s \<Longrightarrow> k \<noteq> Tk_page \<Longrightarrow> (\<And>i. k \<noteq> Tk_remove i) \<Longrightarrow> view_inv \<epsilon> (add_timer k s)"
  by (erule view_frame) (auto simp: shown_pages_def)

lemma schedule_view: "view_inv \<epsilon> s \<Longrightarrow> view_inv \<epsilon> (schedule_next p s)"
proof -
  assume v: "view_inv \<epsilon> s"
  then obtain ps i where "pages s = Arr ps" "current_idx s = Some i" by (auto simp: view_inv_def)
  moreover have "pending Tk_page (schedule_next p s) = {}" if "pages s = Arr []" "pending Tk_page s = {}"
    using that by (simp add: schedule_next_def Let_def)
  ultimately show ?thesis using v by (auto simp: view_inv_def schedule_wf)
qed

lemma stop_ping_view: "view_inv \<epsilon> s \<Longrightarrow> view_inv \<epsilon> (stop_ping s)"
  by (auto simp: stop_ping_def view_cong [of "clear_timer _ s\<lparr>ping_timer := None\<rparr>" "clear_timer _ s"] clear_view)

definition clean_msg :: "env \<Rightarrow> ws_msg \<Rightarrow> bool" where
  "clean_msg \<epsilon> m \<longleftrightarrow> (case m_pages m of None \<Rightarrow> True | Some ps \<Rightarrow> drawable \<epsilon> ps)"

definition clean_body :: "env \<Rightarrow> pages_body option \<Rightarrow> bool" where
  "clean_body \<epsilon> b \<longleftrightarrow> (case b of None \<Rightarrow> True | Some (Body_array ps) \<Rightarrow> drawable \<epsilon> ps
     | Some (Body_obj (Some ps) _ _) \<Rightarrow> drawable \<epsilon> ps | Some (Body_obj None _ _) \<Rightarrow> False)"

fun clean_ev :: "env \<Rightarrow> int \<times> ev \<Rightarrow> bool" where
  "clean_ev \<epsilon> (now, Ws_message i m) = clean_msg \<epsilon> m"
| "clean_ev \<epsilon> (now, Resp_pages b) = clean_body \<epsilon> b"
| "clean_ev \<epsilon> (now, _) = True"

text \<open>Replacing the pages and drawing.\<close>

lemma replace_view:
  assumes "control_inv s" "view_inv \<epsilon> s" "drawable \<epsilon> ps" "vw s' = vw (s\<lparr>pages := Arr ps\<rparr>)" "ctl s' = ctl s"
    and "ps \<noteq> [] \<longrightarrow> (\<exists>j. idx = Some j \<and> 0 \<le> j \<and> j < int (length ps))"
  shows "view_inv \<epsilon> (if ps = [] then show_empty s' else render_current_page \<epsilon> (s'\<lparr>current_idx := idx\<rparr>))"
proof -
  note f = vwD [OF assms(4)]
  have n: "nodes s' = nodes s" "timers s' = timers s" "next_id s' = next_id s" "pages s' = Arr ps"
    "current_idx s' = current_idx s" using f by simp_all
  have wf: "wf_nodes s'" "length (actives (nodes s')) \<le> 1"
    using view_active [OF assms(2)] wf_cong [OF n(1-3)] n(1) by simp_all
  have c: "control_inv s'" using assms(1,5) n(3) by (intro control_inv_frame [of s s']) simp_all
  show ?thesis
  proof (cases "ps = []")
    case True
    obtain i where "current_idx s' = Some i" using assms(2) n(5) by (auto simp: view_inv_def)
    then show ?thesis using True show_empty_view [OF c wf(1)] n(4) by simp
  next
    case False
    then obtain j where j: "idx = Some j" "0 \<le> j" "j < int (length ps)" using assms(6) by blast
    have "wf_nodes (s'\<lparr>current_idx := idx\<rparr>)" using wf(1) wf_cong [of "s'\<lparr>current_idx := idx\<rparr>" s'] by simp
    from render_view(1) [OF this _ _ assms(3) _ j(2,3)]
    show ?thesis using False j(1) wf(2) n(4) by simp
  qed
qed

text \<open>Moving the index within the current pages and drawing.\<close>

lemma move_view:
  assumes "view_inv \<epsilon> s" "vw s' = vw s" "pages s = Arr ps" "0 \<le> j" "j < int (length ps)"
  shows "view_inv \<epsilon> (render_current_page \<epsilon> (s'\<lparr>current_idx := Some j\<rparr>))"
    "current_idx (render_current_page \<epsilon> (s'\<lparr>current_idx := Some j\<rparr>)) = Some j"
    "pages (render_current_page \<epsilon> (s'\<lparr>current_idx := Some j\<rparr>)) = Arr ps"
    "shown_pages (render_current_page \<epsilon> (s'\<lparr>current_idx := Some j\<rparr>)) = [ps ! nat j]"
proof -
  let ?t = "s'\<lparr>current_idx := Some j\<rparr>"
  note f = vwD [OF assms(2)]
  have "wf_nodes ?t" "length (actives (nodes ?t)) \<le> 1" "pages ?t = Arr ps" "drawable \<epsilon> ps"
    using view_active [OF assms(1)] wf_cong [of ?t s] f assms(1,3) by (auto simp: view_inv_def)
  note r = render_view [OF this(1-4) _ assms(4,5)]
  show "view_inv \<epsilon> (render_current_page \<epsilon> ?t)" "current_idx (render_current_page \<epsilon> ?t) = Some j"
    "pages (render_current_page \<epsilon> ?t) = Arr ps" "shown_pages (render_current_page \<epsilon> ?t) = [ps ! nat j]"
    using r by simp_all
qed

lemma message_view:
  assumes "control_inv s" "view_inv \<epsilon> s" "clean_msg \<epsilon> m"
  shows "view_inv \<epsilon> (handle_ws_message \<epsilon> now m s)"
proof -
  define t where "t = note_started (m_started_at m) (note_server_time \<epsilon> now (m_server_time m) s)"
  have t: "vw t = vw s" "ctl t = ctl s" by (simp_all add: t_def)
  have v: "view_inv \<epsilon> t" using view_cong [OF t(1)] assms(2) by simp
  obtain ps i where p: "pages s = Arr ps" "current_idx s = Some i" using assms(2) by (auto simp: view_inv_def)
  have pt: "pages t = Arr ps" "current_idx t = Some i" using vwD [OF t(1)] p by simp_all
  have upd: "view_inv \<epsilon> (if qs = [] then show_empty s1 else render_current_page \<epsilon>
      (s1\<lparr>current_idx := keep_index (Arr qs) (current_idx s1)\<rparr>))"
    if "m_pages m = Some qs" "s1 = (fetch_countdown (load_font t))\<lparr>pages := Arr qs\<rparr>" for qs s1
  proof (rule replace_view [OF assms(1,2)])
    show "drawable \<epsilon> qs" using assms(3) that(1) by (simp add: clean_msg_def)
    show "vw s1 = vw (s\<lparr>pages := Arr qs\<rparr>)" "ctl s1 = ctl s"
      using t vwD [OF t(1)] by (simp_all add: that(2) fetch_countdown_def load_font_def vw_def fetch_def ctl_def)
    show "qs \<noteq> [] \<longrightarrow> (\<exists>j. keep_index (Arr qs) (current_idx s1) = Some j \<and> 0 \<le> j \<and> j < int (length qs))"
      using keep_index_range [of qs "current_idx s1"] pt(2)
      by (simp add: that(2) fetch_countdown_def load_font_def fetch_def)
  qed
  have reset: "view_inv \<epsilon> (if ncmp (>) (plen (pages s1)) (Some 0)
      then render_current_page \<epsilon> (s1\<lparr>current_idx := Some 0\<rparr>) else s1)"
    if "s1 = t\<lparr>sync_started := x\<rparr>" for s1 x
    using v pt move_view(1) [of \<epsilon> t s1 ps 0] view_cong [of s1 t \<epsilon>] that by (auto simp: that)
  show ?thesis
    unfolding handle_ws_message_def Let_def t_def [symmetric]
    using v upd reset pt move_view(1) [OF v refl pt(1)]
    by (auto split: option.splits)
qed

lemma pages_body_view:
  assumes "control_inv s" "view_inv \<epsilon> s" "clean_body \<epsilon> b"
  shows "view_inv \<epsilon> (on_pages_body \<epsilon> now b s)"
proof (cases b)
  case (Some bd)
  obtain ps where ps: "(case bd of Body_array ps \<Rightarrow> Arr ps | Body_obj (Some ps) _ _ \<Rightarrow> Arr ps
       | Body_obj None _ _ \<Rightarrow> NonArr) = Arr ps" "drawable \<epsilon> ps"
    using assms(3) Some by (auto simp: clean_body_def split: pages_body.splits option.splits)
  obtain i where i: "current_idx s = Some i" using assms(2) by (auto simp: view_inv_def)
  let ?t = "\<lambda>sa st. note_started sa (note_server_time \<epsilon> now st s)"
  have ci: "current_idx (?t sa st) = Some i" for sa st
    using i vwD [of "?t sa st" s] by simp
  have rep: "view_inv \<epsilon> (if ps = [] then show_empty s1 else render_current_page \<epsilon> (s1\<lparr>current_idx := idx\<rparr>))"
    if "s1 = (?t sa st)\<lparr>pages := Arr ps\<rparr>"
      "idx = calc_synced_page_index d now off stt (Arr ps) (Some i)" for s1 sa st idx d off stt
  proof (rule replace_view [OF assms(1,2) ps(2)])
    have "vw (?t sa st) = vw s" by simp
    note f = vwD [OF this]
    show "vw s1 = vw (s\<lparr>pages := Arr ps\<rparr>)" "ctl s1 = ctl s"
      using f by (simp_all add: that(1) vw_def)
    show "ps \<noteq> [] \<longrightarrow> (\<exists>j. idx = Some j \<and> 0 \<le> j \<and> j < int (length ps))"
      unfolding that(2) using keep_index_range [of ps "Some i"] calc_range [of ps "Some i"] by simp
  qed
  show ?thesis
    unfolding on_pages_body_def Some Let_def option.case ps(1) by (simp add: rep ci)
qed (use assms(2) in \<open>simp add: on_pages_body_def\<close>)

lemma config_view: "view_inv \<epsilon> s \<Longrightarrow> view_inv \<epsilon> (on_config_body b s)"
  by (erule view_frame)
    (auto simp: on_config_body_def Let_def fetch_def els_map_elems actives_map_elems shown_pages_def pending_def
      split: option.splits)

lemma fonts_view: "view_inv \<epsilon> s \<Longrightarrow> view_inv \<epsilon> (on_fonts_body c x b s)"
  by (erule view_frame)
    (auto simp: on_fonts_body_def Let_def els_map_elems actives_map_elems shown_pages_def pending_def
      split: option.splits)

lemma remove_view:
  assumes "view_inv \<epsilon> s" "t \<in> pending (Tk_remove i) s"
  shows "view_inv \<epsilon> ((clear_timer (Some t) s)\<lparr>nodes := filter (not_el i) (nodes s)\<rparr>)" (is "view_inv \<epsilon> ?s")
proof -
  have wf: "wf_nodes s" using assms(1) by (simp add: view_inv_def)
  then have keep: "\<forall>p\<in>set (actives (nodes s)). el_id p \<noteq> i" using assms(2) by (auto simp: wf_nodes_def)
  have "actives (filter (not_el i) (nodes s)) = filter (\<lambda>p. el_id p \<noteq> i) (actives (nodes s))"
    by (simp add: actives_def els_filter conj_commute)
  also have "\<dots> = actives (nodes s)" using keep by (simp add: filter_id_conv)
  finally have a: "actives (filter (not_el i) (nodes s)) = actives (nodes s)" .
  have pd: "pending k ?s \<subseteq> pending k s" for k by (auto simp: pending_def timers_clear)
  have ids: "next_id ?s = next_id s" by (simp add: clear_timer_def)
  have "wf_nodes ?s"
    using wf pd unfolding wf_nodes_def ids
    by (simp add: a els_filter distinct_map_filter) blast
  moreover have "pages ?s = pages s" "current_idx ?s = current_idx s" "shown_pages ?s = shown_pages s"
    by (simp_all add: clear_timer_def shown_pages_def a)
  ultimately show ?thesis using assms(1) pd [of Tk_page] unfolding view_inv_def by (metis subset_empty)
qed

lemma page_timer_view:
  assumes "view_inv \<epsilon> s" "t \<in> pending Tk_page s"
  shows "view_inv \<epsilon> (on_page_timer \<epsilon> (clear_timer (Some t) s))"
proof -
  obtain ps i where p: "pages s = Arr ps" "current_idx s = Some i" "ps \<noteq> []" "0 \<le> i" "i < int (length ps)"
    using assms by (auto simp: view_inv_def)
  then have "js_rem (i + 1) (int (length ps)) = Some ((i + 1) mod int (length ps))"
    by (simp add: js_rem_nonneg)
  moreover have "0 \<le> (i + 1) mod int (length ps)" "(i + 1) mod int (length ps) < int (length ps)"
    using p(3) by simp_all
  ultimately show ?thesis
    using p move_view(1) [OF clear_view [OF assms(1)] refl, of "Some t" ps] by (simp add: on_page_timer_def)
qed

lemma clock_view: "view_inv \<epsilon> s \<Longrightarrow> view_inv \<epsilon> (on_clock_timer \<epsilon>' now s)"
  by (erule view_frame)
    (auto simp: on_clock_timer_def Let_def els_map_elems actives_map_elems shown_pages_def pending_def
      split: prod.splits)

lemma connect_view:
  assumes "view_inv \<epsilon> s"
  shows "view_inv \<epsilon> (connect_ws s)"
proof -
  have "view_inv \<epsilon> (stop_ping (close_sock (ws s) s))"
    by (rule stop_ping_view) (rule view_same [OF assms], simp)
  then show ?thesis unfolding connect_ws_def Let_def by (rule view_same) simp
qed

lemma open_view:
  assumes "view_inv \<epsilon> s"
  shows "view_inv \<epsilon> (on_open i s)"
proof -
  define s2 where "s2 = (let s1 = s\<lparr>socks := (socks s)[i := OPEN]\<rparr> in
     if \<not> ws_reconnect s1 then (poll_pages_http s1)\<lparr>ws_reconnect := True\<rparr> else s1)"
  let ?s3 = "add_timer Tk_ping (clear_timer (page_timer s2) s2)"
  have "view_inv \<epsilon> s2" using assms by (rule view_same) (simp add: s2_def Let_def)
  then have "view_inv \<epsilon> ?s3" by (intro add_other_view clear_view) simp_all
  then have "view_inv \<epsilon> (?s3\<lparr>ping_timer := p\<rparr>)" for p by (rule view_same) simp
  then show ?thesis by (simp add: on_open_def s2_def Let_def)
qed

lemma close_view:
  assumes "view_inv \<epsilon> s"
  shows "view_inv \<epsilon> (on_close i s)"
proof -
  have "view_inv \<epsilon> (stop_ping (s\<lparr>socks := (socks s)[i := CLOSED]\<rparr>))"
    by (rule stop_ping_view, rule view_same [OF assms]) simp
  then show ?thesis
    unfolding on_close_def Let_def by (intro add_other_view) (simp_all add: schedule_view)
qed

lemma fire_view:
  assumes "view_inv \<epsilon> s" "t \<in> pending k s"
  shows "view_inv \<epsilon> (fire \<epsilon> now t k s)"
proof (cases k)
  case Tk_page
  then show ?thesis using page_timer_view assms by (simp add: fire_def)
next
  case Tk_reconnect
  then show ?thesis using assms by (simp add: fire_def connect_view clear_view)
next
  case (Tk_remove i)
  then show ?thesis using remove_view assms by (simp add: fire_def)
next
  case Tk_ping
  then show ?thesis using assms by (auto simp: fire_def on_ping_timer_def elim!: view_same)
next
  case Tk_clock
  then show ?thesis using assms by (simp add: fire_def clock_view)
next
  case Tk_lock
  then show ?thesis using assms by (auto simp: fire_def elim!: view_same)
qed

definition clean_enabled :: "env \<Rightarrow> dstate \<Rightarrow> int \<times> ev \<Rightarrow> bool" where
  "clean_enabled \<epsilon> s e \<longleftrightarrow> denabled s e \<and> clean_ev \<epsilon> e"

definition display_inv :: "env \<Rightarrow> dstate \<Rightarrow> bool" where
  "display_inv \<epsilon> s \<longleftrightarrow> control_inv s \<and> view_inv \<epsilon> s"

lemma view_step:
  assumes "display_inv \<epsilon> s" "clean_enabled \<epsilon> s e"
  shows "display_inv \<epsilon> (dstep \<epsilon> e s)"
proof -
  have c: "control_inv s" and v: "view_inv \<epsilon> s" using assms(1) by (simp_all add: display_inv_def)
  obtain now w where e: "e = (now, w)" by (cases e)
  have a: "view_inv \<epsilon> (answered r s)" "control_inv (answered r s)" for r
    using v c by (simp_all add: view_same [OF v] frame_upd)
  have u: "view_inv \<epsilon> (s\<lparr>socks := q\<rparr>)" "view_inv \<epsilon> (request_fs s)" "view_inv \<epsilon> (s\<lparr>fullscreen := g\<rparr>)"
    "view_inv \<epsilon> (on_countdown_body \<epsilon> now b (answered r s))" for q g b r
    by (rule view_same [OF v]; simp)+
  have "view_inv \<epsilon> (dstep \<epsilon> e s)"
    using assms(2) unfolding e
    by (cases w) (auto simp: clean_enabled_def v u
        split: option.splits dest: map_of_pending
        intro: v c a fire_view open_view close_view message_view pages_body_view config_view fonts_view)
  moreover have "control_inv (dstep \<epsilon> e s)"
    using control_step c assms(2) by (simp add: clean_enabled_def)
  ultimately show ?thesis by (simp add: display_inv_def)
qed

lemma view_init: "display_inv \<epsilon> (init_display m)"
proof -
  have "view_inv \<epsilon> (start_fullscreen_lock (init_global_clock (load_font (blank m))))"
    by (auto simp: view_inv_def wf_nodes_def shown_pages_def actives_def pending_def drawable_def
        start_fullscreen_lock_def init_global_clock_def load_font_def fetch_def blank_def clear_timer_def
        request_fs_def add_timer_def Let_def)
  then have "view_inv \<epsilon> (init_display m)" unfolding init_display_def by (rule connect_view)
  then show ?thesis by (simp add: display_inv_def control_init)
qed

interpretation display_view: invariant_machine "\<lambda>s. s = init_display m" "clean_enabled \<epsilon>" "dstep \<epsilon>" "display_inv \<epsilon>"
  for m \<epsilon>
  by unfold_locales (simp_all add: view_init view_step)

end
