(* ===== verification/Display_Follow.thy ===== *)
theory Display_Follow
  imports Display_View
begin

text \<open>
  The display follows the server while a socket is open and carries on by itself while none is: a
  page timer is always pending when the carousel is on its own, and every event shows the page the
  code's variables name. The last section is the one case in which it does not recover.
\<close>

section \<open>The local carousel does not stall\<close>

definition carousel_inv :: "dstate \<Rightarrow> bool" where
  "carousel_inv s \<longleftrightarrow> (\<forall>ps. pages s = Arr ps \<and> 1 < length ps \<and> (last_ready s = CONNECTING \<or> last_ready s = CLOSED)
      \<longrightarrow> pending Tk_page s \<noteq> {})"

lemma schedule_pending_page:
  assumes "pages s = Arr ps" "1 < length ps" "sock_ready (ws s) s \<noteq> Some OPEN"
  shows "pending Tk_page (schedule_next p s) \<noteq> {}"
proof -
  have "sock_ready (ws s) (clear_timer v s) = sock_ready (ws s) s" for v
    by (simp add: sock_ready_def split: option.splits)
  then show ?thesis using assms by (simp add: schedule_next_def Let_def)
qed

lemma append_retire_fields [simp]:
  "socks (append_page p es s) = socks s" "ws (append_page p es s) = ws s"
  "socks (retire_old s) = socks s" "ws (retire_old s) = ws s" "pages (append_page p es s) = pages s"
  "pages (retire_old s) = pages s"
  by (simp_all add: append_page_def retire_old_def split: option.splits)

lemma schedule_socks [simp]:
  "socks (schedule_next p s) = socks s" "ws (schedule_next p s) = ws s"
  by (simp_all add: schedule_next_def Let_def)

lemma render_fields [simp]:
  "socks (render_current_page \<epsilon> s) = socks s" "ws (render_current_page \<epsilon> s) = ws s"
  "pages (render_current_page \<epsilon> s) = pages s"
  by (simp_all add: render_current_page_def split: option.splits)

lemma sock_ready_cong: "socks s' = socks s \<Longrightarrow> sock_ready w s' = sock_ready w s"
  by (simp add: sock_ready_def split: option.splits)

lemma schedule_delay:
  assumes "pages s = Arr ps" "1 < length ps" "sock_ready (ws s) s \<noteq> Some OPEN"
  shows "page_delay (schedule_next (Some p) s) = page_dur p"
  using assms sock_ready_cong [of "clear_timer (page_timer s) s" s] by (simp add: schedule_next_def Let_def page_dur_def)

lemma render_carousel:
  assumes "pages s = Arr ps" "drawable \<epsilon> ps" "current_idx s = Some i" "0 \<le> i" "i < int (length ps)" "socks_ok s"
  shows "carousel_inv (render_current_page \<epsilon> s)"
    "1 < length ps \<Longrightarrow> last_ready s \<noteq> OPEN \<Longrightarrow> page_delay (render_current_page \<epsilon> s) = page_dur (ps ! nat i)"
proof -
  have mem: "ps ! nat i \<in> set ps" "ps \<noteq> []" using assms(4,5) by auto
  obtain es where es: "render_items (json \<epsilon>) (font_loaded s) (page_items (ps ! nat i)) = Some es"
    using drawable_render [OF assms(2) mem(1)] by blast
  let ?t = "append_page (ps ! nat i) es (retire_old s)"
  have r: "render_current_page \<epsilon> s = schedule_next (Some (ps ! nat i)) ?t"
    using assms(1,3-5) es mem(2) by (simp add: render_current_page_def)
  have "sock_ready (ws ?t) ?t = Some (last_ready s)"
    using sock_ready_last [OF assms(6)] sock_ready_cong [of ?t s] by simp
  then show "carousel_inv (render_current_page \<epsilon> s)"
      "1 < length ps \<Longrightarrow> last_ready s \<noteq> OPEN \<Longrightarrow> page_delay (render_current_page \<epsilon> s) = page_dur (ps ! nat i)"
    using schedule_pending_page [of ?t ps] schedule_delay [of ?t ps] assms(1)
    by (auto simp: carousel_inv_def r last_ready_def)
qed

lemma carousel_keep:
  assumes "carousel_inv s" "pages s' = pages s" "socks s' = socks s" "pending Tk_page s \<subseteq> pending Tk_page s'"
  shows "carousel_inv s'"
  using assms by (auto simp: carousel_inv_def last_ready_def)

lemma carousel_driven: "last_ready s = OPEN \<or> last_ready s = CLOSING \<Longrightarrow> carousel_inv s"
  by (auto simp: carousel_inv_def)

lemma ctl_socks: "ctl s' = ctl s \<Longrightarrow> socks s' = socks s \<and> ws s' = ws s \<and> timers s' = timers s"
  by (simp add: ctl_def)

lemma message_socks: "socks (handle_ws_message \<epsilon> now m s) = socks s"
proof -
  let ?t = "note_started (m_started_at m) (note_server_time \<epsilon> now (m_server_time m) s)"
  have "ctl ?t = ctl s" by simp
  then have "socks ?t = socks s" using ctl_socks by blast
  then show ?thesis
    by (simp add: handle_ws_message_def Let_def load_font_def fetch_countdown_def fetch_def show_empty_def
        split: option.splits)
qed

lemma pages_body_carousel:
  assumes "control_inv s" "view_inv \<epsilon> s" "clean_body \<epsilon> b" "carousel_inv s"
  shows "carousel_inv (on_pages_body \<epsilon> now b s)"
proof (cases b)
  case (Some bd)
  obtain ps where ps: "(case bd of Body_array ps \<Rightarrow> Arr ps | Body_obj (Some ps) _ _ \<Rightarrow> Arr ps
       | Body_obj None _ _ \<Rightarrow> NonArr) = Arr ps" "drawable \<epsilon> ps"
    using assms(3) Some by (auto simp: clean_body_def split: pages_body.splits option.splits)
  obtain i where i: "current_idx s = Some i" using assms(2) by (auto simp: view_inv_def)
  have so: "socks_ok s" by (rule controlD(4) [OF assms(1)])
  let ?t = "\<lambda>sa st. note_started sa (note_server_time \<epsilon> now st s)"
  have ci: "current_idx (?t sa st) = Some i" "socks_ok (?t sa st)" for sa st
    using i so vwD [of "?t sa st" s] ctl_socks [of "?t sa st" s] by (simp_all add: socks_ok_def)
  have "carousel_inv (show_empty (s1\<lparr>pages := Arr []\<rparr>))" for s1
    by (simp add: carousel_inv_def show_empty_def)
  moreover have "carousel_inv (render_current_page \<epsilon> ((?t sa st)\<lparr>pages := Arr ps, current_idx :=
      calc_synced_page_index d now off stt (Arr ps) (Some i)\<rparr>))" if ne: "ps \<noteq> []" for sa st d off stt
  proof -
    obtain j where j: "calc_synced_page_index d now off stt (Arr ps) (Some i) = Some j" "0 \<le> j" "j < int (length ps)"
      using calc_range [OF ne, of "Some i" d now off stt] by auto
    show ?thesis by (rule render_carousel(1) [OF _ ps(2) _ j(2,3)]) (use ci(2) in \<open>simp_all add: j(1) socks_ok_def\<close>)
  qed
  ultimately show ?thesis
    unfolding on_pages_body_def Some Let_def option.case ps(1) by (simp add: ci)
qed (use assms(4) in \<open>simp add: on_pages_body_def\<close>)

lemma fire_carousel:
  assumes "control_inv s" "view_inv \<epsilon> s" "carousel_inv s" "t \<in> pending k s"
  shows "carousel_inv (fire \<epsilon> now t k s)"
proof -
  have other: "pending Tk_page s - {t} = pending Tk_page s" if "k \<noteq> Tk_page"
    using pending_kind [OF controlD(1) [OF assms(1)] assms(4), of Tk_page] that by auto
  show ?thesis
  proof (cases k)
    case Tk_page
    obtain ps i where p: "pages s = Arr ps" "current_idx s = Some i" "ps \<noteq> []" "drawable \<epsilon> ps" "0 \<le> i" "i < int (length ps)"
      using assms(2,4) Tk_page by (auto simp: view_inv_def)
    then have "js_rem (i + 1) (int (length ps)) = Some ((i + 1) mod int (length ps))" by (simp add: js_rem_nonneg)
    moreover have "carousel_inv (render_current_page \<epsilon> ((clear_timer (Some t) s)\<lparr>current_idx := Some ((i + 1) mod int (length ps))\<rparr>))"
      using p controlD(4) [OF assms(1)]
      by (intro render_carousel(1) [of _ ps \<epsilon> "(i + 1) mod int (length ps)"]) (simp_all add: socks_ok_def)
    ultimately show ?thesis using Tk_page p by (simp add: fire_def on_page_timer_def)
  next
    case Tk_reconnect
    have c: "last_ready s = CLOSED" "ping_timer s = None" using controlD(5) [OF assms(1)] assms(4) Tk_reconnect
      by (auto simp: link_ok_def)
    have "sock_ready (ws s) (clear_timer (Some t) s) = Some CLOSED"
      using sock_ready_last [OF controlD(4) [OF assms(1)]] c sock_ready_cong [of "clear_timer (Some t) s" s] by simp
    then have "close_sock (ws s) (clear_timer (Some t) s) = clear_timer (Some t) s" by (simp add: close_sock_def)
    then show ?thesis using Tk_reconnect c other assms(3)
      by (auto simp: fire_def connect_ws_def Let_def stop_ping_def carousel_inv_def last_ready_def)
  next
    case (Tk_remove i)
    then show ?thesis using other assms(3)
      by (intro carousel_keep [OF assms(3)]) (auto simp: fire_def pending_def timers_clear)
  next
    case Tk_ping
    then show ?thesis by (intro carousel_keep [OF assms(3)]) (simp_all add: fire_def on_ping_timer_def pending_def)
  next
    case Tk_clock
    then show ?thesis by (intro carousel_keep [OF assms(3)])
        (simp_all add: fire_def on_clock_timer_def Let_def pending_def split: prod.splits)
  next
    case Tk_lock
    then show ?thesis by (intro carousel_keep [OF assms(3)]) (simp_all add: fire_def request_fs_def pending_def)
  qed
qed

lemma live_now: "control_inv s \<Longrightarrow> sock_in s i rs \<Longrightarrow> CLOSED \<notin> set rs \<Longrightarrow> last_ready (s\<lparr>socks := (socks s)[i := r]\<rparr>) = r"
  using live_ready(1) [OF controlD(4)] socks_update_last(2) [OF controlD(4)] by blast

lemma open_carousel:
  assumes "control_inv s" "sock_in s i [CONNECTING]"
  shows "carousel_inv (on_open i s)"
proof -
  have "socks (on_open i s) = (socks s)[i := OPEN]"
    by (simp add: on_open_def Let_def poll_pages_http_def fetch_countdown_def fetch_def)
  then show ?thesis using live_now [OF assms, of OPEN] by (intro carousel_driven) (simp add: last_ready_def)
qed

lemma close_carousel:
  assumes "control_inv s" "sock_in s i [CONNECTING, OPEN, CLOSING]"
  shows "carousel_inv (on_close i s)"
proof -
  let ?s = "stop_ping (s\<lparr>socks := (socks s)[i := CLOSED]\<rparr>)"
  note i = live_ready(1) [OF controlD(4) [OF assms(1)] assms(2)]
  have so: "socks_ok ?s" "last_ready ?s = CLOSED"
    using socks_update_last [OF controlD(4) [OF assms(1)] i, of CLOSED] by (simp_all add: socks_ok_def last_ready_def)
  then have "sock_ready (ws ?s) ?s \<noteq> Some OPEN" using sock_ready_last [OF so(1)] by simp
  then have "pending Tk_page (schedule_next p ?s) \<noteq> {}" if "pages s = Arr ps" "1 < length ps" for p ps
    using schedule_pending_page [of ?s ps p] that by simp
  then show ?thesis by (auto simp: on_close_def Let_def carousel_inv_def)
qed

lemma carousel_step:
  assumes "display_inv \<epsilon> s" "carousel_inv s" "clean_enabled \<epsilon> s e"
  shows "carousel_inv (dstep \<epsilon> e s)"
proof -
  have c: "control_inv s" and v: "view_inv \<epsilon> s" using assms(1) by (simp_all add: display_inv_def)
  obtain now w where e: "e = (now, w)" by (cases e)
  have en: "denabled s (now, w)" "clean_ev \<epsilon> (now, w)" using assms(3) by (simp_all add: clean_enabled_def e)
  show ?thesis
  proof (cases w)
    case (Ws_open i)
    then show ?thesis using open_carousel [OF c] en by (simp add: e)
  next
    case (Ws_message i m)
    then have "last_ready s = OPEN" using live_ready(2) [OF controlD(4) [OF c], of i "[OPEN]"] en by simp
    then show ?thesis using Ws_message by (intro carousel_driven) (simp add: e last_ready_def message_socks)
  next
    case (Ws_closing i)
    then show ?thesis using live_now [OF c, of i "[OPEN]" CLOSING] en
      by (intro carousel_driven) (simp add: e)
  next
    case (Ws_closed i)
    then show ?thesis using close_carousel [OF c] en by (simp add: e)
  next
    case (Timer t)
    then show ?thesis using fire_carousel [OF c v assms(2)] assms(2)
      by (auto simp: e split: option.splits dest: map_of_pending)
  next
    case (Resp_pages b)
    have "control_inv (answered R_pages s)" "view_inv \<epsilon> (answered R_pages s)" "carousel_inv (answered R_pages s)"
      using frame_upd(13) [OF c] view_same [OF v] carousel_keep [OF assms(2)]
      by (simp_all add: answered_def pending_def)
    then show ?thesis using Resp_pages pages_body_carousel en by (simp add: e)
  next
    case (Resp_countdown b)
    then show ?thesis by (intro carousel_keep [OF assms(2)])
        (simp_all add: e on_countdown_body_def answered_def pending_def Let_def split: option.splits)
  next
    case (Resp_config b)
    then show ?thesis by (intro carousel_keep [OF assms(2)])
        (simp_all add: e on_config_body_def answered_def pending_def fetch_def Let_def split: option.splits)
  next
    case (Resp_fonts f x b)
    then show ?thesis by (intro carousel_keep [OF assms(2)])
        (simp_all add: e on_fonts_body_def answered_def pending_def Let_def split: option.splits)
  next
    case Click
    then show ?thesis by (intro carousel_keep [OF assms(2)]) (simp_all add: e request_fs_def pending_def)
  next
    case (Fs_change b)
    then show ?thesis by (intro carousel_keep [OF assms(2)]) (simp_all add: e pending_def)
  qed
qed

definition follow_inv :: "env \<Rightarrow> dstate \<Rightarrow> bool" where
  "follow_inv \<epsilon> s \<longleftrightarrow> display_inv \<epsilon> s \<and> carousel_inv s"

lemma follow_init: "follow_inv \<epsilon> (init_display m)"
proof -
  have "pages (init_display m) = Arr []"
    by (simp add: init_display_def connect_ws_def Let_def close_sock_def stop_ping_def start_fullscreen_lock_def
        init_global_clock_def load_font_def fetch_def blank_def request_fs_def sock_ready_def)
  then show ?thesis by (simp add: follow_inv_def view_init carousel_inv_def)
qed

lemma follow_step: "follow_inv \<epsilon> s \<Longrightarrow> clean_enabled \<epsilon> s e \<Longrightarrow> follow_inv \<epsilon> (dstep \<epsilon> e s)"
  by (simp add: follow_inv_def view_step carousel_step)

interpretation display_follow: invariant_machine "\<lambda>s. s = init_display m" "clean_enabled \<epsilon>" "dstep \<epsilon>" "follow_inv \<epsilon>"
  for m \<epsilon>
  by unfold_locales (simp_all add: follow_init follow_step)

definition clean_reach :: "env \<Rightarrow> jstr \<Rightarrow> dstate \<Rightarrow> bool" where
  "clean_reach \<epsilon> m = reach (\<lambda>s. s = init_display m) (clean_enabled \<epsilon>) (dstep \<epsilon>)"

lemma clean_reachD:
  assumes "clean_reach \<epsilon> m s"
  shows "control_inv s" "view_inv \<epsilon> s" "carousel_inv s"
  using display_follow.inv_reach [of m \<epsilon> s] assms by (simp_all add: clean_reach_def follow_inv_def display_inv_def)

lemma switch_view:
  assumes "clean_reach \<epsilon> m s" "pages s = Arr ps" "m_type msg = js ''page_switch''" "m_page_index msg = Some i"
    and "0 \<le> i" "i < int (length ps)"
  shows "shown_pages (dstep \<epsilon> (now, Ws_message k msg) s) = [ps ! nat i]
       \<and> pages (dstep \<epsilon> (now, Ws_message k msg) s) = Arr ps
       \<and> current_idx (dstep \<epsilon> (now, Ws_message k msg) s) = Some i"
proof -
  let ?t = "note_started (m_started_at msg) (note_server_time \<epsilon> now (m_server_time msg) s)"
  have v: "view_inv \<epsilon> s" using clean_reachD(2) [OF assms(1)] .
  have vw: "vw ?t = vw s" by simp
  note f = vwD [OF vw]
  have ne: "js ''page_switch'' \<noteq> js ''pages_updated''" by (simp add: js_def)
  have same: "shown_pages ?t = [ps ! nat i]" if "current_idx s = Some i"
    using v assms(2,5,6) that f by (auto simp: view_inv_def shown_pages_def)
  show ?thesis
    using same move_view [OF v vw assms(2) assms(5,6)] f assms(2-6) ne
    by (auto simp: handle_ws_message_def Let_def)
qed

section \<open>Properties\<close>

text \<open>C1: the display never shows a stale or a second page: in every run in which the server answers
  with drawable pages, the container has exactly one active element, the one built from the page at
  the current index of the current list, and none when there are no pages.\<close>

theorem view_shows_current:
  assumes "clean_reach \<epsilon> m s"
  shows "\<exists>ps i. pages s = Arr ps \<and> current_idx s = Some i \<and>
     shown_pages s = (if ps = [] then [] else [ps ! nat i]) \<and> (ps \<noteq> [] \<longrightarrow> 0 \<le> i \<and> i < int (length ps))"
  using clean_reachD(2) [OF assms] by (auto simp: view_inv_def)

text \<open>Whatever the display was showing, a \<open>page_switch\<close> with an index of the current list leaves
  exactly that page on the screen, and the list as it was.\<close>

theorem page_switch_followed:
  assumes "clean_reach \<epsilon> m s" "pages s = Arr ps" "m_type msg = js ''page_switch''" "m_page_index msg = Some i"
    and "0 \<le> i" "i < int (length ps)"
  shows "shown_pages (dstep \<epsilon> (now, Ws_message k msg) s) = [ps ! nat i]
       \<and> pages (dstep \<epsilon> (now, Ws_message k msg) s) = Arr ps
       \<and> current_idx (dstep \<epsilon> (now, Ws_message k msg) s) = Some i"
  using assms by (rule switch_view)

text \<open>C24: in every run in which the server answers with drawable pages (an answer to the page request that is an
  error object without pages is not one of them), whenever the current list has at least two pages and the socket is
  connecting or closed, the display keeps rotating by itself: a page timer is pending, it brings the page after the
  current one, cyclically, and leaves another page timer pending, armed with that page's duration (ten seconds for a
  zero one). Nothing is said of a socket in the closing handshake, during which no page timer need be pending.\<close>

theorem carousel_keeps_running:
  assumes "clean_reach \<epsilon> m s" "pages s = Arr ps" "1 < length ps" "current_idx s = Some i"
    and "last_ready s = CONNECTING \<or> last_ready s = CLOSED"
  shows "\<exists>t\<in>pending Tk_page s. shown_pages (dstep \<epsilon> (now, Timer t) s) = [ps ! nat ((i + 1) mod int (length ps))]
     \<and> pending Tk_page (dstep \<epsilon> (now, Timer t) s) \<noteq> {}
     \<and> page_delay (dstep \<epsilon> (now, Timer t) s) = page_dur (ps ! nat ((i + 1) mod int (length ps)))"
proof -
  note d = clean_reachD [OF assms(1)]
  have i: "0 \<le> i" "i < int (length ps)" using d(2) assms(2-4) by (auto simp: view_inv_def)
  let ?j = "(i + 1) mod int (length ps)"
  obtain t where t: "t \<in> pending Tk_page s" using d(3) assms(2,3,5) by (auto simp: carousel_inv_def)
  then have mo: "map_of (timers s) t = Some Tk_page"
    using controlD(1) [OF d(1)] by (simp add: pending_def timer_ids_ok_def)
  have "0 < int (length ps)" using assms(3) by linarith
  then have j: "0 \<le> ?j" "?j < int (length ps)" "js_rem (i + 1) (int (length ps)) = Some ?j"
    using i(1) by (simp_all add: js_rem_nonneg)
  have r: "dstep \<epsilon> (now, Timer t) s = render_current_page \<epsilon> ((clear_timer (Some t) s)\<lparr>current_idx := Some ?j\<rparr>)"
    using assms(2,4) j(3) by (simp add: mo fire_def on_page_timer_def)
  have "shown_pages (dstep \<epsilon> (now, Timer t) s) = [ps ! nat ?j]"
    unfolding r using move_view(4) [OF clear_view [OF d(2)] refl _ j(1,2)] assms(2) by simp
  moreover have "page_delay (dstep \<epsilon> (now, Timer t) s) = page_dur (ps ! nat ?j)"
    unfolding r using render_carousel(2) [of "clear_timer (Some t) s\<lparr>current_idx := Some ?j\<rparr>" ps \<epsilon> ?j]
      assms(2,3,5) j d(2) controlD(4) [OF d(1)]
    by (auto simp: view_inv_def socks_ok_def last_ready_def)
  moreover have "carousel_inv (dstep \<epsilon> (now, Timer t) s)"
    using fire_carousel [OF d(1,2,3) t] by (simp add: mo)
  moreover have "last_ready (dstep \<epsilon> (now, Timer t) s) = last_ready s" "pages (dstep \<epsilon> (now, Timer t) s) = Arr ps"
    using assms(2) unfolding r last_ready_def by simp_all
  ultimately show ?thesis using t assms(3,5) by (auto simp: carousel_inv_def)
qed

section \<open>Witnesses\<close>

definition two_pages :: "broadcast_page list" where
  "two_pages = [demo_page 1 4000, demo_page 2 6000]"

definition push_pages :: "broadcast_page list \<Rightarrow> ws_msg" where
  "push_pages ps = \<lparr>m_type = js ''pages_updated'', m_pages = Some ps, m_server_time = None, m_started_at = None,
     m_page_index = None\<rparr>"

definition switch_to :: "int \<Rightarrow> ws_msg" where
  "switch_to i = \<lparr>m_type = js ''page_switch'', m_pages = None, m_server_time = None, m_started_at = None,
     m_page_index = Some i\<rparr>"

definition open_run :: "(int \<times> ev) list" where
  "open_run = [(0, Ws_open 0), (5, Ws_message 0 (push_pages two_pages))]"

definition lost_run :: "(int \<times> ev) list" where
  "lost_run = open_run @ [(20, Ws_closed 0)]"

definition shown_run :: "(int \<times> ev) list \<Rightarrow> dstate" where
  "shown_run es = run (dstep demo_env) es (init_display (js ''before''))"

lemma clean_run_reach:
  "run_ok (clean_enabled demo_env) (dstep demo_env) es (init_display (js ''before'')) \<Longrightarrow> clean_reach demo_env (js ''before'') (shown_run es)"
  unfolding clean_reach_def shown_run_def by (rule reach_runI) simp_all

lemma open_run_ok: "run_ok (clean_enabled demo_env) (dstep demo_env) open_run (init_display (js ''before''))"
  by code_simp

lemma lost_run_ok: "run_ok (clean_enabled demo_env) (dstep demo_env) lost_run (init_display (js ''before''))"
  by code_simp

lemma open_run_pages: "pages (shown_run open_run) = Arr two_pages"
  by code_simp

lemma lost_run_state: "pages (shown_run lost_run) = Arr two_pages" "current_idx (shown_run lost_run) = Some 0"
  "last_ready (shown_run lost_run) = CLOSED"
  by code_simp+

lemma view_shows_current_witness: "\<exists>ps i. pages (shown_run open_run) = Arr ps \<and> shown_pages (shown_run open_run) = [ps ! nat i]"
proof -
  obtain ps i where "pages (shown_run open_run) = Arr ps"
    "shown_pages (shown_run open_run) = (if ps = [] then [] else [ps ! nat i])"
    using view_shows_current [OF clean_run_reach [OF open_run_ok]] by blast
  moreover have "ps \<noteq> []" using calculation(1) open_run_pages by (auto simp: two_pages_def)
  ultimately show ?thesis by auto
qed

lemma page_switch_followed_witness:
  "shown_pages (dstep demo_env (30, Ws_message 0 (switch_to 1)) (shown_run open_run)) = [demo_page 2 6000]"
  using page_switch_followed [OF clean_run_reach [OF open_run_ok] open_run_pages, of "switch_to 1" 1 30 0]
  by (simp add: switch_to_def two_pages_def)

lemma carousel_keeps_running_witness:
  "\<exists>t. shown_pages (dstep demo_env (4020, Timer t) (shown_run lost_run)) = [demo_page 2 6000]"
  using carousel_keeps_running [OF clean_run_reach [OF lost_run_ok] lost_run_state(1), of 0 4020] lost_run_state(2,3)
  by (auto simp: two_pages_def)

section \<open>A failed page request\<close>

text \<open>The page request of the first connection can be answered after the socket is lost, with an error
  object. The page timer then computes an index from an undefined length; from then on the list the
  server pushes over the new socket is stored but not drawn, because its index is kept.\<close>

definition failed_run :: "(int \<times> ev) list" where
  "failed_run = open_run @ [(20, Ws_closed 0), (30, Resp_pages (Some (Body_obj None None None))),
     (4020, Timer 4), (5020, Timer 5), (5030, Ws_open 1), (5040, Ws_message 1 (push_pages [demo_page 3 5000]))]"

lemma failed_run_ok: "run_ok denabled (dstep demo_env) failed_run (init_display (js ''before''))"
  by code_simp

lemma stale_after_failed_request:
  "pages (shown_run failed_run) = Arr [demo_page 3 5000] \<and> shown_pages (shown_run failed_run) = [demo_page 1 4000]
   \<and> last_ready (shown_run failed_run) = OPEN"
proof (intro conjI)
  show "pages (shown_run failed_run) = Arr [demo_page 3 5000]" by code_simp
  show "shown_pages (shown_run failed_run) = [demo_page 1 4000]" by code_simp
  show "last_ready (shown_run failed_run) = OPEN" by code_simp
qed

end
