(* ===== verification/Go_Carousel.thy ===== *)
theory Go_Carousel
  imports Display_Carousel
begin

text \<open>
  The carousel of the server, \<^verbatim>\<open>runCarousel\<close> of \<^verbatim>\<open>internal/service/broadcast_ws.go\<close>: a loop that asks for
  the pages of its mode, sends a \<open>page_switch\<close> to the connected displays and sleeps for the page's
  duration. The loop never ends by itself; it is modelled by the answers of its page provider, one for
  each iteration, and turned into the sequence of its sends and waits. Displays that are not connected
  compute the page from the clock (\<^theory_text>\<open>Display_Carousel\<close>), and the two must agree.
\<close>

section \<open>The loop\<close>

datatype go_act = Go_send nat nat | Go_wait int
  \<comment> \<open>\<open>page_index\<close> and \<open>total\<close> of a message; milliseconds\<close>

definition go_dur :: "broadcast_page \<Rightarrow> int" where
  "go_dur p = (if duration_ms p \<le> 0 then 10000 else duration_ms p)"

text \<open>One iteration, from the index it starts with: \<^term>\<open>None\<close> when no provider is set.\<close>

definition go_round :: "broadcast_page list option \<Rightarrow> nat \<Rightarrow> go_act list \<times> nat" where
  "go_round answer idx =
     (case answer of
        None \<Rightarrow> ([Go_wait 1000], idx)
      | Some ps \<Rightarrow>
          (if ps = [] then ([Go_wait 2000], idx)
           else let i = (if length ps \<le> idx then 0 else idx) in
             ([Go_send i (length ps), Go_wait (go_dur (ps ! i))], (i + 1) mod length ps)))"

fun go_loop :: "broadcast_page list option list \<Rightarrow> nat \<Rightarrow> go_act list" where
  "go_loop [] idx = []"
| "go_loop (a # as) idx = (case go_round a idx of (acts, idx') \<Rightarrow> acts @ go_loop as idx')"

definition go_carousel :: "broadcast_page list option list \<Rightarrow> go_act list" where
  "go_carousel answers = Go_wait 500 # go_loop answers 0"

text \<open>A carousel that is stopped \<open>t\<close> milliseconds after its start: the wait it is in is cut short. (A stop that
  comes at the very end of a wait is a race of the two cases of the \<^verbatim>\<open>select\<close>; here the wait ends first.)\<close>

fun cut :: "int \<Rightarrow> go_act list \<Rightarrow> go_act list" where
  "cut t [] = [Go_wait t]"
| "cut t (Go_send i n # as) = Go_send i n # cut t as"
| "cut t (Go_wait d # as) = (if t < d then [Go_wait t] else Go_wait d # cut (t - d) as)"

text \<open>\<^verbatim>\<open>pushToAllModes\<close> at the time \<open>t\<close>: the running carousel is stopped and 200 milliseconds later a new one
  starts, with the answers of the page provider from then on. \<^verbatim>\<open>UpdateConfig\<close> with a \<open>sync_reset\<close> starts a carousel
  in \<^verbatim>\<open>pushSyncReset\<close> and then pushes to all modes, \<open>d\<close> milliseconds later.\<close>

definition push_all :: "int \<Rightarrow> go_act list \<Rightarrow> broadcast_page list option list \<Rightarrow> go_act list" where
  "push_all t old answers = cut t old @ Go_wait 200 # go_carousel answers"

definition sync_reset_life :: "int \<Rightarrow> broadcast_page list option list \<Rightarrow> broadcast_page list option list \<Rightarrow> go_act list" where
  "sync_reset_life d answers0 answers = push_all d (go_carousel answers0) answers"

text \<open>The index of the last message at a time after the start.\<close>

fun sent_at :: "go_act list \<Rightarrow> int \<Rightarrow> nat option \<Rightarrow> nat option" where
  "sent_at [] t cur = cur"
| "sent_at (Go_send i n # as) t cur = sent_at as t (Some i)"
| "sent_at (Go_wait d # as) t cur = (if t < d then cur else sent_at as (t - d) cur)"

section \<open>Lemmas\<close>

lemma go_dur_pos: "0 < go_dur p"
  by (simp add: go_dur_def)

lemma durations_agree: "go_dur p = page_dur p \<longleftrightarrow> 0 \<le> duration_ms p"
  by (auto simp: go_dur_def page_dur_def)

text \<open>Every message names a page of the list it was made from.\<close>

lemma go_round_valid:
  "Go_send i n \<in> set (fst (go_round a idx)) \<Longrightarrow> \<exists>ps. a = Some ps \<and> n = length ps \<and> i < length ps"
  by (auto simp: go_round_def Let_def split: option.splits if_splits)

lemma go_loop_valid: "Go_send i n \<in> set (go_loop qs idx) \<Longrightarrow> \<exists>ps. Some ps \<in> set qs \<and> n = length ps \<and> i < length ps"
proof (induction qs arbitrary: idx)
  case (Cons q qs)
  obtain acts j where r: "go_round q idx = (acts, j)" by force
  then have "Go_send i n \<in> set acts \<or> Go_send i n \<in> set (go_loop qs j)" using Cons.prems by simp
  then show ?case
  proof
    assume "Go_send i n \<in> set acts"
    then show ?thesis using go_round_valid [of i n q idx] r by auto
  next
    assume "Go_send i n \<in> set (go_loop qs j)"
    then show ?thesis using Cons.IH by auto
  qed
qed simp

lemma slot_end:
  assumes "playable ps" "i < length ps" "0 \<le> t" "t < page_dur (ps ! i)"
  shows "in_slot ps i ((total_dur (take i ps) + t) mod total_dur ps)"
proof -
  have "0 \<le> total_dur (take i ps)" using assms(1) by (intro total_dur_nonneg playable_take)
  moreover have "total_dur (take i ps) + t < total_dur (take (Suc i) ps)" using assms(2,4) by (simp add: total_dur_take_Suc)
  moreover note slot_end_le [OF assms(1,2)]
  ultimately show ?thesis using assms(2,3) by (simp add: in_slot_def)
qed

lemma slot_wrap:
  assumes "i < length ps"
  shows "(total_dur (take i ps) + (page_dur (ps ! i) + u)) mod total_dur ps
      = (total_dur (take ((i + 1) mod length ps) ps) + u) mod total_dur ps"
proof (cases "Suc i = length ps")
  case True
  then have "total_dur (take i ps) + page_dur (ps ! i) = total_dur ps" using total_dur_take_Suc [OF assms] by simp
  then have "(total_dur (take i ps) + (page_dur (ps ! i) + u)) mod total_dur ps = u mod total_dur ps"
    by (metis add.assoc mod_add_self1)
  then show ?thesis using True by simp
next
  case False
  then show ?thesis using assms total_dur_take_Suc [OF assms] by (simp add: add.assoc)
qed

lemma go_loop_slot:
  assumes "playable ps" "i < length ps" "0 \<le> t" "nat t < k"
  shows "\<exists>n. sent_at (go_loop (replicate k (Some ps)) i) t cur = Some n
     \<and> in_slot ps n ((total_dur (take i ps) + t) mod total_dur ps)"
  using assms(2-)
proof (induction k arbitrary: i t cur)
  case (Suc k)
  have ne: "ps \<noteq> []" using Suc.prems(1) by auto
  have "go_dur (ps ! i) = page_dur (ps ! i)" using assms(1) Suc.prems(1) by (simp add: durations_agree playable_def)
  then have step: "sent_at (go_loop (replicate (Suc k) (Some ps)) i) t cur
      = (if t < page_dur (ps ! i) then Some i
         else sent_at (go_loop (replicate k (Some ps)) ((i + 1) mod length ps)) (t - page_dur (ps ! i)) (Some i))"
    using Suc.prems(1) ne by (simp add: go_round_def)
  show ?case
  proof (cases "t < page_dur (ps ! i)")
    case True
    then show ?thesis using step slot_end [OF assms(1) Suc.prems(1,2)] by simp
  next
    case False
    let ?u = "t - page_dur (ps ! i)" and ?j = "(i + 1) mod length ps"
    have "0 < page_dur (ps ! i)" using assms(1) Suc.prems(1) page_dur_pos by (simp add: playable_def)
    then have "0 \<le> ?u" "nat ?u < k" using False Suc.prems(2,3) by auto
    moreover have "?j < length ps" using ne by simp
    ultimately obtain n where "sent_at (go_loop (replicate k (Some ps)) ?j) ?u (Some i) = Some n"
      "in_slot ps n ((total_dur (take ?j ps) + ?u) mod total_dur ps)"
      using Suc.IH by blast
    then show ?thesis using step False slot_wrap [OF Suc.prems(1), of ?u] by auto
  qed
qed simp

text \<open>What was sent before a stop only matters until the next message.\<close>

lemma sent_at_cut: "0 \<le> u \<Longrightarrow> \<exists>c. sent_at (cut t acts @ rest) (t + u) cur = sent_at rest u c"
proof (induction t acts arbitrary: cur rule: cut.induct)
  case (3 t d as)
  show ?case
  proof (cases "t < d")
    case False
    then have "sent_at (cut t (Go_wait d # as) @ rest) (t + u) cur = sent_at (cut (t - d) as @ rest) (t - d + u) cur"
      using 3(2) by (simp add: algebra_simps)
    then show ?thesis using 3(1) [OF False 3(2)] by simp
  qed (use 3(2) in auto)
qed auto

lemma sent_after_push: "0 \<le> el \<Longrightarrow> \<exists>c. sent_at (push_all t old answers) (t + 700 + el) cur = sent_at (go_loop answers 0) el c"
  using sent_at_cut [of "700 + el" t old "Go_wait 200 # go_carousel answers" cur]
  by (auto simp: push_all_def go_carousel_def add.assoc)

text \<open>The carousel that a reset starts first is stopped before it has sent anything.\<close>

lemma reset_sends_late: "d < 500 \<Longrightarrow> cut d (go_carousel answers) = [Go_wait d]"
  by (simp add: go_carousel_def)

section \<open>Properties\<close>

text \<open>C4: the server's carousel runs the cycle the displays compute from the clock, behind it by exactly 700
  milliseconds and the time from the reset to the last push. All times count from the started-at time of the last
  reset; whatever was sent before, the last push (of the reset itself, a few milliseconds after it, or of any later
  edit) is at \<open>t\<close>, and since then every answer of the page provider is the same list of at least two pages, none of
  negative duration. Then at \<open>t + 700 + el\<close>, for every \<open>el\<close>, the last page the server has sent is the one that a
  display whose clock has counted \<open>el\<close> milliseconds computes from this list. For enough iterations, of which one a
  millisecond is plenty, the loop has a message by then.\<close>

theorem carousels_agree:
  assumes "started \<noteq> []" "1 < length ps" "playable ps"
    and "elapsed_since date now off started = Some el" "0 \<le> el" "nat el < k"
  shows "\<exists>n. sent_at (push_all t old (replicate k (Some ps))) (t + 700 + el) None = Some n
     \<and> calc_synced_page_index date now off (Some started) (Arr ps) cur = Some (int n)"
proof -
  have "0 < length ps" using assms(2) by linarith
  moreover obtain c where c: "sent_at (push_all t old (replicate k (Some ps))) (t + 700 + el) None
      = sent_at (go_loop (replicate k (Some ps)) 0) el c"
    using sent_after_push [OF assms(5)] by blast
  ultimately obtain n where n: "sent_at (go_loop (replicate k (Some ps)) 0) el c = Some n"
    "in_slot ps n ((total_dur (take 0 ps) + el) mod total_dur ps)"
    using go_loop_slot [OF assms(3) _ assms(5,6), of 0 c] by blast
  obtain m where "in_slot ps m (el mod total_dur ps)"
    "calc_synced_page_index date now off (Some started) (Arr ps) cur = Some (int m)"
    using synced_case [OF assms(1-5)] by blast
  then show ?thesis using n c in_slot_unique [OF assms(3)] by simp
qed

section \<open>Witnesses\<close>

lemma carousels_agree_witness:
  "\<exists>n. sent_at (sync_reset_life 3 [] (replicate 16001 (Some [demo_page 1 0, demo_page 2 5000]))) 16703 None = Some n
     \<and> calc_synced_page_index demo_date 17000 (Some 0) (Some (js ''t0'')) (Arr [demo_page 1 0, demo_page 2 5000]) None = Some (int n)"
  using carousels_agree [of "js ''t0''" "[demo_page 1 0, demo_page 2 5000]" demo_date 17000 "Some 0" 16000 16001 3 _ None]
  by (simp add: sync_reset_life_def demo_page_def demo_date_def elapsed_since_def server_now_def js_def)

text \<open>With a negative duration the two part.\<close>

lemma negative_duration_disagrees: "go_dur (demo_page 1 (- 5)) = 10000 \<and> page_dur (demo_page 1 (- 5)) = - 5"
  by (simp add: go_dur_def page_dur_def demo_page_def)

text \<open>An edit restarts the carousel from the first page, and the displays go on counting from the reset: ten seconds
  after a reset of two pages of ten seconds an edit is pushed; five seconds later the server is on the first page and
  a display that asks for the pages draws the second.\<close>

lemma edit_shifts_carousel:
  fixes ps :: "broadcast_page list"
  defines "ps \<equiv> [demo_page 1 10000, demo_page 2 10000]"
  shows "sent_at (push_all 10000 (sync_reset_life 0 [] (replicate 3 (Some ps))) (replicate 3 (Some ps))) 15000 None = Some 0
     \<and> calc_synced_page_index demo_date 16000 (Some 0) (Some (js ''t0'')) (Arr ps) None = Some 1"
proof
  show "sent_at (push_all 10000 (sync_reset_life 0 [] (replicate 3 (Some ps))) (replicate 3 (Some ps))) 15000 None = Some 0"
    unfolding ps_def by code_simp
  show "calc_synced_page_index demo_date 16000 (Some 0) (Some (js ''t0'')) (Arr ps) None = Some 1"
    unfolding ps_def by code_simp
qed

end
