(* ===== verification/Display_Server.thy ===== *)
theory Display_Server
  imports Display_Follow Go_Carousel
begin

text \<open>
  The display and the server's carousel together: the messages of the loop, delivered in order over the
  open socket of a display, keep it on the server's page; and a display that has lost its socket goes on
  in the order the server would, with the same durations.
\<close>

section \<open>Delivery\<close>

text \<open>The message of one send.\<close>

definition switch_msg :: "nat \<Rightarrow> ws_msg" where
  "switch_msg i = \<lparr>m_type = js ''page_switch'', m_pages = None, m_server_time = None, m_started_at = None,
     m_page_index = Some (int i)\<rparr>"

fun sends_of :: "go_act list \<Rightarrow> nat list" where
  "sends_of [] = []"
| "sends_of (Go_send i n # acts) = i # sends_of acts"
| "sends_of (Go_wait d # acts) = sends_of acts"

text \<open>The switches among the events of a display, in their order.\<close>

fun switch_in :: "int \<times> ev \<Rightarrow> ws_msg option" where
  "switch_in (now, Ws_message k m) = (if m_type m = js ''page_switch'' then Some m else None)"
| "switch_in (now, _) = None"

definition switches :: "(int \<times> ev) list \<Rightarrow> ws_msg list" where
  "switches es = List.map_filter switch_in es"

text \<open>What leaves the list and the socket of a display alone: the list may be pushed again, timers fire,
  countdown, font and configuration are answered, the operator clicks; but the socket is not lost, no answer to
  the page request comes in, the carousel is not reset, and no other list is pushed.\<close>

fun undisturbed :: "broadcast_page list \<Rightarrow> int \<times> ev \<Rightarrow> bool" where
  "undisturbed ps (now, Ws_message k m) \<longleftrightarrow>
     m_type m \<noteq> js ''sync_reset'' \<and> (m_type m = js ''pages_updated'' \<longrightarrow> m_pages m \<in> {None, Some ps})"
| "undisturbed ps (now, Ws_closing k) = False"
| "undisturbed ps (now, Ws_closed k) = False"
| "undisturbed ps (now, Resp_pages b) = False"
| "undisturbed ps (now, _) = True"

section \<open>Lemmas\<close>

lemma sends_of_append: "sends_of (xs @ ys) = sends_of xs @ sends_of ys"
  by (induction xs rule: sends_of.induct) simp_all

lemma sends_of_set: "i \<in> set (sends_of acts) \<longleftrightarrow> (\<exists>n. Go_send i n \<in> set acts)"
  by (induction acts rule: sends_of.induct) auto

lemma go_sends_valid: "i \<in> set (sends_of (go_loop (replicate k (Some ps)) idx)) \<Longrightarrow> i < length ps"
  using go_loop_valid [of i _ "replicate k (Some ps)" idx] by (auto simp: sends_of_set)

text \<open>With constant pages the sends go through the indices in their cyclic order.\<close>

lemma go_sends_cycle:
  "idx < length ps \<Longrightarrow> sends_of (go_loop (replicate k (Some ps)) idx) = map (\<lambda>j. (idx + j) mod length ps) [0..<k]"
proof (induction k arbitrary: idx)
  case (Suc k)
  let ?n = "length ps"
  have ne: "ps \<noteq> []" using Suc.prems by auto
  have e: "(Suc idx mod ?n + j) mod ?n = Suc (idx + j) mod ?n" for j
    using mod_add_left_eq [of "Suc idx" ?n j] by simp
  have "sends_of (go_loop (replicate (Suc k) (Some ps)) idx)
      = idx # sends_of (go_loop (replicate k (Some ps)) ((idx + 1) mod ?n))"
    using Suc.prems ne by (simp add: go_round_def)
  also have "\<dots> = idx # map (\<lambda>j. (idx + Suc j) mod ?n) [0..<k]"
    using Suc.IH [of "(idx + 1) mod ?n"] ne by (simp add: e)
  also have "\<dots> = map (\<lambda>j. (idx + j) mod ?n) [0..<Suc k]"
  proof -
    have "[0..<Suc k] = 0 # map Suc [0..<k]" by (simp add: map_Suc_upt upt_conv_Cons del: upt_Suc)
    then show ?thesis using Suc.prems by (simp add: o_def del: upt_Suc)
  qed
  finally show ?case .
qed simp

lemma switches_Cons: "switches (e # es) = (case switch_in e of None \<Rightarrow> switches es | Some m \<Rightarrow> m # switches es)"
  by (simp add: switches_def List.map_filter_simps split: option.splits)

text \<open>Everything else keeps the list, the index and the socket.\<close>

definition tracking :: "broadcast_page list \<Rightarrow> jint \<Rightarrow> dstate \<Rightarrow> bool" where
  "tracking ps idx s \<longleftrightarrow> pages s = Arr ps \<and> current_idx s = idx \<and> last_ready s = OPEN"

lemma tracking_fields:
  "tracking ps idx s \<Longrightarrow> pages s' = pages s \<Longrightarrow> current_idx s' = current_idx s \<Longrightarrow> socks s' = socks s \<Longrightarrow> tracking ps idx s'"
  by (simp add: tracking_def last_ready_def)

lemma keep_index_same: "0 \<le> i \<Longrightarrow> i < int (length ps) \<Longrightarrow> keep_index (Arr ps) (Some i) = Some i"
  by (auto simp: keep_index_def)

lemma render_index: "current_idx (render_current_page \<epsilon> s) = current_idx s"
  by (auto simp: render_current_page_def schedule_next_def append_page_def retire_old_def add_timer_def clear_timer_def
      Let_def split: option.splits)

lemma open_pending:
  assumes "control_inv s" "last_ready s = OPEN"
  shows "pending Tk_page s = {}" "pending Tk_reconnect s = {}"
  using controlD(5) [OF assms(1)] assms(2) by (auto simp: link_ok_def)

lemma message_tracking:
  assumes "clean_reach \<epsilon> m s" "tracking ps idx s" "undisturbed ps (now, Ws_message k msg)"
    and "m_type msg \<noteq> js ''page_switch''" "ps \<noteq> []"
  shows "tracking ps idx (handle_ws_message \<epsilon> now msg s)"
proof -
  let ?t = "note_started (m_started_at msg) (note_server_time \<epsilon> now (m_server_time msg) s)"
  have p: "pages s = Arr ps" "current_idx s = idx" using assms(2) by (simp_all add: tracking_def)
  have vw: "vw ?t = vw s" by simp
  note f = vwD [OF vw]
  have t: "tracking ps idx ?t" using f by (intro tracking_fields [OF assms(2)]) (simp_all add: note_started_def note_server_time_def)
  obtain i where i: "idx = Some i" "0 \<le> i" "i < int (length ps)"
    using clean_reachD(2) [OF assms(1)] p assms(5) by (auto simp: view_inv_def)
  show ?thesis
  proof (cases "m_type msg = js ''pages_updated'' \<and> m_pages msg \<noteq> None")
    case True
    then have l: "m_pages msg = Some ps" using assms(3) by auto
    let ?u = "(fetch_countdown (load_font ?t))\<lparr>pages := Arr ps\<rparr>"
    have h: "handle_ws_message \<epsilon> now msg s = render_current_page \<epsilon> (?u\<lparr>current_idx := Some i\<rparr>)"
      using True l f p i keep_index_same [OF i(2,3)] assms(5)
      by (simp add: handle_ws_message_def Let_def load_font_def fetch_countdown_def fetch_def)
    show ?thesis unfolding h using i(1)
      by (intro tracking_fields [OF t]) (simp_all add: render_index f p load_font_def fetch_countdown_def fetch_def)
  next
    case False
    then have "handle_ws_message \<epsilon> now msg s = ?t"
      using assms(3,4) by (auto simp: handle_ws_message_def Let_def)
    then show ?thesis using t by simp
  qed
qed

lemma fire_tracking:
  assumes "control_inv s" "tracking ps idx s" "map_of (timers s) t = Some k"
  shows "tracking ps idx (fire \<epsilon> now t k s)"
proof -
  have "last_ready s = OPEN" using assms(2) by (simp add: tracking_def)
  then have "k \<noteq> Tk_page" "k \<noteq> Tk_reconnect"
    using open_pending [OF assms(1)] map_of_pending [OF assms(3)] by auto
  then show ?thesis
    by (intro tracking_fields [OF assms(2)])
       (cases k; auto simp: fire_def on_ping_timer_def on_clock_timer_def request_fs_def Let_def split: prod.splits)+
qed

lemma quiet_tracking:
  assumes "clean_reach \<epsilon> m s" "tracking ps idx s" "clean_enabled \<epsilon> s e" "undisturbed ps e" "switch_in e = None" "ps \<noteq> []"
  shows "tracking ps idx (dstep \<epsilon> e s)"
proof -
  obtain now w where e: "e = (now, w)" by (cases e)
  have c: "control_inv s" and o: "last_ready s = OPEN"
    using clean_reachD(1) [OF assms(1)] assms(2) by (simp_all add: tracking_def)
  have en: "denabled s (now, w)" using assms(3) by (simp add: clean_enabled_def e)
  show ?thesis
  proof (cases w)
    case (Ws_open i)
    then show ?thesis using live_ready(2) [OF controlD(4) [OF c], of i "[CONNECTING]"] en o by simp
  next
    case (Ws_message i msg)
    then show ?thesis using message_tracking [OF assms(1,2) _ _ assms(6), of now i msg] assms(4,5)
      by (auto simp: e split: if_splits)
  next
    case (Timer t)
    then show ?thesis using fire_tracking [OF c assms(2)] assms(2) by (auto simp: e split: option.splits)
  next
    case (Resp_countdown b)
    then show ?thesis by (intro tracking_fields [OF assms(2)])
        (simp_all add: e on_countdown_body_def answered_def Let_def split: option.splits)
  next
    case (Resp_config b)
    then show ?thesis by (intro tracking_fields [OF assms(2)])
        (simp_all add: e on_config_body_def answered_def fetch_def Let_def split: option.splits)
  next
    case (Resp_fonts f x b)
    then show ?thesis by (intro tracking_fields [OF assms(2)])
        (simp_all add: e on_fonts_body_def answered_def Let_def split: option.splits)
  next
    case Click
    then show ?thesis by (intro tracking_fields [OF assms(2)]) (simp_all add: e request_fs_def)
  next
    case (Fs_change b)
    then show ?thesis by (intro tracking_fields [OF assms(2)]) (simp_all add: e)
  qed (use assms(4) in \<open>simp_all add: e\<close>)
qed

lemma switch_tracking:
  assumes "clean_reach \<epsilon> m s" "tracking ps idx s" "switch_in e = Some (switch_msg i)" "i < length ps"
  shows "tracking ps (Some (int i)) (dstep \<epsilon> e s)"
proof -
  obtain now k where e: "e = (now, Ws_message k (switch_msg i))"
    using assms(3) by (cases e rule: switch_in.cases) (auto split: if_splits)
  show ?thesis
    using switch_view [OF assms(1), of ps "switch_msg i" "int i" now k] assms(2,4)
    by (simp add: e tracking_def last_ready_def message_socks switch_msg_def)
qed

lemma follow_run:
  assumes "clean_reach \<epsilon> m s" "tracking ps idx s" "run_ok (clean_enabled \<epsilon>) (dstep \<epsilon>) es s"
    and "\<forall>e\<in>set es. undisturbed ps e" "switches es = map switch_msg is" "\<forall>i\<in>set is. i < length ps" "ps \<noteq> []"
  shows "clean_reach \<epsilon> m (run (dstep \<epsilon>) es s)
     \<and> tracking ps (if is = [] then idx else Some (int (last is))) (run (dstep \<epsilon>) es s)"
  using assms(1-6)
proof (induction es arbitrary: s idx "is")
  case Nil
  then show ?case by (simp add: switches_def List.map_filter_simps)
next
  case (Cons e es)
  have en: "clean_enabled \<epsilon> s e" and ok: "run_ok (clean_enabled \<epsilon>) (dstep \<epsilon>) es (dstep \<epsilon> e s)"
    using Cons.prems(3) by simp_all
  have cr: "clean_reach \<epsilon> m (dstep \<epsilon> e s)"
    using Cons.prems(1) en unfolding clean_reach_def by (rule reach_step)
  show ?case
  proof (cases "switch_in e")
    case None
    have "tracking ps idx (dstep \<epsilon> e s)"
      using quiet_tracking [OF Cons.prems(1,2) en _ None assms(7)] Cons.prems(4) by simp
    then show ?thesis using Cons.IH [OF cr _ ok] Cons.prems(4-6) None by (simp add: switches_Cons)
  next
    case (Some x)
    then obtain i js where "is": "is = i # js" "x = switch_msg i" "switches es = map switch_msg js"
      using Cons.prems(5) by (auto simp: switches_Cons)
    then have "tracking ps (Some (int i)) (dstep \<epsilon> e s)"
      using switch_tracking [OF Cons.prems(1,2)] Some Cons.prems(6) by simp
    then show ?thesis using Cons.IH [OF cr _ ok _ "is"(3)] Cons.prems(4,6) "is"(1) by (cases js) simp_all
  qed
qed

section \<open>Properties\<close>

text \<open>C3: a connected display stays on the server's page while nothing disturbs the two. Both have the same
  list \<open>ps\<close>, and the display, in a state of a run with drawable pages, has an open socket; the carousel is at
  any page of the list. Then in every run in which the page switches the display receives are those of any number of
  rounds of the carousel, in order and none lost, and in which whatever else happens in between (timers, answers
  about countdown, fonts and configuration, clicks, the same list pushed again) the socket stays open, no answer to
  the page request comes in, the carousel is not reset and no other list is pushed, the display shows exactly the page
  of the last round, the one that many pages further in the cycle, keeps the list and keeps the socket.\<close>

theorem display_tracks_server:
  assumes "clean_reach \<epsilon> m s" "pages s = Arr ps" "last_ready s = OPEN" "idx < length ps"
    and "run_ok (clean_enabled \<epsilon>) (dstep \<epsilon>) es s" "\<forall>e\<in>set es. undisturbed ps e"
    and "switches es = map switch_msg (sends_of (go_loop (replicate (Suc r) (Some ps)) idx))"
  shows "shown_pages (run (dstep \<epsilon>) es s) = [ps ! ((idx + r) mod length ps)]
     \<and> pages (run (dstep \<epsilon>) es s) = Arr ps \<and> last_ready (run (dstep \<epsilon>) es s) = OPEN"
proof -
  let ?is = "sends_of (go_loop (replicate (Suc r) (Some ps)) idx)"
  note cyc = go_sends_cycle [OF assms(4), of "Suc r"]
  have ne: "ps \<noteq> []" using assms(4) by auto
  have l: "?is \<noteq> []" "last ?is = (idx + r) mod length ps" unfolding cyc by simp_all
  have "\<forall>i\<in>set ?is. i < length ps" using go_sends_valid by blast
  from follow_run [OF assms(1) _ assms(5,6,7) this ne, of "current_idx s"] l
  have cr: "clean_reach \<epsilon> m (run (dstep \<epsilon>) es s)"
    and t: "tracking ps (Some (int ((idx + r) mod length ps))) (run (dstep \<epsilon>) es s)"
    using assms(2,3) by (auto simp: tracking_def)
  have "shown_pages (run (dstep \<epsilon>) es s) = [ps ! ((idx + r) mod length ps)]"
    using clean_reachD(2) [OF cr] t ne by (auto simp: view_inv_def tracking_def)
  then show ?thesis using t by (simp add: tracking_def)
qed

section \<open>Witnesses\<close>

definition track_run :: "(int \<times> ev) list" where
  "track_run = [(30, Ws_message 0 (switch_msg 0)), (40, Ws_message 0 (push_pages two_pages)), (50, Timer 1),
     (60, Resp_countdown None), (4030, Ws_message 0 (switch_msg 1)), (4040, Click)]"

lemma two_pages_0: "0 < length two_pages"
  by (simp add: two_pages_def)

lemma display_tracks_server_witness:
  "shown_pages (run (dstep demo_env) track_run (shown_run open_run)) = [demo_page 2 6000]"
proof -
  have "run_ok (clean_enabled demo_env) (dstep demo_env) track_run (shown_run open_run)" by code_simp
  moreover have "last_ready (shown_run open_run) = OPEN" by code_simp
  moreover have "\<forall>e\<in>set track_run. undisturbed two_pages e"
    by (simp add: track_run_def switch_msg_def push_pages_def js_def)
  moreover have "switches track_run = map switch_msg (sends_of (go_loop (replicate (Suc 1) (Some two_pages)) 0))"
    unfolding go_sends_cycle [OF two_pages_0] track_run_def
    by (simp add: switches_Cons)
       (simp add: switches_def List.map_filter_simps switch_msg_def push_pages_def js_def two_pages_def)
  ultimately show ?thesis
    using display_tracks_server [OF clean_run_reach [OF open_run_ok] open_run_pages, of 0 track_run 1]
    by (simp add: two_pages_def)
qed

end
