(* ===== verification/Ops_Pages.thy ===== *)
theory Ops_Pages
  imports Command_Page
begin

text \<open>
  The operations of the pages \<^verbatim>\<open>network\<close>, \<^verbatim>\<open>power\<close>, \<^verbatim>\<open>distribute\<close> and of the command form across
  rooms. A handler is a script: it shows messages, asks for confirmation, sends requests and waits for
  their answers, in the order of the code; an answer that is an error ends it with the error's message.
  Running a script against a server and an operator gives the list of what it did and its result.
\<close>

section \<open>Scripts\<close>

datatype eff = E_toast toast_tone jstr | E_ask jstr | E_send http | E_set string json | E_text string jstr
  \<comment> \<open>the last two: a state variable is set to an answer or to a text\<close>

record world =
  answer :: "http \<Rightarrow> jstr + json"
  agrees :: "jstr \<Rightarrow> bool"

type_synonym 'a script = "world \<Rightarrow> eff list \<times> (jstr + 'a)"

definition sc_ret :: "'a \<Rightarrow> 'a script" where
  "sc_ret x = (\<lambda>\<omega>. ([], Inr x))"

definition sc_bind :: "'a script \<Rightarrow> ('a \<Rightarrow> 'b script) \<Rightarrow> 'b script" where
  "sc_bind m f = (\<lambda>\<omega>. case m \<omega> of
     (l, Inl e) \<Rightarrow> (l, Inl e)
   | (l, Inr x) \<Rightarrow> (case f x \<omega> of (l', r) \<Rightarrow> (l @ l', r)))"

definition sc_then :: "'a script \<Rightarrow> 'b script \<Rightarrow> 'b script" where
  "sc_then m n = sc_bind m (\<lambda>_. n)"

definition sc_do :: "eff \<Rightarrow> unit script" where
  "sc_do e = (\<lambda>\<omega>. ([e], Inr ()))"

definition sc_toast :: "toast_tone \<Rightarrow> jstr \<Rightarrow> unit script" where
  "sc_toast t m = sc_do (E_toast t m)"

definition sc_ask :: "jstr \<Rightarrow> bool script" where
  "sc_ask m = (\<lambda>\<omega>. ([E_ask m], Inr (agrees \<omega> m)))"

definition sc_send :: "http \<Rightarrow> json script" where
  "sc_send h = (\<lambda>\<omega>. ([E_send h], answer \<omega> h))"

text \<open>\<open>.catch((err) => toast(err.message, "bad"))\<close>\<close>

definition sc_catch :: "unit script \<Rightarrow> unit script" where
  "sc_catch m = (\<lambda>\<omega>. case m \<omega> of (l, Inl e) \<Rightarrow> (l @ [E_toast Toast_bad e], Inr ()) | (l, Inr x) \<Rightarrow> (l, Inr x))"

text \<open>\<open>.catch(() => {})\<close>\<close>

definition sc_quiet :: "unit script \<Rightarrow> unit script" where
  "sc_quiet m = (\<lambda>\<omega>. (fst (m \<omega>), Inr ()))"

definition sends :: "'a script \<Rightarrow> world \<Rightarrow> http list" where
  "sends m \<omega> = List.map_filter (\<lambda>e. case e of E_send h \<Rightarrow> Some h | _ \<Rightarrow> None) (fst (m \<omega>))"

lemmas script_defs = sc_ret_def sc_bind_def sc_then_def sc_do_def sc_toast_def sc_ask_def sc_send_def sc_catch_def

section \<open>Texts\<close>

definition t_select_first :: jstr where "t_select_first = [0x8BF7, 0x5148, 0x9009, 0x62E9, 0x8BBE, 0x5907]"
definition t_select :: jstr where "t_select = [0x8BF7, 0x9009, 0x62E9, 0x8BBE, 0x5907]"
definition t_pick_devices :: jstr where "t_pick_devices = [0x8BF7, 0x6307, 0x5B9A, 0x8BBE, 0x5907]"
definition t_apply_ask :: jstr where "t_apply_ask = [0x628A, 0x5F53, 0x524D, 0x767D, 0x540D, 0x5355, 0x5E94, 0x7528, 0x5230, 0x5DF2, 0x9009, 0x8BBE, 0x5907, 0xFF1F]"
definition t_remove_ask :: jstr where "t_remove_ask = [0x89E3, 0x9664, 0x5DF2, 0x9009, 0x8BBE, 0x5907, 0x7684, 0x7F51, 0x7EDC, 0x9650, 0x5236, 0xFF1F]"
definition t_queued :: jstr where "t_queued = [0x5DF2, 0x5165, 0x961F]"
definition t_no_target :: jstr where "t_no_target = [0x6CA1, 0x6709, 0x76EE, 0x6807, 0x8BBE, 0x5907]"
definition t_issued :: jstr where "t_issued = [0x5DF2, 0x4E0B, 0x53D1]"
definition t_wake_queued :: jstr where "t_wake_queued = [0x5524, 0x9192, 0x5DF2, 0x5165, 0x961F]"
definition t_sent_out :: jstr where "t_sent_out = [0x5DF2, 0x6D3E, 0x53D1]"
definition t_pick_time :: jstr where "t_pick_time = [0x8BF7, 0x9009, 0x62E9, 0x65F6, 0x95F4]"
definition t_plan_queued :: jstr where "t_plan_queued = [0x8BA1, 0x5212, 0x5DF2, 0x5165, 0x961F]"
definition t_plan_added :: jstr where "t_plan_added = [0x5DF2, 0x6DFB, 0x52A0, 0x8BA1, 0x5212]"
definition t_pick_files :: jstr where "t_pick_files = [0x8BF7, 0x9009, 0x62E9, 0x6587, 0x4EF6]"
definition t_pick_or_all :: jstr where "t_pick_or_all = [0x8BF7, 0x6307, 0x5B9A, 0x8BBE, 0x5907, 0xFF0C, 0x6216, 0x6539, 0x6210, 0x5168, 0x90E8, 0x5728, 0x7EBF]"
definition t_dist_started :: jstr where "t_dist_started = [0x5206, 0x53D1, 0x5DF2, 0x5F00, 0x59CB]"
definition t_delete_ask :: jstr where "t_delete_ask = [0x4ECE, 0x6587, 0x4EF6, 0x5E93, 0x5220, 0x9664, 0x9009, 0x4E2D, 0x6587, 0x4EF6, 0xFF1F, 0x5DF2, 0x53D1, 0x5230, 0x673A, 0x5668, 0x4E0A, 0x7684, 0x526F, 0x672C, 0x4E0D, 0x53D7, 0x5F71, 0x54CD, 0x3002]"
definition t_uploading :: jstr where "t_uploading = [0x6B63, 0x5728, 0x4E0A, 0x4F20, 0x0020]"
definition t_uploaded :: jstr where "t_uploaded = [0x4E0A, 0x4F20, 0x5B8C, 0x6210]"

definition t_on_devices :: "pick_mode \<Rightarrow> nat \<Rightarrow> jstr \<Rightarrow> jstr" where
  "t_on_devices m n cmd = [0x5BF9] @ (if m = M_online then [0x5168, 0x90E8, 0x5728, 0x7EBF, 0x8BBE, 0x5907] else nat_digits n @ [0x0020, 0x53F0, 0x8BBE, 0x5907])
     @ [0x6267, 0x884C, 0x0020] @ cmd @ [0x0020, 0xFF1F]"

definition t_on_selected :: "jstr \<Rightarrow> jstr" where
  "t_on_selected cmd = [0x5411, 0x5DF2, 0x9009, 0x8BBE, 0x5907, 0x6267, 0x884C, 0x0020] @ cmd @ [0x0020, 0xFF1F]"

definition t_run_on :: "nat \<Rightarrow> jstr" where
  "t_run_on n = [0x5411, 0x0020] @ nat_digits n @ [0x0020, 0x53F0, 0x8BBE, 0x5907, 0x6267, 0x884C, 0xFF1F, 0x6BCF, 0x4E2A, 0x673A, 0x623F, 0x53EA, 0x6295, 0x9012, 0x4E00, 0x6B21, 0x3002]"

definition t_distribute_to :: "nat \<Rightarrow> nat \<Rightarrow> jstr" where
  "t_distribute_to n k = [0x5411, 0x0020] @ nat_digits n @ [0x0020, 0x53F0, 0x8BBE, 0x5907, 0x5206, 0x53D1, 0x0020] @ nat_digits k @ [0x0020, 0x4E2A, 0x6587, 0x4EF6, 0xFF1F]"

definition t_woken :: "jstr \<Rightarrow> jstr \<Rightarrow> jstr" where
  "t_woken a b = [0x5DF2, 0x53D1, 0x9001, 0x0020] @ a @ js ''/'' @ b @ [0x0020, 0x4E2A, 0x5524, 0x9192, 0x5305]"

definition t_net_log :: "jstr \<Rightarrow> pick_mode \<Rightarrow> nat \<Rightarrow> jstr" where
  "t_net_log i m n = js ''#'' @ i @ [0x0020, 0x5DF2, 0x4E00, 0x6B21, 0x6D3E, 0x53D1] @ (if m = M_online then [0x5230, 0x5168, 0x90E8, 0x5728, 0x7EBF, 0x8BBE, 0x5907]
     else [0x5230, 0x0020] @ nat_digits n @ [0x0020, 0x53F0])"

text \<open>A number of an answer as text.\<close>

definition num_text :: "json option \<Rightarrow> jstr" where
  "num_text v = (case v of Some (JNum r) \<Rightarrow> int_str \<lfloor>r\<rfloor> | _ \<Rightarrow> js ''undefined'')"

section \<open>Network rules\<close>

definition rule_json :: "net_rule \<Rightarrow> json" where
  "rule_json r = JObj [(js ''type'', JStr (rule_type r)), (js ''value'', JStr (rule_value r))]"

definition rules_json :: "net_rule list \<Rightarrow> json" where
  "rules_json rs = JArr (map rule_json rs)"

definition clean_rules :: "net_rule list \<Rightarrow> net_rule list" where
  "clean_rules rs = filter (\<lambda>r. rule_value r \<noteq> []) (map (\<lambda>r. r\<lparr>rule_value := trim (rule_value r)\<rparr>) rs)"

definition net_save :: "net_rule list \<Rightarrow> unit script" where
  "net_save rs = sc_bind (sc_send (http_send ''PUT'' (js ''/api/network/rules'') (Json (rules_json (clean_rules rs)))))
     (\<lambda>v. sc_do (E_set ''rules'' v))"

datatype net_kind = N_apply | N_remove

text \<open>The variable \<open>rules\<close> of the handler is the one of the render it was created in, whatever \<open>save\<close> sets.\<close>

definition net_act :: "net_kind \<Rightarrow> bool \<Rightarrow> jstr list \<Rightarrow> device list \<Rightarrow> net_rule list \<Rightarrow> pick_mode \<Rightarrow> int list \<Rightarrow> unit script" where
  "net_act k cloud_all fleet devs rules mode picked =
     (let save = (if k = N_apply then net_save rules else sc_ret ()) in
      if cloud_all then
        (if fleet = [] then sc_toast Toast_bad t_select_first
         else sc_then save
           (sc_bind (sc_ask (if k = N_apply then t_apply_ask else t_remove_ask)) (\<lambda>ok.
              if \<not> ok then sc_ret ()
              else sc_then (sc_send (queue_fleet fleet (if k = N_apply then ''network_apply'' else ''network_remove'')
                       (if k = N_apply then [(js ''rules'', rules_json rules)] else [])))
                     (sc_toast Toast_ok t_queued))))
      else
        (let ids = (if mode = M_online then map assigned_id (filter connected devs) else picked) in
         if ids = [] then sc_toast Toast_bad t_no_target
         else sc_then save
           (sc_bind (sc_send (http_send ''POST'' (js (if k = N_apply then ''/api/network/apply'' else ''/api/network/remove''))
               (Json (JObj (if mode = M_online then [(js ''target_type'', JStr (js ''broadcast''))]
                  else [(js ''target_type'', JStr (js ''list'')), (js ''target_ids'', JArr (map JInt ids))])))))
             (\<lambda>v. sc_then (sc_do (E_text ''log'' (t_net_log (num_text (jfield v ''id'')) mode (length ids))))
                (sc_toast Toast_ok t_issued)))))"

section \<open>Power\<close>

definition wake :: "bool \<Rightarrow> jstr list \<Rightarrow> pick_mode \<Rightarrow> int list \<Rightarrow> unit script" where
  "wake cloud_all fleet mode picked =
     (if cloud_all then
        (if fleet = [] then sc_toast Toast_bad t_select
         else sc_then (sc_send (queue_fleet fleet ''wol'' [])) (sc_toast Toast_ok t_wake_queued))
      else if mode = M_picked \<and> picked = [] then sc_toast Toast_bad t_pick_devices
      else sc_bind (sc_send (http_send ''POST'' (js ''/api/power/wol'')
          (Json (JObj (if mode = M_online then [(js ''target_type'', JStr (js ''all''))]
             else [(js ''target_type'', JStr (js ''list'')), (js ''device_ids'', JArr (map JInt picked))])))))
        (\<lambda>v. sc_toast Toast_ok (t_woken (num_text (jfield v ''sent'')) (num_text (jfield v ''total'')))))"

definition power_command :: "jstr \<Rightarrow> bool \<Rightarrow> jstr list \<Rightarrow> pick_mode \<Rightarrow> int list \<Rightarrow> unit script" where
  "power_command cmd cloud_all fleet mode picked =
     (if cloud_all then
        (if fleet = [] then sc_toast Toast_bad t_select
         else sc_bind (sc_ask (t_on_selected cmd)) (\<lambda>ok.
           if \<not> ok then sc_ret ()
           else sc_then (sc_send (queue_fleet fleet ''command'' [(js ''command'', JStr cmd)])) (sc_toast Toast_ok t_queued)))
      else sc_bind (sc_ask (t_on_devices mode (length picked) cmd)) (\<lambda>ok.
        if \<not> ok then sc_ret ()
        else sc_then (sc_send (http_send ''POST'' (js ''/api/commands'')
            (Json (JObj (if mode = M_online then [(js ''target_type'', JStr (js ''broadcast'')), (js ''command'', JStr cmd)]
               else [(js ''target_type'', JStr (js ''list'')), (js ''target_ids'', JArr (map JInt picked)), (js ''command'', JStr cmd)])))))
          (sc_toast Toast_ok t_sent_out)))"

text \<open>Creating a schedule; \<open>iso\<close> is \<open>new Date(when).toISOString()\<close>.\<close>

definition create_schedule :: "(jstr \<Rightarrow> jstr) \<Rightarrow> bool \<Rightarrow> jstr list \<Rightarrow> device list \<Rightarrow> pick_mode \<Rightarrow> int list \<Rightarrow> jstr \<Rightarrow> jstr \<Rightarrow> jstr \<Rightarrow> unit script" where
  "create_schedule iso_of cloud_all fleet devs mode picked action time note =
     (if time = [] then sc_toast Toast_bad t_pick_time
      else if cloud_all then
        (if fleet = [] then sc_toast Toast_bad t_select
         else sc_then (sc_send (queue_fleet fleet ''schedule''
                 [(js ''action'', JStr action), (js ''run_at'', JStr (iso_of time)), (js ''note'', JStr note)]))
               (sc_toast Toast_ok t_plan_queued))
      else
        (let ids = (if mode = M_picked then picked else map assigned_id devs) in
         if mode = M_picked \<and> ids = [] then sc_toast Toast_bad t_pick_devices
         else sc_then (sc_send (http_send ''POST'' (js ''/api/power/schedules'')
               (Json (JObj [(js ''action'', JStr action), (js ''run_at'', JStr time), (js ''note'', JStr note),
                  (js ''target_type'', JStr (js (if mode = M_online then ''all'' else ''list''))),
                  (js ''device_ids'', JArr (if mode = M_online then [] else map JInt ids))]))))
             (sc_then (sc_toast Toast_ok t_plan_added)
               (sc_quiet (sc_bind (sc_send (http_get (js ''/api/power/schedules''))) (\<lambda>v. sc_do (E_set ''schedules'' v)))))))"

section \<open>Distribution\<close>

definition load_files :: "unit script" where
  "load_files = sc_bind (sc_send (http_get (js ''/api/distribution/files''))) (\<lambda>v. sc_do (E_set ''files'' v))"

text \<open>\<open>loadTask\<close>; \<open>server_ip\<close> is the variable of the render.\<close>

definition load_task :: "bool \<Rightarrow> jstr \<Rightarrow> unit script" where
  "load_task cloud_all server_ip =
     (if cloud_all then sc_ret ()
      else sc_bind (sc_send (http_get (js ''/api/distribution/status''))) (\<lambda>v.
        sc_then (sc_do (E_set ''task'' v))
          (case jfield v ''suggested_ip'' of
             Some (JStr ip) \<Rightarrow> if ip \<noteq> [] \<and> server_ip = [] then sc_do (E_text ''serverIP'' ip) else sc_ret ()
           | _ \<Rightarrow> sc_ret ())))"

definition upload_file :: "jstr \<Rightarrow> unit script" where
  "upload_file name =
     sc_then (sc_do (E_text ''progress'' (t_uploading @ name)))
       (sc_then (sc_send (http_send ''POST'' (js ''/api/distribution/upload'') (Form_file name)))
         (sc_then (sc_do (E_text ''progress'' t_uploaded)) load_files))"

definition delete_files :: "jstr list \<Rightarrow> unit script" where
  "delete_files files =
     (if files = [] then sc_ret ()
      else sc_bind (sc_ask t_delete_ask) (\<lambda>ok.
        if \<not> ok then sc_ret ()
        else sc_then (sc_send (http_send ''POST'' (js ''/api/distribution/delete'')
              (Json (JObj [(js ''filenames'', JArr (map JStr files))]))))
            (sc_then (sc_do (E_set ''pickedFiles'' (JArr []))) load_files)))"

definition start_distribution :: "bool \<Rightarrow> jstr list \<Rightarrow> jstr list \<Rightarrow> pick_mode \<Rightarrow> int list \<Rightarrow> jstr \<Rightarrow> jstr \<Rightarrow> jstr \<Rightarrow> unit script" where
  "start_distribution cloud_all fleet files mode picked dir post ip =
     (if files = [] then sc_toast Toast_bad t_pick_files
      else if cloud_all then
        (if fleet = [] then sc_toast Toast_bad t_select
         else sc_bind (sc_ask (t_distribute_to (length fleet) (length files))) (\<lambda>ok.
           if \<not> ok then sc_ret ()
           else sc_then (sc_send (queue_fleet fleet ''distribute''
                   [(js ''files'', JArr (map JStr files)), (js ''save_dir'', JStr dir), (js ''post_cmd'', JStr post)]))
                 (sc_toast Toast_ok t_queued)))
      else
        (let ids = (if mode = M_picked then picked else []) in
         if mode = M_picked \<and> ids = [] then sc_toast Toast_bad t_pick_or_all
         else sc_then (sc_send (http_send ''POST'' (js ''/api/distribution/start'')
               (Json (JObj [(js ''files'', JArr (map JStr files)), (js ''save_dir'', JStr dir), (js ''post_cmd'', JStr post),
                  (js ''server_ip'', JStr ip), (js ''target_ids'', JArr (map JInt ids))]))))
             (sc_then (sc_toast Toast_ok t_dist_started) (load_task cloud_all ip))))"

section \<open>A command across rooms\<close>

definition cloud_command :: "jstr \<Rightarrow> jstr list \<Rightarrow> unit script" where
  "cloud_command cmd fleet =
     (if trim cmd = [] then sc_toast Toast_bad t_enter_command
      else if fleet = [] then sc_toast Toast_bad t_select_first
      else sc_bind (sc_ask (t_run_on (length fleet))) (\<lambda>ok.
        if \<not> ok then sc_ret ()
        else sc_then (sc_send (queue_fleet fleet ''command'' [(js ''command'', JStr cmd)])) (sc_toast Toast_ok t_queued)))"

section \<open>Lemmas\<close>

lemma sends_ret [simp]: "sends (sc_ret x) \<omega> = []"
  by (simp add: sends_def sc_ret_def List.map_filter_def)

lemma sends_quiet [simp]: "sends (sc_quiet m) \<omega> = sends m \<omega>"
  by (simp add: sends_def sc_quiet_def)

lemma sends_toast [simp]: "sends (sc_toast t m) \<omega> = []"
  by (simp add: sends_def sc_toast_def sc_do_def List.map_filter_def)

lemma sends_do [simp]: "(\<And>h. e \<noteq> E_send h) \<Longrightarrow> sends (sc_do e) \<omega> = []"
  by (cases e) (simp_all add: sends_def sc_do_def List.map_filter_def)

lemma sends_send [simp]: "sends (sc_send h) \<omega> = [h]"
  by (simp add: sends_def sc_send_def List.map_filter_def)

lemma sends_ask [simp]: "sends (sc_bind (sc_ask m) f) \<omega> = sends (f (agrees \<omega> m)) \<omega>"
  by (simp add: sends_def sc_ask_def sc_bind_def List.map_filter_def split: prod.splits)

lemma sends_bind: "sends (sc_bind m f) \<omega> = sends m \<omega> @ (case snd (m \<omega>) of Inl _ \<Rightarrow> [] | Inr x \<Rightarrow> sends (f x) \<omega>)"
  by (simp add: sends_def sc_bind_def List.map_filter_def split: prod.splits sum.splits)

lemma sends_then: "sends (sc_then m n) \<omega> = sends m \<omega> @ (case snd (m \<omega>) of Inl _ \<Rightarrow> [] | Inr _ \<Rightarrow> sends n \<omega>)"
  by (simp add: sc_then_def sends_bind)

lemma snd_send [simp]: "snd (sc_send h \<omega>) = answer \<omega> h"
  by (simp add: sc_send_def)

lemma sends_send_bind: "sends (sc_bind (sc_send h) f) \<omega> = h # (case answer \<omega> h of Inl _ \<Rightarrow> [] | Inr x \<Rightarrow> sends (f x) \<omega>)"
  by (simp add: sends_bind)

text \<open>What the cloud decodes from a network request of the console.\<close>

lemma go_rule_json: "go_rule (rule_json r) = Some r"
  by (simp add: go_rule_def rule_json_def jfield_def go_str_def) (simp add: js_def)

lemma go_list_rules: "go_list go_rule (Some (rules_json rs)) = Some rs"
  by (simp add: go_list_def rules_json_def o_def go_rule_json)

lemma decode_network:
  assumes "sel_ok sel"
  shows "decode_queue (request_json (queue_fleet (keys_of sel) ''network_apply'' [(js ''rules'', rules_json rules)]))
     = Some \<lparr>q_rooms = uniq (map fst sel), q_targets = grp sel, q_op = js ''network_apply'', q_command = [], q_files = [],
         q_save_dir = [], q_post_cmd = [], q_rules = rules, q_action = [], q_run_at = [], q_note = []\<rparr>"
proof -
  let ?v = "request_json (queue_fleet (keys_of sel) ''network_apply'' [(js ''rules'', rules_json rules)])"
  let ?ts = "map (apsnd (map (\<lambda>i. Fin (of_int i)))) (grp sel)"
  have f: "jfield ?v ''room_ids'' = Some (JArr (map (\<lambda>t. JStr (fst t)) ?ts))"
    "jfield ?v ''targets'' = Some (JObj (map (\<lambda>(r, is). (r, JArr (map num_json is))) ?ts))"
    "jfield ?v ''operation'' = Some (JStr (js ''network_apply''))" "jfield ?v ''rules'' = Some (rules_json rules)"
    "jfield ?v ''files'' = None" "jfield ?v ''save_dir'' = None" "jfield ?v ''post_cmd'' = None" "jfield ?v ''command'' = None"
    "jfield ?v ''action'' = None" "jfield ?v ''run_at'' = None" "jfield ?v ''note'' = None"
    by (simp_all add: jfield_def request_json_def queue_fleet_def http_send_def Let_def group_targets_keys [OF assms])
      (simp_all add: js_def)
  have "go_list (\<lambda>x. go_str (Some x)) (Some (JArr (map (\<lambda>t. JStr (fst t)) ?ts))) = Some (map fst ?ts)"
    by (simp add: go_list_def go_str_def o_def)
  moreover have "map fst ?ts = uniq (map fst sel)" by (simp add: grp_fst [symmetric] o_def)
  ultimately show ?thesis
    unfolding decode_queue_def Let_def f go_targets_grp go_list_rules by (simp add: go_str_def go_list_def)
qed

lemma queue_rooms_no_rule: "queue_rooms \<epsilon> q snap seen rooms \<noteq> Inl Q_rule"
proof (induction rooms arbitrary: seen)
  case (Cons r rooms)
  then show ?case by (auto simp: Let_def split: sum.splits)
qed simp

lemma queue_check_no_rule: "queue_check \<epsilon> q \<noteq> Some Q_rule"
  by (simp add: queue_check_def)

lemma handler_rule:
  assumes "qe_cloud \<epsilon>" "decode_queue v = Some q" "q_op q = js ''network_apply''"
  shows "queue_handler \<epsilon> v = Inl Q_rule \<longleftrightarrow> (\<exists>r\<in>set (q_rules q). \<not> rule_ok \<epsilon> r)"
proof (cases "\<exists>r\<in>set (q_rules q). \<not> rule_ok \<epsilon> r")
  case True
  then show ?thesis using assms by (simp add: queue_handler_def queue_rewrite_def)
next
  case False
  then obtain q' where "queue_rewrite \<epsilon> q = Inr q'" using assms(3) by (simp add: queue_rewrite_def)
  then have "queue_handler \<epsilon> v \<noteq> Inl Q_rule"
    using assms(1,2) queue_check_no_rule [of \<epsilon> q']
    by (cases "queue_check \<epsilon> q'") (auto simp: queue_handler_def Let_def queue_rooms_no_rule)
  with False show ?thesis by blast
qed

section \<open>Properties\<close>

text \<open>Operations across rooms are never sent without a selection or against the operator: with nothing
  selected, or when the operator declines, the power, command and distribution pages send no request at
  all, and neither does the deletion of files; the network page sends no operation, at most it saves its
  own rules.\<close>

theorem operations_guarded:
  assumes "fleet = [] \<or> (\<forall>t. \<not> agrees \<omega> t)"
  shows "sends (power_command cmd True fleet mode picked) \<omega> = [] \<and> sends (cloud_command cmd fleet) \<omega> = []
     \<and> sends (start_distribution True fleet files mode picked dir post ip) \<omega> = []
     \<and> ((\<forall>t. \<not> agrees \<omega> t) \<longrightarrow> sends (delete_files files) \<omega> = [] \<and> sends (power_command cmd False fleet mode picked) \<omega> = [])
     \<and> (\<forall>h\<in>set (sends (net_act k True fleet devs rules mode picked) \<omega>). rq_path h = js ''/api/network/rules'')"
proof -
  have "\<forall>h\<in>set (sends (net_save rules) \<omega>). rq_path h = js ''/api/network/rules''"
    by (auto simp: net_save_def sends_bind http_send_def split: sum.splits)
  then have "\<forall>h\<in>set (sends (net_act k True fleet devs rules mode picked) \<omega>). rq_path h = js ''/api/network/rules''"
    using assms by (auto simp: net_act_def sends_then split: sum.splits)
  moreover have "sends (power_command cmd True fleet mode picked) \<omega> = []" "sends (cloud_command cmd fleet) \<omega> = []"
    "sends (start_distribution True fleet files mode picked dir post ip) \<omega> = []"
    using assms by (auto simp: power_command_def cloud_command_def start_distribution_def)
  ultimately show ?thesis by (simp add: delete_files_def power_command_def)
qed

text \<open>Whether the cloud rejects a white list depends on the rows of the page as they stand: it does exactly
  when some row is blank or of an unknown type, although the page has just saved the list without its
  blank rows.\<close>

theorem network_apply_verdict:
  assumes "sel_ok sel" "qe_cloud \<epsilon>" "sel \<noteq> []" "\<forall>t. agrees \<omega> t" "\<And>h. \<exists>v. answer \<omega> h = Inr v"
  shows "\<exists>h. sends (net_act N_apply True (keys_of sel) devs rules mode picked) \<omega>
          = [http_send ''PUT'' (js ''/api/network/rules'') (Json (rules_json (clean_rules rules))), h]
     \<and> (queue_handler \<epsilon> (request_json h) = Inl Q_rule \<longleftrightarrow> (\<exists>r\<in>set rules. \<not> rule_ok \<epsilon> r))"
proof -
  let ?put = "http_send ''PUT'' (js ''/api/network/rules'') (Json (rules_json (clean_rules rules)))"
  let ?h = "queue_fleet (keys_of sel) ''network_apply'' [(js ''rules'', rules_json rules)]"
  obtain v w where a: "answer \<omega> ?put = Inr v" "answer \<omega> ?h = Inr w" using assms(5) by metis
  have "keys_of sel \<noteq> []" using assms(3) by (simp add: keys_of_def)
  moreover have "sends (net_save rules) \<omega> = [?put]" "snd (net_save rules \<omega>) = Inr ()"
    using a(1) by (simp_all add: net_save_def sends_bind) (simp add: sc_bind_def sc_send_def sc_do_def)
  ultimately have s: "sends (net_act N_apply True (keys_of sel) devs rules mode picked) \<omega> = [?put, ?h]"
    using assms(4) a(2) by (simp add: net_act_def sends_then)
  have "queue_handler \<epsilon> (request_json ?h) = Inl Q_rule \<longleftrightarrow> (\<exists>r\<in>set rules. \<not> rule_ok \<epsilon> r)"
    using handler_rule [OF assms(2) decode_network [OF assms(1)]] by simp
  with s show ?thesis by blast
qed

section \<open>Witnesses\<close>

definition yes_world :: world where
  "yes_world = \<lparr>answer = (\<lambda>_. Inr JNull), agrees = (\<lambda>_. True)\<rparr>"

definition no_world :: world where
  "no_world = \<lparr>answer = (\<lambda>_. Inr JNull), agrees = (\<lambda>_. False)\<rparr>"

lemma operations_guarded_witness: "sends (power_command (js ''reboot'') True [js ''a:1''] M_online []) no_world = []"
  using operations_guarded [of "[js ''a:1'']" no_world] by (simp add: no_world_def)

definition blank_row :: net_rule where
  "blank_row = \<lparr>rule_type = js ''DOMAIN-SUFFIX'', rule_value = []\<rparr>"

lemma network_apply_verdict_witness:
  "\<exists>h. sends (net_act N_apply True (keys_of demo_sel) [] [blank_row] M_online []) yes_world
     = [http_send ''PUT'' (js ''/api/network/rules'') (Json (JArr [])), h] \<and> queue_handler demo_qenv (request_json h) = Inl Q_rule"
proof -
  have "\<not> rule_ok demo_qenv blank_row" by (simp add: rule_ok_def demo_qenv_def blank_row_def)
  moreover have "rules_json (clean_rules [blank_row]) = JArr []" by (simp add: rules_json_def clean_rules_def blank_row_def)
  ultimately show ?thesis
    using network_apply_verdict [OF demo_sel_ok, of demo_qenv yes_world "[]" "[blank_row]" M_online "[]"]
    by (simp add: yes_world_def demo_qenv_def demo_sel_def)
qed

end
