(* ===== verification/Queue_Requests.thy ===== *)
theory Queue_Requests
  imports Ops_Pages
begin

text \<open>
  What the console sends to \<^verbatim>\<open>/api/cluster/jobs\<close> against what the handler \<^verbatim>\<open>Queue\<close> of
  \<^verbatim>\<open>internal/service/federation.go\<close> decodes: every operation of every page is a well typed body, and it
  names the rooms and devices that were selected.
\<close>

section \<open>The operations of the pages\<close>

text \<open>An operation across rooms, as the operator has filled in its form: the buttons of the power page, a command,
  waking, a schedule, a distribution and the buttons of the network page. The mode and the devices picked belong to the
  form of a single room and are not used across rooms.\<close>

datatype fleet_act = Act_power jstr pick_mode "int list" | Act_command jstr | Act_wake pick_mode "int list"
  | Act_schedule "device list" pick_mode "int list" jstr jstr jstr
  | Act_distribute "jstr list" pick_mode "int list" jstr jstr jstr
  | Act_network net_kind "device list" "net_rule list" pick_mode "int list"

text \<open>The handler of the page for it, across rooms, with the devices selected.\<close>

fun act_script :: "(jstr \<Rightarrow> jstr) \<Rightarrow> fleet_act \<Rightarrow> jstr list \<Rightarrow> unit script" where
  "act_script iso_of (Act_power cmd mode picked) fleet = power_command cmd True fleet mode picked"
| "act_script iso_of (Act_command cmd) fleet = cloud_command cmd fleet"
| "act_script iso_of (Act_wake mode picked) fleet = wake True fleet mode picked"
| "act_script iso_of (Act_schedule devs mode picked action time note) fleet =
     create_schedule iso_of True fleet devs mode picked action time note"
| "act_script iso_of (Act_distribute files mode picked dir post ip) fleet =
     start_distribution True fleet files mode picked dir post ip"
| "act_script iso_of (Act_network k devs rules mode picked) fleet = net_act k True fleet devs rules mode picked"

text \<open>What the operator means: the rooms in the order they were first selected, the devices selected in each, the
  operation, and the fields of its form; every field the operation does not have is empty.\<close>

definition plain_req :: "(jstr \<times> int) list \<Rightarrow> string \<Rightarrow> queue_req" where
  "plain_req sel op = \<lparr>q_rooms = uniq (map fst sel), q_targets = map (\<lambda>r. (r, ids_of r sel)) (uniq (map fst sel)),
     q_op = js op, q_command = [], q_files = [], q_save_dir = [], q_post_cmd = [], q_rules = [], q_action = [],
     q_run_at = [], q_note = []\<rparr>"

fun meant_req :: "(jstr \<Rightarrow> jstr) \<Rightarrow> fleet_act \<Rightarrow> (jstr \<times> int) list \<Rightarrow> queue_req" where
  "meant_req iso_of (Act_power cmd mode picked) sel = (plain_req sel ''command'')\<lparr>q_command := cmd\<rparr>"
| "meant_req iso_of (Act_command cmd) sel = (plain_req sel ''command'')\<lparr>q_command := cmd\<rparr>"
| "meant_req iso_of (Act_wake mode picked) sel = plain_req sel ''wol''"
| "meant_req iso_of (Act_schedule devs mode picked action time note) sel =
     (plain_req sel ''schedule'')\<lparr>q_action := action, q_run_at := iso_of time, q_note := note\<rparr>"
| "meant_req iso_of (Act_distribute files mode picked dir post ip) sel =
     (plain_req sel ''distribute'')\<lparr>q_files := files, q_save_dir := dir, q_post_cmd := post\<rparr>"
| "meant_req iso_of (Act_network N_apply devs rules mode picked) sel = (plain_req sel ''network_apply'')\<lparr>q_rules := rules\<rparr>"
| "meant_req iso_of (Act_network N_remove devs rules mode picked) sel = plain_req sel ''network_remove''"

text \<open>When a handler comes to its request: the form is filled in, the operator agrees to the question asked, if any,
  and the network rules could be saved before they are applied.\<close>

fun confirmed :: "world \<Rightarrow> fleet_act \<Rightarrow> nat \<Rightarrow> bool" where
  "confirmed \<omega> (Act_power cmd mode picked) n = agrees \<omega> (t_on_selected cmd)"
| "confirmed \<omega> (Act_command cmd) n = (trim cmd \<noteq> [] \<and> agrees \<omega> (t_run_on n))"
| "confirmed \<omega> (Act_wake mode picked) n = True"
| "confirmed \<omega> (Act_schedule devs mode picked action time note) n = (time \<noteq> [])"
| "confirmed \<omega> (Act_distribute files mode picked dir post ip) n = (files \<noteq> [] \<and> agrees \<omega> (t_distribute_to n (length files)))"
| "confirmed \<omega> (Act_network N_apply devs rules mode picked) n = (\<not> isl (snd (net_save rules \<omega>)) \<and> agrees \<omega> t_apply_ask)"
| "confirmed \<omega> (Act_network N_remove devs rules mode picked) n = agrees \<omega> t_remove_ask"

section \<open>Decoding\<close>

lemma queue_json:
  assumes "sel_ok sel"
  shows "request_json (queue_fleet (keys_of sel) op extra) = JObj
    ([(js ''operation'', JStr (js op)), (js ''room_ids'', JArr (map JStr (uniq (map fst sel)))),
      (js ''targets'', JObj (map (\<lambda>(r, is). (r, JArr (map num_json is))) (map (apsnd (map (\<lambda>i. Fin (of_int i)))) (grp sel))))] @ extra)"
  by (simp add: request_json_def queue_fleet_def http_send_def Let_def group_targets_keys [OF assms] grp_fst [symmetric] o_def)

text \<open>The grouping lists every room once, with its devices.\<close>

lemma grp_list: "grp sel = map (\<lambda>r. (r, ids_of r sel)) (uniq (map fst sel))"
proof (rule nth_equalityI)
  have f: "map fst (grp sel) = uniq (map fst sel)" by (rule grp_fst)
  then show l: "length (grp sel) = length (map (\<lambda>r. (r, ids_of r sel)) (uniq (map fst sel)))"
    by (metis length_map)
  fix i assume i: "i < length (grp sel)"
  obtain r ds where rd: "grp sel ! i = (r, ds)" by force
  have d: "distinct (map fst (grp sel))" unfolding f by simp
  have m: "map_of (grp sel) r = Some ds" using d i rd by (metis map_of_is_SomeI nth_mem)
  then have "ds = ids_of r sel" by (simp add: grp_map split: if_splits)
  moreover have "map fst (grp sel) ! i = r" using i rd by simp
  then have "uniq (map fst sel) ! i = r" unfolding f .
  ultimately show "grp sel ! i = map (\<lambda>r. (r, ids_of r sel)) (uniq (map fst sel)) ! i" using i rd l [symmetric] by simp
qed

text \<open>The fields beyond the three that \<^verbatim>\<open>queueFleet\<close> writes itself.\<close>

definition field_names :: "string list" where
  "field_names = [''command'', ''files'', ''save_dir'', ''post_cmd'', ''rules'', ''action'', ''run_at'', ''note'']"

lemma field_free: "k \<in> set field_names \<Longrightarrow> js k \<noteq> js ''operation'' \<and> js k \<noteq> js ''room_ids'' \<and> js k \<noteq> js ''targets''"
proof -
  assume k: "k \<in> set field_names"
  have "list_all (\<lambda>k. k \<notin> set [js ''operation'', js ''room_ids'', js ''targets'']) (map js field_names)" by code_simp
  with k show ?thesis unfolding list_all_iff by auto
qed

lemma decode_fields:
  assumes "sel_ok sel"
    and "go_str (map_of extra (js ''command'')) = Some cmd" "go_list (\<lambda>x. go_str (Some x)) (map_of extra (js ''files'')) = Some files"
    and "go_str (map_of extra (js ''save_dir'')) = Some dir" "go_str (map_of extra (js ''post_cmd'')) = Some post"
    and "go_list go_rule (map_of extra (js ''rules'')) = Some rules" "go_str (map_of extra (js ''action'')) = Some act"
    and "go_str (map_of extra (js ''run_at'')) = Some run_at" "go_str (map_of extra (js ''note'')) = Some note"
  shows "decode_queue (request_json (queue_fleet (keys_of sel) op extra))
     = Some \<lparr>q_rooms = uniq (map fst sel), q_targets = grp sel, q_op = js op, q_command = cmd, q_files = files, q_save_dir = dir,
          q_post_cmd = post, q_rules = rules, q_action = act, q_run_at = run_at, q_note = note\<rparr>"
proof -
  let ?v = "request_json (queue_fleet (keys_of sel) op extra)"
  have own: "jfield ?v ''operation'' = Some (JStr (js op))" "jfield ?v ''room_ids'' = Some (JArr (map JStr (uniq (map fst sel))))"
    "jfield ?v ''targets'' = Some (JObj (map (\<lambda>(r, is). (r, JArr (map num_json is))) (map (apsnd (map (\<lambda>i. Fin (of_int i)))) (grp sel))))"
    unfolding queue_json [OF assms(1)] by (simp_all add: jfield_def) (simp_all add: js_def)
  have rest: "jfield ?v k = map_of extra (js k)" if "k \<in> set field_names" for k
    unfolding queue_json [OF assms(1)] using field_free [OF that] by (simp add: jfield_def)
  have f: "jfield ?v ''command'' = map_of extra (js ''command'')" "jfield ?v ''files'' = map_of extra (js ''files'')"
    "jfield ?v ''save_dir'' = map_of extra (js ''save_dir'')" "jfield ?v ''post_cmd'' = map_of extra (js ''post_cmd'')"
    "jfield ?v ''rules'' = map_of extra (js ''rules'')" "jfield ?v ''action'' = map_of extra (js ''action'')"
    "jfield ?v ''run_at'' = map_of extra (js ''run_at'')" "jfield ?v ''note'' = map_of extra (js ''note'')"
    by (simp_all add: rest field_names_def)
  have "go_list (\<lambda>x. go_str (Some x)) (Some (JArr (map JStr (uniq (map fst sel))))) = Some (uniq (map fst sel))"
    by (simp add: go_list_def go_str_def o_def)
  then show ?thesis
    unfolding decode_queue_def Let_def f own go_targets_grp assms(2-9) by (simp add: go_str_def)
qed

section \<open>The requests of the pages\<close>

definition p_jobs :: jstr where "p_jobs = js ''/api/cluster/jobs''"

definition queued :: "unit script \<Rightarrow> world \<Rightarrow> http list" where
  "queued m \<omega> = filter (\<lambda>h. rq_path h = p_jobs) (sends m \<omega>)"

fun act_request :: "(jstr \<Rightarrow> jstr) \<Rightarrow> fleet_act \<Rightarrow> jstr list \<Rightarrow> http" where
  "act_request iso_of (Act_power cmd mode picked) fleet = queue_fleet fleet ''command'' [(js ''command'', JStr cmd)]"
| "act_request iso_of (Act_command cmd) fleet = queue_fleet fleet ''command'' [(js ''command'', JStr cmd)]"
| "act_request iso_of (Act_wake mode picked) fleet = queue_fleet fleet ''wol'' []"
| "act_request iso_of (Act_schedule devs mode picked action time note) fleet = queue_fleet fleet ''schedule''
     [(js ''action'', JStr action), (js ''run_at'', JStr (iso_of time)), (js ''note'', JStr note)]"
| "act_request iso_of (Act_distribute files mode picked dir post ip) fleet = queue_fleet fleet ''distribute''
     [(js ''files'', JArr (map JStr files)), (js ''save_dir'', JStr dir), (js ''post_cmd'', JStr post)]"
| "act_request iso_of (Act_network N_apply devs rules mode picked) fleet =
     queue_fleet fleet ''network_apply'' [(js ''rules'', rules_json rules)]"
| "act_request iso_of (Act_network N_remove devs rules mode picked) fleet = queue_fleet fleet ''network_remove'' []"

lemma fleet_path [simp]: "rq_path (queue_fleet fleet op extra) = p_jobs"
  by (simp add: queue_fleet_def http_send_def Let_def p_jobs_def)

lemma rules_path: "js ''/api/network/rules'' \<noteq> p_jobs"
  by (simp add: p_jobs_def js_def)

lemma net_save_queued: "filter (\<lambda>h. rq_path h = p_jobs) (sends (net_save rules) \<omega>) = []"
  using rules_path by (auto simp: net_save_def sends_send_bind http_send_def split: sum.splits)

lemma snd_ret: "snd (sc_ret x \<omega>) = Inr x"
  by (simp add: sc_ret_def)

lemma queued_once: "queued (act_script iso_of a fleet) \<omega>
    = (if fleet \<noteq> [] \<and> confirmed \<omega> a (length fleet) then [act_request iso_of a fleet] else [])"
proof (cases a)
  case (Act_network k devs rules mode picked)
  then show ?thesis
    by (cases k) (auto simp: queued_def net_act_def sends_then net_save_queued snd_ret split: sum.splits)
qed (auto simp: queued_def power_command_def cloud_command_def wake_def create_schedule_def start_distribution_def
    sends_then split: sum.splits)

lemma act_decodes: "sel_ok sel \<Longrightarrow> decode_queue (request_json (act_request iso_of a (keys_of sel))) = Some (meant_req iso_of a sel)"
proof (cases a)
  case (Act_network k devs rules mode picked)
  assume "sel_ok sel"
  with Act_network show ?thesis
    by (cases k) (simp_all add: decode_fields go_str_def go_list_def [of "\<lambda>x. go_str (Some x)"] go_list_def [of _ None]
      go_list_rules js_eq plain_req_def grp_list)
qed (simp_all add: decode_fields go_str_def go_list_def o_def js_eq plain_req_def grp_list)

section \<open>Properties\<close>

text \<open>C11: what the pages queue across rooms is what the operator means. Whichever operation it is (a power
  command, any command, waking, a schedule, a distribution, applying or removing network rules), whatever was typed
  into its form and however the questions and requests are answered, the handler of the page sends one request
  to the queue of the cloud when something is selected, the form is filled in and the operator agrees, and none
  otherwise; and from that request the cloud decodes exactly the rooms selected, each once, the devices selected in
  each, the operation, and every field of the form, the other fields being empty.\<close>

theorem fleet_requests_typed:
  assumes "sel_ok sel"
  shows "\<exists>h. queued (act_script iso_of a (keys_of sel)) \<omega> = (if sel \<noteq> [] \<and> confirmed \<omega> a (length sel) then [h] else [])
     \<and> decode_queue (request_json h) = Some (meant_req iso_of a sel)"
  using queued_once [of iso_of a "keys_of sel" \<omega>] act_decodes [OF assms, of iso_of a]
  by (intro exI [of _ "act_request iso_of a (keys_of sel)"]) (simp add: keys_of_def)

section \<open>Witnesses\<close>

lemma fleet_requests_typed_witness:
  "\<exists>h q. queued (act_script id (Act_wake M_online []) (keys_of demo_sel)) yes_world = [h]
     \<and> decode_queue (request_json h) = Some q \<and> q_rooms q = [js ''a'', js ''b''] \<and> q_op q = js ''wol''
     \<and> q_targets q = [(js ''a'', [1, 12]), (js ''b'', [1])]"
proof -
  have "demo_sel \<noteq> []" by (simp add: demo_sel_def)
  then obtain h where "queued (act_script id (Act_wake M_online []) (keys_of demo_sel)) yes_world = [h]"
    "decode_queue (request_json h) = Some (meant_req id (Act_wake M_online []) demo_sel)"
    using fleet_requests_typed [OF demo_sel_ok, of id "Act_wake M_online []" yes_world] by auto
  then show ?thesis by (simp add: plain_req_def demo_sel_def ids_of_def js_eq)
qed

end
