(* ===== verification/App_Nav.thy ===== *)
theory App_Nav
  imports Api_Route
begin

text \<open>
  Where the console is: the page and the room of \<^verbatim>\<open>frontend/src/state.tsx\<close>, the address bar they
  are kept in (\<^verbatim>\<open>go\<close>, \<^verbatim>\<open>setRoom\<close>, the \<^verbatim>\<open>popstate\<close> handler) and the parsers of
  \<^verbatim>\<open>lib/utils.ts\<close> that read it back (\<^verbatim>\<open>parsePage\<close>, \<^verbatim>\<open>roomFromPath\<close>). A handler keeps the
  room of the render it was created in, so \<^verbatim>\<open>go\<close> takes that room as an argument.
\<close>

section \<open>Pages\<close>

datatype page = P_rooms | P_dashboard | P_devices | P_screen | P_commands | P_network | P_distribute | P_power
  | P_checkin | P_broadcast | P_settings

definition all_pages :: "page list" where
  "all_pages = [P_rooms, P_dashboard, P_devices, P_screen, P_commands, P_network, P_distribute, P_power, P_checkin,
     P_broadcast, P_settings]"

fun page_name :: "page \<Rightarrow> jstr" where
  "page_name P_rooms = js ''rooms''"
| "page_name P_dashboard = js ''dashboard''"
| "page_name P_devices = js ''devices''"
| "page_name P_screen = js ''screen''"
| "page_name P_commands = js ''commands''"
| "page_name P_network = js ''network''"
| "page_name P_distribute = js ''distribute''"
| "page_name P_power = js ''power''"
| "page_name P_checkin = js ''checkin''"
| "page_name P_broadcast = js ''broadcast''"
| "page_name P_settings = js ''settings''"

definition strip_hash :: "jstr \<Rightarrow> jstr" where
  "strip_hash h = (if starts_with h (js ''#'') then drop 1 h else h)"

definition parse_page :: "jstr \<Rightarrow> page" where
  "parse_page h = (case find_first (\<lambda>p. page_name p = strip_hash h) all_pages of Some p \<Rightarrow> p | None \<Rightarrow> P_dashboard)"

text \<open>\<open>pathname.match(/^\/room\/([^/]+)\/?$/)\<close>; \<^term>\<open>None\<close> when the decoding throws.\<close>

definition room_from_path :: "jstr \<Rightarrow> jstr option" where
  "room_from_path p =
     (if starts_with p (js ''/room/'') then
        (let r = drop 6 p; m = (if r \<noteq> [] \<and> last r = 47 then butlast r else r)
         in if m \<noteq> [] \<and> 47 \<notin> set m then decode_uri m else Some [])
      else Some [])"

section \<open>Navigation\<close>

record nav =
  nav_page :: page
  nav_room :: jstr
  pathname :: jstr
  hash :: jstr

text \<open>\<open>history.pushState\<close> with an address made of an encoded path and a fragment. The browser also takes out the
  segments \<open>.\<close> and \<open>..\<close>, of which an encoded name has none unless it is one of the two itself: the cloud knows
  a room only by a name that \<open>uuid.Parse\<close> accepts (\<^verbatim>\<open>internal/service/federation.go\<close>, line 171), so no room of
  the selector is called so.\<close>

definition push_url :: "jstr \<Rightarrow> jstr \<Rightarrow> nav \<Rightarrow> nav" where
  "push_url path frag s = s\<lparr>pathname := path, hash := (if frag = [] then [] else js ''#'' @ frag)\<rparr>"

definition room_path :: "jstr \<Rightarrow> jstr option" where
  "room_path room = (if room = [] then Some (js ''/'') else map_option (\<lambda>r. js ''/room/'' @ r) (encode_uri room))"

definition nav_go :: "jstr \<Rightarrow> page \<Rightarrow> nav \<Rightarrow> nav option" where
  "nav_go captured target s =
     map_option (\<lambda>path.
       (let s1 = (if pathname s @ hash s \<noteq> path @ js ''#'' @ page_name target then push_url path (page_name target) s else s)
        in s1\<lparr>nav_page := target\<rparr>)) (room_path captured)"

text \<open>\<open>location.hash.replace("#", "") || page\<close>\<close>

definition set_room :: "page \<Rightarrow> jstr \<Rightarrow> nav \<Rightarrow> nav option" where
  "set_room captured_page room s =
     map_option (\<lambda>path. push_url path (str_or (Some (strip_hash (hash s))) (page_name captured_page)) (s\<lparr>nav_room := room\<rparr>))
       (room_path room)"

definition nav_sync :: "nav \<Rightarrow> nav" where
  "nav_sync s = (let s1 = s\<lparr>nav_page := parse_page (hash s)\<rparr> in
     case room_from_path (pathname s) of Some r \<Rightarrow> s1\<lparr>nav_room := r\<rparr> | None \<Rightarrow> s1)"

definition nav_init :: "jstr \<Rightarrow> jstr \<Rightarrow> nav option" where
  "nav_init path h = map_option (\<lambda>r. \<lparr>nav_page = parse_page h, nav_room = r, pathname = path, hash = h\<rparr>) (room_from_path path)"

text \<open>The two buttons that enter a room (\<^verbatim>\<open>pages/rooms.tsx\<close>, \<^verbatim>\<open>pages/devices.tsx\<close>): one handler calls
  \<open>setRoom\<close> and then the \<open>go\<close> of the same render.\<close>

definition enter_room :: "jstr \<Rightarrow> page \<Rightarrow> nav \<Rightarrow> nav option" where
  "enter_room room target s = (case set_room (nav_page s) room s of None \<Rightarrow> None | Some s1 \<Rightarrow> nav_go (nav_room s) target s1)"

text \<open>What the page shows after a reload.\<close>

definition reloaded :: "nav \<Rightarrow> (page \<times> jstr) option" where
  "reloaded s = map_option (\<lambda>n. (nav_page n, nav_room n)) (nav_init (pathname s) (hash s))"

section \<open>Lemmas\<close>

lemma page_name_inj: "page_name p = page_name q \<Longrightarrow> p = q"
  by (cases p; cases q) (simp_all add: js_def)

lemma page_name_ne [simp]: "page_name p \<noteq> []"
  by (cases p) (simp_all add: js_def)

lemma in_all_pages [simp]: "p \<in> set all_pages"
  by (cases p) (simp_all add: all_pages_def)

lemma strip_hash_push [simp]: "strip_hash (js ''#'' @ f) = f"
  by (simp add: strip_hash_def js_def starts_with_def)

lemma parse_page_name: "parse_page (js ''#'' @ page_name p) = p"
proof -
  obtain q where q: "find_first (\<lambda>q. page_name q = page_name p) all_pages = Some q"
    using find_first_None [of "\<lambda>q. page_name q = page_name p" all_pages] by auto
  then have "page_name q = page_name p" using find_first_Some [OF q] by simp
  then show ?thesis using q page_name_inj by (simp add: parse_page_def)
qed

lemma parse_page_strip: "strip_hash h = strip_hash h' \<Longrightarrow> parse_page h = parse_page h'"
  by (simp add: parse_page_def)

lemma parse_page_empty: "strip_hash h = [] \<Longrightarrow> parse_page h = P_dashboard"
  by (simp add: parse_page_def find_first_None [THEN iffD2])

definition units :: "jstr \<Rightarrow> bool" where
  "units s \<longleftrightarrow> (\<forall>c\<in>set s. code_unit c)"

lemma room_path_back:
  assumes "room_path room = Some path" "units room"
  shows "room_from_path path = Some room"
proof (cases "room = []")
  case True
  then show ?thesis using assms(1) by (simp add: room_path_def room_from_path_def js_def starts_with_def)
next
  case False
  then obtain e where e: "encode_uri room = Some e" "path = js ''/room/'' @ e"
    using assms(1) by (auto simp: room_path_def)
  have u: "\<forall>c\<in>set room. code_unit c" using assms(2) by (simp add: units_def)
  have ne: "e \<noteq> []" "47 \<notin> set e" using encode_Nil_iff [OF e(1)] encode_sep [OF e(1) u] False by simp_all
  then have "last e \<noteq> 47" by (metis last_in_set)
  moreover have "drop 6 (js ''/room/'' @ e) = e" by (simp add: js_def)
  ultimately show ?thesis using decode_encode [OF e(1) u] ne by (simp add: room_from_path_def e(2))
qed

text \<open>What holds of every address: the path has no fragment separator, the fragment starts with it.\<close>

definition loc_ok :: "nav \<Rightarrow> bool" where
  "loc_ok s \<longleftrightarrow> 35 \<notin> set (pathname s) \<and> (hash s = [] \<or> hd (hash s) = 35)"

text \<open>The state and the address bar say the same.\<close>

definition nav_ok :: "nav \<Rightarrow> bool" where
  "nav_ok s \<longleftrightarrow> loc_ok s \<and> parse_page (hash s) = nav_page s \<and> room_from_path (pathname s) = Some (nav_room s)
     \<and> units (nav_room s)"

lemma room_path_clean: "room_path room = Some path \<Longrightarrow> units room \<Longrightarrow> 35 \<notin> set path"
  using encode_sep(3) [of room] by (auto simp: room_path_def units_def js_def split: if_splits)

lemma same_url:
  assumes "loc_ok s" "35 \<notin> set path" "pathname s @ hash s = path @ js ''#'' @ f"
  shows "pathname s = path \<and> hash s = js ''#'' @ f"
proof -
  have i: "index_of 35 (pathname s @ hash s) = Some (length path)"
    using assms(2,3) by (simp add: js_def index_of_append)
  then have "hash s \<noteq> []" using assms(1) index_of_None [of 35 "pathname s"] by (auto simp: loc_ok_def)
  then obtain t where "hash s = 35 # t" using assms(1) by (cases "hash s") (auto simp: loc_ok_def)
  then have "length (pathname s) = length path" using i assms(1) by (simp add: loc_ok_def index_of_append)
  then show ?thesis using assms(3) by simp
qed

lemma push_ok:
  assumes "room_path room = Some path" "units room" "parse_page (js ''#'' @ f) = nav_page s" "nav_room s = room" "f \<noteq> []"
  shows "nav_ok (push_url path f s)"
  using assms room_path_back [OF assms(1,2)] room_path_clean [OF assms(1,2)]
  by (simp add: nav_ok_def loc_ok_def push_url_def) (simp add: js_def)

lemma go_ok:
  assumes "nav_ok s" "nav_go (nav_room s) p s = Some s'"
  shows "nav_ok s' \<and> nav_page s' = p \<and> nav_room s' = nav_room s"
proof -
  have u: "units (nav_room s)" and l: "loc_ok s" using assms(1) by (simp_all add: nav_ok_def)
  obtain path where path: "room_path (nav_room s) = Some path" using assms(2) by (auto simp: nav_go_def)
  show ?thesis
  proof (cases "pathname s @ hash s = path @ js ''#'' @ page_name p")
    case True
    note e = same_url [OF l room_path_clean [OF path u] True]
    then show ?thesis using assms path True parse_page_name [of p]
      by (auto simp: nav_go_def nav_ok_def loc_ok_def)
  next
    case False
    have "nav_ok (push_url path (page_name p) (s\<lparr>nav_page := p\<rparr>))"
      using path u by (intro push_ok [of "nav_room s"]) (simp_all add: parse_page_name)
    moreover have "s' = push_url path (page_name p) (s\<lparr>nav_page := p\<rparr>)"
      using assms(2) path False by (cases s) (auto simp: nav_go_def push_url_def Let_def)
    ultimately show ?thesis by (simp add: push_url_def)
  qed
qed

lemma set_room_ok:
  assumes "nav_ok s" "units room" "set_room (nav_page s) room s = Some s'"
  shows "nav_ok s' \<and> nav_page s' = nav_page s \<and> nav_room s' = room"
proof -
  obtain path where path: "room_path room = Some path" using assms(3) by (auto simp: set_room_def)
  let ?f = "str_or (Some (strip_hash (hash s))) (page_name (nav_page s))"
  have pg: "parse_page (hash s) = nav_page s" using assms(1) by (simp add: nav_ok_def)
  have "parse_page (js ''#'' @ ?f) = nav_page s"
  proof (cases "strip_hash (hash s) = []")
    case True
    then show ?thesis using parse_page_name [of "nav_page s"] by (simp add: str_or_def)
  next
    case False
    then show ?thesis using parse_page_strip [of "js ''#'' @ strip_hash (hash s)" "hash s"] pg by (simp add: str_or_def)
  qed
  moreover have "?f \<noteq> []" by (simp add: str_or_def)
  ultimately have "nav_ok (push_url path ?f (s\<lparr>nav_room := room\<rparr>))"
    using path assms(2) by (intro push_ok [of room]) simp_all
  then show ?thesis using assms(3) path by (auto simp: set_room_def push_url_def)
qed

section \<open>The invariant of navigation\<close>

text \<open>A menu entry, the room selector, and the browser moving to an address in its history.\<close>

datatype nav_ev = Go page | Select_room jstr | Moved jstr jstr

fun nav_step :: "nav_ev \<Rightarrow> nav \<Rightarrow> nav" where
  "nav_step (Go p) s = (case nav_go (nav_room s) p s of Some t \<Rightarrow> t | None \<Rightarrow> s)"
| "nav_step (Select_room r) s = (case set_room (nav_page s) r s of Some t \<Rightarrow> t | None \<Rightarrow> s)"
| "nav_step (Moved path h) s = nav_sync (s\<lparr>pathname := path, hash := h\<rparr>)"

fun nav_enabled :: "nav \<Rightarrow> nav_ev \<Rightarrow> bool" where
  "nav_enabled s (Go p) = True"
| "nav_enabled s (Select_room r) = (units r \<and> encode_uri r \<noteq> None)"
| "nav_enabled s (Moved path h) = (35 \<notin> set path \<and> (h = [] \<or> hd h = 35)
     \<and> (case room_from_path path of None \<Rightarrow> False | Some r \<Rightarrow> units r))"

lemma sync_ok: "loc_ok s \<Longrightarrow> room_from_path (pathname s) = Some r \<Longrightarrow> units r \<Longrightarrow> nav_ok (nav_sync s)"
  by (simp add: nav_sync_def nav_ok_def loc_ok_def)

lemma nav_step_ok:
  assumes "nav_ok s" "nav_enabled s e"
  shows "nav_ok (nav_step e s)"
proof (cases e)
  case (Go p)
  then show ?thesis using go_ok [OF assms(1)] assms(1) by (auto split: option.splits)
next
  case (Select_room r)
  then show ?thesis using set_room_ok [OF assms(1)] assms by (auto split: option.splits)
next
  case (Moved path h)
  then show ?thesis using assms(2) by (auto split: option.splits intro!: sync_ok simp: loc_ok_def)
qed

definition nav_start :: "nav \<Rightarrow> bool" where
  "nav_start s \<longleftrightarrow> loc_ok s \<and> nav_init (pathname s) (hash s) = Some s \<and> units (nav_room s)"

lemma nav_start_ok: "nav_start s \<Longrightarrow> nav_ok s"
  by (cases s) (auto simp: nav_start_def nav_init_def nav_ok_def loc_ok_def)

interpretation navigation: invariant_machine nav_start nav_enabled nav_step nav_ok
  by unfold_locales (auto simp: nav_start_ok nav_step_ok)

lemma nav_ok_reload: "nav_ok s \<Longrightarrow> reloaded s = Some (nav_page s, nav_room s)"
  by (auto simp: nav_ok_def reloaded_def nav_init_def)

section \<open>Properties\<close>

text \<open>A room's identity survives the address bar, whatever characters it has: reading the room back
  from the path the console writes for it gives the same room.\<close>

theorem room_address_roundtrip:
  assumes "room_path room = Some path" "\<forall>c\<in>set room. c < 0x10000"
  shows "room_from_path path = Some room"
  using room_path_back [OF assms(1)] assms(2) by (simp add: units_def code_unit_def)

text \<open>C23: with the menu, the room selector and the browser's history, a reload always brings back the page
  and the room the console is showing.\<close>

theorem navigation_survives_reload:
  assumes "reach nav_start nav_enabled nav_step s"
  shows "reloaded s = Some (nav_page s, nav_room s)"
  using navigation.inv_reach [OF assms] by (rule nav_ok_reload)

text \<open>Entering a room from the overview or the device table does not: the second call of the handler
  still has the previous room, so the address names the previous room while the state has the new one,
  and a reload leaves the room.\<close>

theorem enter_room_loses_address:
  assumes "nav_ok s" "units room" "room \<noteq> nav_room s" "set_room (nav_page s) room s = Some s1"
    and "room_path (nav_room s) = Some path"
  shows "\<exists>s'. enter_room room target s = Some s' \<and> nav_room s' = room \<and> nav_page s' = target
     \<and> reloaded s' = Some (target, nav_room s)"
proof -
  note s1 = set_room_ok [OF assms(1,2,4)]
  have u: "units (nav_room s)" using assms(1) by (simp add: nav_ok_def)
  note bk = room_path_back [OF assms(5) u]
  have p1: "room_from_path (pathname s1) = Some room" using s1 by (simp add: nav_ok_def)
  have differ: "pathname s1 @ hash s1 \<noteq> path @ js ''#'' @ page_name target"
  proof
    assume e: "pathname s1 @ hash s1 = path @ js ''#'' @ page_name target"
    have "loc_ok s1" using s1 by (simp add: nav_ok_def)
    then have "pathname s1 = path" using same_url [OF _ room_path_clean [OF assms(5) u] e] by simp
    then show False using p1 bk assms(3) by simp
  qed
  show ?thesis
    using differ assms(4,5) s1 bk
    by (simp add: enter_room_def nav_go_def push_url_def reloaded_def nav_init_def parse_page_name)
qed

section \<open>Witnesses\<close>

definition demo_nav :: nav where
  "demo_nav = \<lparr>nav_page = P_rooms, nav_room = [], pathname = js ''/'', hash = js ''#rooms''\<rparr>"

lemma demo_nav_ok: "nav_ok demo_nav"
proof -
  have "parse_page (js ''#rooms'') = P_rooms" "room_from_path (js ''/'') = Some []" by code_simp+
  then show ?thesis by (simp add: nav_ok_def demo_nav_def loc_ok_def units_def) (simp add: js_def)
qed

lemma demo_room_path: "room_path demo_room = Some (js ''/room/room%201'')"
  using demo_room_enc by (simp add: room_path_def) (simp add: demo_room_def js_def)

lemma demo_room_units: "\<forall>c\<in>set demo_room. c < 0x10000"
  by (simp add: demo_room_def js_def)

lemma room_address_roundtrip_witness: "room_from_path (js ''/room/room%201'') = Some demo_room"
  using room_address_roundtrip [OF demo_room_path demo_room_units] .

lemma navigation_survives_reload_witness:
  "reloaded (nav_step (Go P_devices) demo_nav) = Some (nav_page (nav_step (Go P_devices) demo_nav), nav_room (nav_step (Go P_devices) demo_nav))"
proof (rule navigation_survives_reload)
  have "nav_start demo_nav" using demo_nav_ok by (simp add: nav_start_def nav_init_def nav_ok_def demo_nav_def)
  then show "reach nav_start nav_enabled nav_step (nav_step (Go P_devices) demo_nav)"
    by (intro reach_step reach_init) simp_all
qed

lemma enter_room_loses_address_witness:
  "\<exists>s'. enter_room demo_room P_devices demo_nav = Some s' \<and> nav_room s' = demo_room \<and> reloaded s' = Some (P_devices, [])"
proof -
  obtain s1 where "set_room (nav_page demo_nav) demo_room demo_nav = Some s1"
    using demo_room_path by (simp add: set_room_def)
  moreover have "units demo_room" using demo_room_units by (simp add: units_def code_unit_def)
  ultimately show ?thesis
    using enter_room_loses_address [OF demo_nav_ok, of demo_room s1 "js ''/''" P_devices]
    by (auto simp: demo_nav_def room_path_def demo_room_def) (auto simp: js_def)
qed

end
