(* ===== verification/Room_Effects.thy ===== *)
theory Room_Effects
  imports App_Nav Ops_Pages
begin

text \<open>
  Which room the requests of the console are addressed to. The state of \<^verbatim>\<open>state.tsx\<close> says which room is
  shown; \<^verbatim>\<open>lib/api.ts\<close> keeps a variable of its own, which an effect of the provider sets after a render
  has been committed. The effects of one commit run from the inside out: first those of the page, then
  the provider's, in the order they are written; an effect runs when it is mounted or one of its
  dependencies has changed. The model follows a production build (in a development build React runs the
  effects of a new component twice). A commit is given by what the effects depend on: page, room and
  the server's mode.
\<close>

section \<open>State\<close>

record render =
  rd_page :: page
  rd_room :: jstr
  rd_mode :: jstr \<comment> \<open>\<open>deployment.mode\<close>\<close>

record session =
  ss_shown :: "render option"
  ss_api :: jstr \<comment> \<open>the variable \<open>roomID\<close> of \<open>lib/api.ts\<close>\<close>
  ss_sent :: "jstr option list" \<comment> \<open>the addresses asked, \<open>None\<close> where \<open>encodeURIComponent\<close> throws\<close>

definition session_start :: session where
  "session_start = \<lparr>ss_shown = None, ss_api = [], ss_sent = []\<rparr>"

definition set_api_room :: "jstr \<Rightarrow> session \<Rightarrow> session" where
  "set_api_room r s = s\<lparr>ss_api := r\<rparr>"

definition ask :: "jstr \<Rightarrow> session \<Rightarrow> session" where
  "ask p s = s\<lparr>ss_sent := ss_sent s @ [resolve (ss_api s) p]\<rparr>"

definition rd_cloud :: "render \<Rightarrow> bool" where
  "rd_cloud r \<longleftrightarrow> rd_mode r = js ''cloud''"

definition cloud_all :: "render \<Rightarrow> bool" where
  "cloud_all r \<longleftrightarrow> rd_cloud r \<and> rd_room r = []"

section \<open>Effects\<close>

text \<open>Dependencies: the page itself (it is mounted), the room, whether all rooms are shown.\<close>

definition mounted :: "render option \<Rightarrow> render \<Rightarrow> bool" where
  "mounted old new \<longleftrightarrow> (case old of None \<Rightarrow> True | Some o' \<Rightarrow> rd_page o' \<noteq> rd_page new)"

definition room_changed :: "render option \<Rightarrow> render \<Rightarrow> bool" where
  "room_changed old new \<longleftrightarrow> mounted old new \<or> (case old of None \<Rightarrow> True | Some o' \<Rightarrow> rd_room o' \<noteq> rd_room new)"

definition all_changed :: "render option \<Rightarrow> render \<Rightarrow> bool" where
  "all_changed old new \<longleftrightarrow> mounted old new \<or> (case old of None \<Rightarrow> True | Some o' \<Rightarrow> cloud_all o' \<noteq> cloud_all new)"

definition ask_if :: "bool \<Rightarrow> jstr list \<Rightarrow> jstr list" where
  "ask_if b ps = (if b then ps else [])"

definition p_devices :: jstr where "p_devices = js ''/api/devices''"
definition p_rules :: jstr where "p_rules = js ''/api/network/rules''"

text \<open>\<open>useDevices\<close> and the table of jobs, which only the overview of all rooms has.\<close>

definition use_devices :: "render option \<Rightarrow> render \<Rightarrow> jstr list" where
  "use_devices old new = ask_if (all_changed old new \<and> \<not> cloud_all new) [p_devices]"

definition jobs_effect :: "render option \<Rightarrow> render \<Rightarrow> jstr list" where
  "jobs_effect old new = ask_if (all_changed old new \<and> cloud_all new) [js ''/api/cluster/jobs'']"

text \<open>The requests of each page's effects, children first. \<open>CloudCommands\<close> and \<open>RoomCommands\<close> are two
  components: changing from one to the other mounts the new one.\<close>

definition snapshot_effects :: "render option \<Rightarrow> render \<Rightarrow> jstr list" where
  "snapshot_effects old new = ask_if (room_changed old new) [js ''/api/snapshots'']"

definition dashboard_effects :: "render option \<Rightarrow> render \<Rightarrow> jstr list" where
  "dashboard_effects old new = snapshot_effects old new
     @ ask_if ((all_changed old new \<or> room_changed old new) \<and> \<not> cloud_all new) [js ''/api/stats'']"

definition screen_effects :: "render option \<Rightarrow> render \<Rightarrow> jstr list" where
  "screen_effects old new = use_devices old new @ ask_if (room_changed old new) [js ''/api/settings'']"

definition cloud_commands_effects :: "render option \<Rightarrow> render \<Rightarrow> jstr list" where
  "cloud_commands_effects old new = jobs_effect old new @ ask_if (all_changed old new) [js ''/api/presets'']"

definition room_commands_effects :: "render option \<Rightarrow> render \<Rightarrow> jstr list" where
  "room_commands_effects old new = use_devices old new
     @ ask_if (room_changed old new \<or> all_changed old new) [js ''/api/presets'', js ''/api/commands?limit=30'']"

definition network_effects :: "render option \<Rightarrow> render \<Rightarrow> jstr list" where
  "network_effects old new = jobs_effect old new @ use_devices old new @ ask_if (room_changed old new) [p_rules]"

definition distribute_effects :: "render option \<Rightarrow> render \<Rightarrow> jstr list" where
  "distribute_effects old new = jobs_effect old new @ use_devices old new
     @ ask_if (room_changed old new \<or> all_changed old new)
         (js ''/api/distribution/files'' # ask_if (\<not> cloud_all new) [js ''/api/distribution/status''])"

definition power_effects :: "render option \<Rightarrow> render \<Rightarrow> jstr list" where
  "power_effects old new = jobs_effect old new @ use_devices old new
     @ ask_if ((room_changed old new \<or> all_changed old new) \<and> \<not> cloud_all new) [js ''/api/power/schedules'']"

definition checkin_effects :: "render option \<Rightarrow> render \<Rightarrow> jstr list" where
  "checkin_effects old new = use_devices old new @ ask_if (all_changed old new \<and> \<not> cloud_all new) [js ''/api/checkin/stats'']"

definition broadcast_effects :: "render option \<Rightarrow> render \<Rightarrow> jstr list" where
  "broadcast_effects old new = ask_if (mounted old new) [js ''/api/broadcast/pages?mode=before'']"

definition settings_effects :: "render option \<Rightarrow> render \<Rightarrow> jstr list" where
  "settings_effects old new = ask_if (room_changed old new) [js ''/api/settings'']"

definition page_effects :: "render option \<Rightarrow> render \<Rightarrow> jstr list" where
  "page_effects old new = (case rd_page new of
     P_rooms \<Rightarrow> []
   | P_devices \<Rightarrow> use_devices old new
   | P_commands \<Rightarrow> if cloud_all new then cloud_commands_effects old new else room_commands_effects old new
   | P_network \<Rightarrow> network_effects old new
   | P_distribute \<Rightarrow> distribute_effects old new
   | P_power \<Rightarrow> power_effects old new
   | P_checkin \<Rightarrow> checkin_effects old new
   | P_screen \<Rightarrow> screen_effects old new
   | P_broadcast \<Rightarrow> broadcast_effects old new
   | P_settings \<Rightarrow> settings_effects old new
   | P_dashboard \<Rightarrow> dashboard_effects old new)"

lemmas effect_defs = page_effects_def snapshot_effects_def dashboard_effects_def screen_effects_def cloud_commands_effects_def
  room_commands_effects_def network_effects_def distribute_effects_def power_effects_def checkin_effects_def
  broadcast_effects_def settings_effects_def use_devices_def jobs_effect_def ask_if_def

text \<open>The provider's effects: the first sets the variable, the others ask.\<close>

definition app_room_changed :: "render option \<Rightarrow> render \<Rightarrow> bool" where
  "app_room_changed old new \<longleftrightarrow> (case old of None \<Rightarrow> True | Some o' \<Rightarrow> rd_room o' \<noteq> rd_room new)"

definition mode_changed :: "render option \<Rightarrow> render \<Rightarrow> bool" where
  "mode_changed old new \<longleftrightarrow> (case old of None \<Rightarrow> True | Some o' \<Rightarrow> rd_mode o' \<noteq> rd_mode new)"

definition app_effects :: "render option \<Rightarrow> render \<Rightarrow> jstr list" where
  "app_effects old new =
     ask_if (app_room_changed old new) [js ''/api/cluster/status'']
     @ ask_if (mode_changed old new \<and> rd_cloud new) [js ''/api/cluster/rooms'']
     @ ask_if ((app_room_changed old new \<or> mode_changed old new \<or> mounted old new) \<and> \<not> cloud_all new) [js ''/api/stats'']"

definition commit :: "render \<Rightarrow> session \<Rightarrow> session" where
  "commit new s =
     (let old = ss_shown s;
          s1 = fold ask (page_effects old new) s;
          s2 = (if app_room_changed old new then set_api_room (rd_room new) s1 else s1);
          s3 = fold ask (app_effects old new) s2
      in s3\<lparr>ss_shown := Some new\<rparr>)"

text \<open>Events of the administration socket reload the list of devices on the pages that have it.\<close>

definition device_events :: "jstr list" where
  "device_events = [js ''device_connected'', js ''device_disconnected'', js ''device_updated'', js ''checkin_updated'', js ''device_health'']"

definition has_devices :: "render \<Rightarrow> bool" where
  "has_devices r \<longleftrightarrow> \<not> cloud_all r \<and> rd_page r \<in> {P_devices, P_screen, P_commands, P_network, P_distribute, P_power, P_checkin}"

definition device_event :: "jstr \<Rightarrow> session \<Rightarrow> session" where
  "device_event e s = (case ss_shown s of
     Some r \<Rightarrow> if has_devices r \<and> e \<in> set device_events then ask p_devices s else s
   | None \<Rightarrow> s)"

datatype session_ev = Commit render | Device_event jstr | Handler jstr \<comment> \<open>a button's own request\<close>

fun session_step :: "session_ev \<Rightarrow> session \<Rightarrow> session" where
  "session_step (Commit r) s = commit r s"
| "session_step (Device_event e) s = device_event e s"
| "session_step (Handler p) s = ask p s"

definition session_ok :: "session \<Rightarrow> bool" where
  "session_ok s \<longleftrightarrow> ss_api s = (case ss_shown s of None \<Rightarrow> [] | Some r \<Rightarrow> rd_room r)"

definition session_reach :: "session \<Rightarrow> bool" where
  "session_reach = reach (\<lambda>s. s = session_start) (\<lambda>_ _. True) session_step"

section \<open>Lemmas\<close>

lemma ask_simps [simp]: "ss_api (ask p s) = ss_api s" "ss_shown (ask p s) = ss_shown s"
  "ss_sent (ask p s) = ss_sent s @ [resolve (ss_api s) p]"
  by (simp_all add: ask_def)

lemma asks_simps [simp]: "ss_api (fold ask ps s) = ss_api s" "ss_shown (fold ask ps s) = ss_shown s"
  "ss_sent (fold ask ps s) = ss_sent s @ map (resolve (ss_api s)) ps"
  by (induction ps arbitrary: s) simp_all

lemma commit_simps:
  assumes "session_ok s"
  shows "ss_api (commit new s) = rd_room new" "ss_shown (commit new s) = Some new"
    "ss_sent (commit new s) = ss_sent s @ map (resolve (ss_api s)) (page_effects (ss_shown s) new)
       @ map (resolve (rd_room new)) (app_effects (ss_shown s) new)"
  using assms by (auto simp: commit_def Let_def set_api_room_def session_ok_def app_room_changed_def split: option.splits)

lemma session_step_ok: "session_ok s \<Longrightarrow> session_ok (session_step e s)"
  by (cases e) (auto simp: commit_simps device_event_def session_ok_def split: option.splits)

interpretation session: invariant_machine "\<lambda>s. s = session_start" "\<lambda>_ _. True" session_step session_ok
  by unfold_locales (simp_all add: session_step_ok, simp add: session_ok_def session_start_def)

lemma session_reach_ok: "session_reach s \<Longrightarrow> session_ok s"
  unfolding session_reach_def by (rule session.inv_reach)

lemma shown_api: "session_reach s \<Longrightarrow> ss_shown s = Some r \<Longrightarrow> ss_api s = rd_room r"
  using session_reach_ok [of s] by (simp add: session_ok_def)

lemma reach_commit: "session_reach s \<Longrightarrow> session_reach (commit r s)"
  unfolding session_reach_def using reach_step [of _ _ session_step s "Commit r"] by simp

lemma resolve_devices: "resolve room p_devices = (if room = [] then Some p_devices
    else map_option (\<lambda>r. js ''/api/cluster/rooms/'' @ r @ js ''/proxy/devices'') (encode_uri room))"
proof -
  have "split_query (raw_path p_devices) = (js ''devices'', [])" "proxied (js ''devices'')" "starts_with p_devices (js ''/'')"
    by code_simp+
  then show ?thesis by (simp add: resolve_def) (simp add: js_def)
qed

lemma resolve_rules: "resolve room p_rules = (if room = [] then Some p_rules
    else map_option (\<lambda>r. js ''/api/cluster/rooms/'' @ r @ js ''/proxy/network/rules'') (encode_uri room))"
proof -
  have "split_query (raw_path p_rules) = (js ''network/rules'', [])" "proxied (js ''network/rules'')" "starts_with p_rules (js ''/'')"
    by code_simp+
  then show ?thesis by (simp add: resolve_def) (simp add: js_def)
qed

lemma encode_inj: "encode_uri a = Some e \<Longrightarrow> encode_uri b = Some e \<Longrightarrow> units a \<Longrightarrow> units b \<Longrightarrow> a = b"
  using decode_encode [of a e] decode_encode [of b e] by (simp add: units_def)

lemma resolve_cases: "resolve room p = None \<or> resolve room p = resolve [] p
    \<or> (\<exists>e t. room \<noteq> [] \<and> encode_uri room = Some e \<and> resolve room p = Some (js ''/api/cluster/rooms/'' @ e @ js ''/proxy/'' @ t))"
  by (auto simp: resolve_def Let_def split: prod.splits option.splits)

lemma proxy_address_inj:
  assumes "encode_uri a = Some e" "encode_uri b = Some e'" "units a" "units b"
    and "js ''/api/cluster/rooms/'' @ e @ js ''/proxy/'' @ t = js ''/api/cluster/rooms/'' @ e' @ js ''/proxy/'' @ t'"
  shows "a = b"
proof -
  have cut: "takeWhile (\<lambda>c. c \<noteq> 47) (x @ js ''/proxy/'' @ y) = x" if "47 \<notin> set x" for x y :: jstr
    using that by (subst takeWhile_append2) (auto simp: js_def)
  have "47 \<notin> set e" "47 \<notin> set e'" using encode_sep(1) assms(1-4) by (auto simp: units_def)
  then have "e = e'" using cut [of e t] cut [of e' t'] assms(5) by simp
  then show ?thesis using encode_inj assms(1-4) by blast
qed

text \<open>The addresses behind which the effects' requests stay when no room is chosen.\<close>

definition room_prefix :: jstr where "room_prefix = js ''/api/cluster/rooms/''"

lemma starts_prefix: "starts_with (js ''/api/cluster/rooms/'' @ x) room_prefix"
  by (simp add: room_prefix_def starts_with_def)

lemma resolve_plain: "starts_with p (js ''/'') \<Longrightarrow> resolve [] p = Some p"
  by (simp add: resolve_def Let_def split: prod.splits)

lemma effects_plain:
  assumes "p \<in> set (page_effects old new) \<or> p \<in> set (app_effects old new)"
  shows "starts_with p (js ''/'') \<and> \<not> starts_with p room_prefix"
proof -
  have "p \<in> set [js ''/api/snapshots'', js ''/api/stats'', p_devices, js ''/api/settings'', js ''/api/cluster/jobs'', js ''/api/presets'',
      js ''/api/commands?limit=30'', p_rules, js ''/api/distribution/files'', js ''/api/distribution/status'', js ''/api/power/schedules'',
      js ''/api/checkin/stats'', js ''/api/broadcast/pages?mode=before'', js ''/api/cluster/status'', js ''/api/cluster/rooms'']"
    using assms by (auto simp: effect_defs app_effects_def split: page.splits if_splits)
  moreover have "list_all (\<lambda>p. starts_with p (js ''/'') \<and> \<not> starts_with p room_prefix)
     [js ''/api/snapshots'', js ''/api/stats'', p_devices, js ''/api/settings'', js ''/api/cluster/jobs'', js ''/api/presets'',
      js ''/api/commands?limit=30'', p_rules, js ''/api/distribution/files'', js ''/api/distribution/status'', js ''/api/power/schedules'',
      js ''/api/checkin/stats'', js ''/api/broadcast/pages?mode=before'', js ''/api/cluster/status'', js ''/api/cluster/rooms'']"
    by code_simp
  ultimately show ?thesis by (auto simp: list_all_iff)
qed

text \<open>The address of a room's own resource is asked by an effect only when the effect runs under that room.\<close>

lemma proxied_only_own:
  assumes "starts_with p (js ''/'') \<and> \<not> starts_with p room_prefix" "resolve a p = Some u" "encode_uri b = Some e"
    and "u = js ''/api/cluster/rooms/'' @ e @ js ''/proxy/'' @ t" "units a" "units b"
  shows "a = b"
  using resolve_cases [of a p]
proof (elim disjE exE conjE)
  assume "resolve a p = resolve [] p"
  then have "u = p" using assms(1,2) resolve_plain by auto
  then have "starts_with p room_prefix" using assms(4) starts_prefix [of "e @ js ''/proxy/'' @ t"] by simp
  then show ?thesis using assms(1) by blast
next
  fix e' t'
  assume "encode_uri a = Some e'" "resolve a p = Some (js ''/api/cluster/rooms/'' @ e' @ js ''/proxy/'' @ t')"
  then show ?thesis using proxy_address_inj [OF _ assms(3,5,6), of e' t' t] assms(2,4) by simp
qed (use assms(2) in simp)

lemma resolve_server:
  "split_query (raw_path p) = (h, q) \<Longrightarrow> \<not> proxied h \<Longrightarrow> starts_with p (js ''/'') \<Longrightarrow> resolve room p = Some p"
  by (simp add: resolve_def)

lemma resolve_stats:
  assumes "room \<noteq> []" "encode_uri room = Some e"
  shows "resolve room (js ''/api/stats'') = Some (js ''/api/cluster/rooms/'' @ e @ js ''/proxy/'' @ js ''stats'')"
proof -
  have "split_query (raw_path (js ''/api/stats'')) = (js ''stats'', [])" "proxied (js ''stats'')" by code_simp+
  then show ?thesis using assms by (simp add: resolve_def)
qed

lemma app_effects_own:
  assumes "p \<in> set (app_effects old new)" "room \<noteq> []" "encode_uri room = Some e" "t \<noteq> js ''stats''"
  shows "resolve room p \<noteq> Some (js ''/api/cluster/rooms/'' @ e @ js ''/proxy/'' @ t)"
proof -
  have "p \<in> set [js ''/api/cluster/status'', js ''/api/cluster/rooms'', js ''/api/stats'']"
    using assms(1) by (auto simp: app_effects_def ask_if_def split: if_splits)
  then consider "p = js ''/api/stats''" | "p = js ''/api/cluster/status''" | "p = js ''/api/cluster/rooms''" by auto
  then show ?thesis
  proof cases
    case 1
    then show ?thesis using resolve_stats [OF assms(2,3)] assms(4) by auto
  next
    case 2
    have "split_query (raw_path (js ''/api/cluster/status'')) = (js ''cluster/status'', [])" "\<not> proxied (js ''cluster/status'')"
      "starts_with (js ''/api/cluster/status'') (js ''/'')" by code_simp+
    then have "resolve room p = Some p" using 2 resolve_server by simp
    then show ?thesis using effects_plain [of p old new] assms(1) starts_prefix by auto
  next
    case 3
    have "split_query (raw_path (js ''/api/cluster/rooms'')) = (js ''cluster/rooms'', [])" "\<not> proxied (js ''cluster/rooms'')"
      "starts_with (js ''/api/cluster/rooms'') (js ''/'')" by code_simp+
    then have "resolve room p = Some p" using 3 resolve_server by simp
    then show ?thesis using effects_plain [of p old new] assms(1) starts_prefix by auto
  qed
qed

lemma net_save_path: "map rq_path (sends (net_save rs) \<omega>) = [p_rules]"
  by (simp add: net_save_def sends_send_bind http_send_def p_rules_def split: sum.splits)

lemma device_event_sent:
  "session_reach s \<Longrightarrow> ss_shown s = Some r \<Longrightarrow> ss_sent (device_event e s)
     = ss_sent s @ (if has_devices r \<and> e \<in> set device_events then [resolve (rd_room r) p_devices] else [])"
  using shown_api [of s r] by (simp add: device_event_def)

section \<open>Properties\<close>

text \<open>C32: what the operator does always goes to the room that is shown: after any sequence of renders, events and
  requests, a request of a button, and the reload of the device list by an event, are addressed to the
  room of the last render.\<close>

theorem handlers_reach_shown_room:
  assumes "session_reach s" "ss_shown s = Some r"
  shows "ss_sent (session_step (Handler p) s) = ss_sent s @ [resolve (rd_room r) p]
       \<and> ss_sent (session_step (Device_event e) s)
           = ss_sent s @ (if has_devices r \<and> e \<in> set device_events then [resolve (rd_room r) p_devices] else [])"
  using device_event_sent [OF assms] shown_api [OF assms] by simp

text \<open>The effects of a page do not: when the room changes with a render, the devices of the new room are not
  asked for, whatever page was shown and is shown. Entering a room from the overview lists the devices of
  the server itself, and changing rooms leaves the list as it was, until a device event comes.\<close>

theorem room_devices_not_asked:
  assumes "session_reach s" "ss_shown s = Some old" "rd_room old \<noteq> rd_room new" "units (rd_room old)" "units (rd_room new)"
    and "rd_room new \<noteq> []" "encode_uri (rd_room new) = Some e" "has_devices new"
  shows "\<exists>asked. ss_sent (commit new s) = ss_sent s @ asked \<and> resolve (rd_room new) p_devices \<notin> set asked
     \<and> ss_sent (device_event (js ''device_updated'') (commit new s)) = ss_sent s @ asked @ [resolve (rd_room new) p_devices]"
proof -
  let ?b = "rd_room new" and ?a = "rd_room old"
  let ?asked = "map (resolve ?a) (page_effects (Some old) new) @ map (resolve ?b) (app_effects (Some old) new)"
  have u: "resolve ?b p_devices = Some (js ''/api/cluster/rooms/'' @ e @ js ''/proxy/'' @ js ''devices'')"
    using assms(6,7) by (simp add: resolve_devices) (simp add: js_def)
  have "resolve ?a p \<noteq> resolve ?b p_devices" if "p \<in> set (page_effects (Some old) new)" for p
    using proxied_only_own [OF effects_plain _ assms(7) refl assms(4,5)] that u assms(3) by metis
  moreover have "resolve ?b p \<noteq> resolve ?b p_devices" if "p \<in> set (app_effects (Some old) new)" for p
    using app_effects_own [OF that assms(6,7), of "js ''devices''"] u by (simp add: js_def)
  ultimately have "resolve ?b p_devices \<notin> set ?asked" by (auto dest: sym)
  moreover have "ss_api s = ?a" using shown_api [OF assms(1,2)] .
  moreover have "js ''device_updated'' \<in> set device_events" by (simp add: device_events_def)
  ultimately show ?thesis
    using commit_simps [OF session_reach_ok [OF assms(1)], of new] assms(2,8)
      device_event_sent [OF reach_commit [OF assms(1)], of new new]
    by (intro exI [of _ ?asked]) simp
qed

text \<open>C39: so the white list of one room can overwrite that of another: when the room is changed on the network
  page, the rules asked for are the old room's, the new room's are not, and the next save of the rows
  shown is addressed to the new room.\<close>

theorem network_switch_mixes_rooms:
  assumes "session_reach s" "ss_shown s = Some old" "rd_page old = P_network" "rd_room old \<noteq> b" "rd_room old \<noteq> []" "b \<noteq> []"
    and "units (rd_room old)" "units b" "encode_uri b = Some e"
  shows "\<exists>asked. ss_sent (commit (old\<lparr>rd_room := b\<rparr>) s) = ss_sent s @ asked
     \<and> resolve (rd_room old) p_rules \<in> set asked \<and> resolve b p_rules \<notin> set asked
     \<and> ss_sent (fold (\<lambda>h. session_step (Handler (rq_path h))) (sends (net_save rs) \<omega>) (commit (old\<lparr>rd_room := b\<rparr>) s))
        = ss_sent s @ asked @ [resolve b p_rules]"
proof -
  let ?new = "old\<lparr>rd_room := b\<rparr>" and ?a = "rd_room old"
  let ?asked = "map (resolve ?a) (page_effects (Some old) ?new) @ map (resolve b) (app_effects (Some old) ?new)"
  have own: "p_rules \<in> set (page_effects (Some old) ?new)"
    using assms(3,4) by (simp add: effect_defs room_changed_def)
  have u: "resolve b p_rules = Some (js ''/api/cluster/rooms/'' @ e @ js ''/proxy/'' @ js ''network/rules'')"
    using assms(6,9) by (simp add: resolve_rules) (simp add: js_def)
  have "resolve ?a p \<noteq> resolve b p_rules" if "p \<in> set (page_effects (Some old) ?new)" for p
    using proxied_only_own [OF effects_plain _ assms(9) refl assms(7,8)] that u assms(4) by metis
  moreover have "resolve b p \<noteq> resolve b p_rules" if "p \<in> set (app_effects (Some old) ?new)" for p
    using app_effects_own [OF that assms(6,9), of "js ''network/rules''"] u by (simp add: js_def)
  ultimately have "resolve b p_rules \<notin> set ?asked" by (auto dest: sym)
  moreover have "ss_api s = ?a" using shown_api [OF assms(1,2)] .
  moreover obtain h where "sends (net_save rs) \<omega> = [h]" "rq_path h = p_rules"
    using net_save_path [of rs \<omega>] by (auto simp: map_eq_Cons_conv)
  ultimately show ?thesis
    using commit_simps [OF session_reach_ok [OF assms(1)], of ?new] assms(2) own
    by (intro exI [of _ ?asked]) simp
qed

section \<open>Witnesses\<close>

definition on_page :: "page \<Rightarrow> jstr \<Rightarrow> render" where
  "on_page p room = \<lparr>rd_page = p, rd_room = room, rd_mode = js ''cloud''\<rparr>"

lemma on_page_simps [simp]: "rd_page (on_page p r) = p" "rd_room (on_page p r) = r" "rd_room_update (\<lambda>_. r') (on_page p r) = on_page p r'"
  "cloud_all (on_page p r) \<longleftrightarrow> r = []"
  by (simp_all add: on_page_def cloud_all_def rd_cloud_def)

lemma first_commit: "session_reach (commit r session_start)" "ss_shown (commit r session_start) = Some r"
proof -
  have s: "session_reach session_start" unfolding session_reach_def by (rule reach_init) simp
  show "session_reach (commit r session_start)" by (rule reach_commit [OF s])
  show "ss_shown (commit r session_start) = Some r" by (simp add: commit_simps session_reach_ok [OF s])
qed

lemma demo_units: "units demo_room" "units []" "units (js ''a'')"
  by (simp_all add: units_def demo_room_def code_unit_def js_def)

lemma handlers_reach_shown_room_witness:
  "last (ss_sent (session_step (Handler p_rules) (commit (on_page P_network demo_room) session_start))) = resolve demo_room p_rules"
  using handlers_reach_shown_room [OF first_commit(1) first_commit(2)] by simp

lemma room_devices_not_asked_witness:
  "\<exists>asked. ss_sent (commit (on_page P_devices demo_room) (commit (on_page P_rooms []) session_start))
       = ss_sent (commit (on_page P_rooms []) session_start) @ asked \<and> resolve demo_room p_devices \<notin> set asked"
proof -
  have "demo_room \<noteq> []" by (simp add: demo_room_def js_def)
  then show ?thesis
    using room_devices_not_asked [OF first_commit, of "on_page P_rooms []" "on_page P_devices demo_room" "js ''room%201''"] demo_units demo_room_enc
    by (auto simp: has_devices_def)
qed

lemma network_switch_mixes_rooms_witness:
  "\<exists>asked. ss_sent (commit (on_page P_network demo_room) (commit (on_page P_network (js ''a'')) session_start))
       = ss_sent (commit (on_page P_network (js ''a'')) session_start) @ asked
     \<and> resolve (js ''a'') p_rules \<in> set asked \<and> resolve demo_room p_rules \<notin> set asked"
proof -
  have "demo_room \<noteq> []" "demo_room \<noteq> js ''a''" "js ''a'' \<noteq> []" by (simp_all add: demo_room_def js_def)
  then show ?thesis
    using network_switch_mixes_rooms [OF first_commit, of "on_page P_network (js ''a'')" demo_room "js ''room%201''" "[]" yes_world]
      demo_units demo_room_enc
    by auto
qed

end
