(* ===== verification/Console_Link.thy ===== *)
theory Console_Link
  imports Command_Page Display_Machine
begin

text \<open>
  What the provider of \<^verbatim>\<open>frontend/src/state.tsx\<close> keeps besides room and page: the socket of administration
  events with its reconnection, the listeners it feeds, the messages that vanish after a while, and the
  question to the operator. Each is a machine with its invariant; timers are identified by numbers, and
  any pending one may fire.
\<close>

section \<open>The socket\<close>

record admin_link =
  al_socks :: "ready list"
  al_timer :: nat \<comment> \<open>the variable \<open>timer\<close>, 0 before the first\<close>
  al_pending :: "nat list"
  al_stopped :: bool
  al_connected :: bool

definition al_new :: "admin_link \<Rightarrow> admin_link" where
  "al_new s = s\<lparr>al_socks := al_socks s @ [CONNECTING]\<rparr>"

definition al_open :: "admin_link \<Rightarrow> admin_link" where
  "al_open s = (if al_stopped s then s else al_new s)"

definition al_blank :: admin_link where
  "al_blank = \<lparr>al_socks = [], al_timer = 0, al_pending = [], al_stopped = False, al_connected = False\<rparr>"

definition al_mount :: admin_link where
  "al_mount = al_open al_blank"

definition al_on_open :: "nat \<Rightarrow> admin_link \<Rightarrow> admin_link" where
  "al_on_open k s = s\<lparr>al_socks := (al_socks s)[k := OPEN], al_connected := True\<rparr>"

definition al_on_close :: "nat \<Rightarrow> admin_link \<Rightarrow> admin_link" where
  "al_on_close k s =
     (let s1 = s\<lparr>al_socks := (al_socks s)[k := CLOSED], al_connected := False\<rparr> in
      if al_stopped s1 then s1
      else s1\<lparr>al_timer := Suc (al_timer s1), al_pending := al_pending s1 @ [Suc (al_timer s1)]\<rparr>)"

definition al_on_timer :: "nat \<Rightarrow> admin_link \<Rightarrow> admin_link" where
  "al_on_timer t s = al_open (s\<lparr>al_pending := filter (\<lambda>u. u \<noteq> t) (al_pending s)\<rparr>)"

text \<open>\<open>socket?.close()\<close> on the last socket made.\<close>

definition al_close :: "admin_link \<Rightarrow> admin_link" where
  "al_close s = (if al_socks s = [] then s else
     (let k = length (al_socks s) - 1 in
      if al_socks s ! k = CLOSED then s else s\<lparr>al_socks := (al_socks s)[k := CLOSING]\<rparr>))"

definition al_unmount :: "admin_link \<Rightarrow> admin_link" where
  "al_unmount s = al_close (s\<lparr>al_stopped := True, al_pending := filter (\<lambda>u. u \<noteq> al_timer s) (al_pending s)\<rparr>)"

datatype al_ev = Al_opened nat | Al_closed nat | Al_timeout nat | Al_unmount

fun al_step :: "al_ev \<Rightarrow> admin_link \<Rightarrow> admin_link" where
  "al_step (Al_opened k) s = al_on_open k s"
| "al_step (Al_closed k) s = al_on_close k s"
| "al_step (Al_timeout t) s = al_on_timer t s"
| "al_step Al_unmount s = al_unmount s"

fun al_enabled :: "admin_link \<Rightarrow> al_ev \<Rightarrow> bool" where
  "al_enabled s (Al_opened k) = (k < length (al_socks s) \<and> al_socks s ! k = CONNECTING)"
| "al_enabled s (Al_closed k) = (k < length (al_socks s) \<and> al_socks s ! k \<noteq> CLOSED)"
| "al_enabled s (Al_timeout t) = (t \<in> set (al_pending s))"
| "al_enabled s Al_unmount = (\<not> al_stopped s)"

text \<open>All sockets but the last are closed; while mounted, the last one is live and nothing is pending, or it is
  closed and one reconnection is; after that nothing is pending and the last one is closed or closing.\<close>

definition al_ok :: "admin_link \<Rightarrow> bool" where
  "al_ok s \<longleftrightarrow> (\<exists>old last. al_socks s = old @ [last] \<and> (\<forall>x\<in>set old. x = CLOSED)
     \<and> (if al_stopped s then al_pending s = [] \<and> (last = CLOSING \<or> last = CLOSED)
        else last \<noteq> CLOSING \<and> (al_connected s \<longleftrightarrow> last = OPEN)
          \<and> al_pending s = (if last = CLOSED then [al_timer s] else [])))"

lemma al_last_only:
  assumes "k < length (old @ [x])" "(old @ [x]) ! k \<noteq> CLOSED" "\<forall>x\<in>set old. x = CLOSED"
  shows "k = length old"
  using assms by (metis Suc_leI length_append_singleton linorder_neqE_nat not_less_eq nth_append nth_mem)

lemma al_step_ok:
  assumes "al_ok s" "al_enabled s e"
  shows "al_ok (al_step e s)"
proof -
  obtain old x where o: "al_socks s = old @ [x]" "\<forall>x\<in>set old. x = CLOSED"
    and m: "if al_stopped s then al_pending s = [] \<and> (x = CLOSING \<or> x = CLOSED)
        else x \<noteq> CLOSING \<and> (al_connected s \<longleftrightarrow> x = OPEN) \<and> al_pending s = (if x = CLOSED then [al_timer s] else [])"
    using assms(1) by (auto simp: al_ok_def)
  show ?thesis
  proof (cases e)
    case (Al_opened k)
    then have "k = length old" using assms(2) o al_last_only [of k old x] by simp
    then show ?thesis using Al_opened assms(2) o m by (auto simp: al_ok_def al_on_open_def split: if_splits)
  next
    case (Al_closed k)
    then have "k = length old" using assms(2) o al_last_only [of k old x] by simp
    then show ?thesis using Al_closed assms(2) o m by (auto simp: al_ok_def al_on_close_def split: if_splits)
  next
    case (Al_timeout t)
    then show ?thesis using assms(2) o m
      by (auto simp: al_ok_def al_on_timer_def al_open_def al_new_def split: if_splits)
  next
    case Al_unmount
    then show ?thesis using assms(2) o m
      by (auto simp: al_ok_def al_unmount_def al_close_def nth_append split: if_splits)
  qed
qed

interpretation admin_socket: invariant_machine "\<lambda>s. s = al_mount" al_enabled al_step al_ok
  by unfold_locales (simp_all add: al_step_ok, simp add: al_mount_def al_open_def al_new_def al_blank_def al_ok_def)

definition al_reach :: "admin_link \<Rightarrow> bool" where
  "al_reach = reach (\<lambda>s. s = al_mount) al_enabled al_step"

definition al_live :: "admin_link \<Rightarrow> nat" where
  "al_live s = length (filter (\<lambda>x. x = CONNECTING \<or> x = OPEN) (al_socks s))"

section \<open>Listeners\<close>

text \<open>The set of listeners in the order of insertion; a listener that throws ends the round, for the handler's
  \<open>catch\<close> is around all of them.\<close>

definition add_listener :: "'l \<Rightarrow> 'l list \<Rightarrow> 'l list" where
  "add_listener f ls = (if f \<in> set ls then ls else ls @ [f])"

definition drop_listener :: "'l \<Rightarrow> 'l list \<Rightarrow> 'l list" where
  "drop_listener f ls = filter (\<lambda>g. g \<noteq> f) ls"

fun call_all :: "('l \<Rightarrow> bool) \<Rightarrow> 'l list \<Rightarrow> 'l list" where
  "call_all throws [] = []"
| "call_all throws (f # fs) = (if throws f then [f] else f # call_all throws fs)"

definition on_admin_message :: "(jstr \<Rightarrow> 'm option) \<Rightarrow> ('m \<Rightarrow> 'l \<Rightarrow> bool) \<Rightarrow> jstr \<Rightarrow> 'l list \<Rightarrow> ('l \<times> 'm) list" where
  "on_admin_message parse throws data ls = (case parse data of
     None \<Rightarrow> [] | Some m \<Rightarrow> map (\<lambda>f. (f, m)) (call_all (throws m) ls))"

lemma call_all_quiet: "(\<And>f. f \<in> set ls \<Longrightarrow> \<not> throws f) \<Longrightarrow> call_all throws ls = ls"
  by (induction ls) auto

lemma add_distinct: "distinct ls \<Longrightarrow> distinct (add_listener f ls)"
  by (simp add: add_listener_def)

section \<open>Questions\<close>

text \<open>The dialog \<open>ask\<close>; each question carries the number of its promise. An answer resolves the promise of the
  question shown; a promise keeps its first value.\<close>

record questions =
  qs_next :: nat
  qs_ask :: "(jstr \<times> nat) option"
  qs_answers :: "(nat \<times> bool) list"

definition qs_init :: questions where
  "qs_init = \<lparr>qs_next = 0, qs_ask = None, qs_answers = []\<rparr>"

definition confirm :: "jstr \<Rightarrow> questions \<Rightarrow> questions" where
  "confirm t s = s\<lparr>qs_ask := Some (t, qs_next s), qs_next := Suc (qs_next s)\<rparr>"

definition answer_ask :: "bool \<Rightarrow> questions \<Rightarrow> questions" where
  "answer_ask ok s = (case qs_ask s of
     None \<Rightarrow> s
   | Some (t, n) \<Rightarrow> s\<lparr>qs_answers := qs_answers s @ [(n, ok)], qs_ask := None\<rparr>)"

datatype qs_ev = Ask_for jstr | Press bool | Dismiss

fun qs_step :: "qs_ev \<Rightarrow> questions \<Rightarrow> questions" where
  "qs_step (Ask_for t) s = confirm t s"
| "qs_step (Press ok) s = answer_ask ok s"
| "qs_step Dismiss s = answer_ask False s"

definition qs_ok :: "questions \<Rightarrow> bool" where
  "qs_ok s \<longleftrightarrow> distinct (map fst (qs_answers s)) \<and> (\<forall>a\<in>set (qs_answers s). fst a < qs_next s)
     \<and> (case qs_ask s of None \<Rightarrow> True | Some (t, n) \<Rightarrow> n < qs_next s \<and> n \<notin> fst ` set (qs_answers s))"

lemma qs_step_ok: "qs_ok s \<Longrightarrow> qs_ok (qs_step e s)"
  by (cases e) (auto simp: qs_ok_def confirm_def answer_ask_def less_Suc_eq split: option.splits)

interpretation dialog: invariant_machine "\<lambda>s. s = qs_init" "\<lambda>_ _. True" qs_step qs_ok
  by unfold_locales (simp_all add: qs_step_ok, simp add: qs_ok_def qs_init_def)

definition qs_reach :: "questions \<Rightarrow> bool" where
  "qs_reach = reach (\<lambda>s. s = qs_init) (\<lambda>_ _. True) qs_step"

section \<open>Messages\<close>

record toast =
  to_id :: rat
  to_text :: jstr
  to_tone :: toast_tone

text \<open>The messages shown and the identities whose timer is pending.\<close>

definition add_toast :: "rat \<Rightarrow> jstr \<Rightarrow> toast_tone \<Rightarrow> toast list \<times> rat list \<Rightarrow> toast list \<times> rat list" where
  "add_toast i t tone s = (fst s @ [\<lparr>to_id = i, to_text = t, to_tone = tone\<rparr>], snd s @ [i])"

definition toast_timeout :: "rat \<Rightarrow> toast list \<times> rat list \<Rightarrow> toast list \<times> rat list" where
  "toast_timeout i s = (filter (\<lambda>x. to_id x \<noteq> i) (fst s), remove1 i (snd s))"

section \<open>Properties\<close>

text \<open>The console has one connection for its events, or one reconnection scheduled, never both nor none, and
  the mark in the header says whether it is open; when the provider goes, no socket stays live and nothing
  is scheduled any more.\<close>

theorem admin_socket_single:
  assumes "al_reach s"
  shows "if al_stopped s then al_live s = 0 \<and> al_pending s = []
     else al_live s + length (al_pending s) = 1 \<and> (al_connected s \<longleftrightarrow> OPEN \<in> set (al_socks s))"
proof -
  obtain old x where "al_socks s = old @ [x]" "\<forall>x\<in>set old. x = CLOSED"
    "if al_stopped s then al_pending s = [] \<and> (x = CLOSING \<or> x = CLOSED)
        else x \<noteq> CLOSING \<and> (al_connected s \<longleftrightarrow> x = OPEN) \<and> al_pending s = (if x = CLOSED then [al_timer s] else [])"
    using admin_socket.inv_reach [of s] assms by (auto simp: al_reach_def al_ok_def)
  moreover from this(2) have "filter (\<lambda>x. x = CONNECTING \<or> x = OPEN) old = []" "OPEN \<notin> set old"
    by (auto simp: filter_empty_conv)
  ultimately show ?thesis by (cases x) (auto simp: al_live_def split: if_splits)
qed

text \<open>A question gets at most one answer, the one given while it was shown; a question asked while another is
  open replaces it, and the replaced one is never answered, so its handler stays suspended.\<close>

theorem question_answered_once:
  assumes "qs_reach s" "qs_ask s = Some (t, n)"
  shows "distinct (map fst (qs_answers (answer_ask ok s))) \<and> map_of (qs_answers (answer_ask ok s)) n = Some ok
     \<and> qs_ask (answer_ask ok s) = None
     \<and> (\<forall>es t'. n \<notin> fst ` set (qs_answers (run qs_step es (confirm t' s))))"
proof -
  have ok: "qs_ok s" using dialog.inv_reach [of s] assms(1) by (simp add: qs_reach_def)
  have fresh: "n \<notin> fst ` set (qs_answers s)" "n < qs_next s" using ok assms(2) by (auto simp: qs_ok_def)
  have lost: "n \<notin> fst ` set (qs_answers (run qs_step es u))"
    if "n \<notin> fst ` set (qs_answers u)" "n < qs_next u" "\<forall>t'. qs_ask u \<noteq> Some (t', n)" for es u
    using that
  proof (induction es arbitrary: u)
    case (Cons e es)
    have "n \<notin> fst ` set (qs_answers (qs_step e u))" "n < qs_next (qs_step e u)" "\<forall>t'. qs_ask (qs_step e u) \<noteq> Some (t', n)"
      using Cons.prems by (cases e; auto simp: confirm_def answer_ask_def split: option.splits)+
    then show ?case using Cons.IH by simp
  qed simp
  have "n \<notin> fst ` set (qs_answers (run qs_step es (confirm t' s)))" for es t'
    using lost [of "confirm t' s"] fresh by (simp add: confirm_def)
  moreover have "map_of (qs_answers s) n = None" using fresh(1) by (simp add: map_of_eq_None_iff)
  ultimately show ?thesis using assms(2) ok fresh(1)
    by (simp add: answer_ask_def qs_ok_def map_add_def)
qed

section \<open>Witnesses\<close>

lemma admin_socket_single_witness:
  "al_connected (al_step (Al_opened 0) al_mount) \<and> al_live (al_step (Al_opened 0) al_mount) + length (al_pending (al_step (Al_opened 0) al_mount)) = 1"
proof -
  have "al_reach (al_step (Al_opened 0) al_mount)"
    unfolding al_reach_def by (rule reach_step [OF reach_init]) (simp_all add: al_mount_def al_open_def al_new_def al_blank_def)
  from admin_socket_single [OF this] show ?thesis
    by (simp add: al_on_open_def al_mount_def al_open_def al_new_def al_blank_def)
qed

lemma question_answered_once_witness:
  "map_of (qs_answers (answer_ask True (confirm (js ''ok?'') qs_init))) 0 = Some True"
proof -
  have "qs_reach (qs_step (Ask_for (js ''ok?'')) qs_init)" unfolding qs_reach_def by (rule reach_step [OF reach_init]) simp_all
  then have "qs_reach (confirm (js ''ok?'') qs_init)" by simp
  from question_answered_once [OF this] show ?thesis by (simp add: confirm_def qs_init_def)
qed

end
