(* ===== verification/Csv_Export.thy ===== *)
theory Csv_Export
  imports Labels
begin

text \<open>
  The two tables the console saves as files: all devices of all rooms (\<^verbatim>\<open>exportFleet\<close> of
  \<^verbatim>\<open>pages/devices.tsx\<close>) and the check-in summary (\<^verbatim>\<open>exportCheckin\<close> of
  \<^verbatim>\<open>pages/checkin.tsx\<close>). The specification is a reader of quoted comma separated values, as
  spreadsheet programs have it: the first file reads back as the rows it was written from whatever the
  fields hold, the second one does not when a field holds a quote.
\<close>

section \<open>Writing\<close>

definition quote :: jstr where
  "quote = [34]"

definition csv_escaped :: "jstr \<Rightarrow> jstr" where
  "csv_escaped v = quote @ replace_all 34 [34, 34] v @ quote"

definition csv_plain :: "jstr \<Rightarrow> jstr" where
  "csv_plain v = quote @ v @ quote"

definition csv_text :: "(jstr \<Rightarrow> jstr) \<Rightarrow> jstr list list \<Rightarrow> jstr" where
  "csv_text f rows = 0xFEFF # join [13, 10] (map (\<lambda>row. join [44] (map f row)) rows)"

definition online_text :: "bool \<Rightarrow> jstr" where
  "online_text b = (if b then [0x5728, 0x7EBF] else [0x79BB, 0x7EBF])"

definition fleet_rows :: "room list \<Rightarrow> jstr list list" where
  "fleet_rows rooms =
     [[0x673A, 0x623F], [0x8EAB, 0x4EFD], [0x7F16, 0x53F7], [0x4E3B, 0x673A, 0x540D], [0x9009, 0x624B], [0x5B66, 0x53F7], [0x7B7E, 0x5230], [0x5728, 0x7EBF]]
     # concat (map (\<lambda>r. map (\<lambda>d. [rm_name r, room_id r, int_str (assigned_id d), hostname d, str_or (student_name d) [],
          str_or (student_num d) [], checkin_label (checkin_status d), online_text (connected d)]) (devices r)) rooms)"

definition export_fleet :: "room list \<Rightarrow> jstr" where
  "export_fleet rooms = csv_text csv_escaped (fleet_rows rooms)"

definition checkin_rows :: "room list \<Rightarrow> jstr list list" where
  "checkin_rows rooms =
     [[0x673A, 0x623F], [0x7F16, 0x53F7], [0x9009, 0x624B], [0x5B66, 0x53F7], [0x72B6, 0x6001]]
     # concat (map (\<lambda>r. map (\<lambda>d. [rm_name r, int_str (assigned_id d), str_or (student_name d) [], str_or (student_num d) [],
          checkin_label (checkin_status d)]) (devices r)) rooms)"

definition export_checkin :: "room list \<Rightarrow> jstr" where
  "export_checkin rooms = csv_text csv_plain (checkin_rows rooms)"

section \<open>Reading\<close>

text \<open>The rest of a quoted field: two quotes stand for one, a single one ends it.\<close>

fun csv_field :: "jstr \<Rightarrow> jstr \<times> jstr" where
  "csv_field [] = ([], [])"
| "csv_field (c # s) =
     (if c = 34 then
        (case s of
           [] \<Rightarrow> ([], [])
         | d # t \<Rightarrow> if d = 34 then apfst ((#) 34) (csv_field t) else ([], s))
      else apfst ((#) c) (csv_field s))"

text \<open>The rows; the fuel is a bound on the number of fields.\<close>

fun csv_read :: "nat \<Rightarrow> jstr \<Rightarrow> jstr list list option" where
  "csv_read 0 s = None"
| "csv_read (Suc n) s =
     (case s of
        [] \<Rightarrow> None
      | c # t \<Rightarrow>
          (if c \<noteq> 34 then None
           else case csv_field t of (v, r) \<Rightarrow>
             (case r of
                [] \<Rightarrow> Some [[v]]
              | d # u \<Rightarrow>
                  (if d = 44 then
                     (case csv_read n u of Some (row # rows) \<Rightarrow> Some ((v # row) # rows) | _ \<Rightarrow> None)
                   else (case u of
                       [] \<Rightarrow> None
                     | e # w \<Rightarrow> if d = 13 \<and> e = 10 then map_option ((#) [v]) (csv_read n w) else None)))))"

definition csv_open :: "jstr \<Rightarrow> jstr list list option" where
  "csv_open s = (case s of [] \<Rightarrow> None | c # t \<Rightarrow> if c = 0xFEFF then csv_read (length t) t else None)"

section \<open>Lemmas\<close>

lemma csv_field_escaped:
  "s = [] \<or> hd s \<noteq> 34 \<Longrightarrow> csv_field (replace_all 34 [34, 34] v @ 34 # s) = (v, s)"
proof (induction v)
  case Nil
  then show ?case by (cases s) (auto simp: replace_all_def)
next
  case (Cons c v)
  then show ?case by (cases "c = 34") (simp_all add: replace_all_def)
qed

lemma csv_read_last: "csv_read (Suc n) (csv_escaped v) = Some [[v]]"
  using csv_field_escaped [of "[]" v] by (simp add: csv_escaped_def quote_def)

lemma csv_read_comma:
  "csv_read n s = Some (row # rows) \<Longrightarrow> csv_read (Suc n) (csv_escaped v @ 44 # s) = Some ((v # row) # rows)"
  using csv_field_escaped [of "44 # s" v] by (simp add: csv_escaped_def quote_def)

lemma csv_read_break:
  "csv_read n s = Some rows \<Longrightarrow> csv_read (Suc n) (csv_escaped v @ 13 # 10 # s) = Some ([v] # rows)"
  using csv_field_escaped [of "13 # 10 # s" v] by (simp add: csv_escaped_def quote_def)

lemma csv_read_row:
  assumes "row \<noteq> []" "\<And>n. k \<le> n \<Longrightarrow> csv_read n s = Some rows" "length row + k \<le> n"
  shows "csv_read n (join [44] (map csv_escaped row) @ 13 # 10 # s) = Some (row # rows)"
  using assms(1,3)
proof (induction row arbitrary: n rule: induct_list012)
  case (2 v n)
  then obtain n' where "n = Suc n'" "k \<le> n'" by (cases n) auto
  then show ?case using csv_read_break assms(2) by simp
next
  case (3 v w row n)
  then obtain n' where n: "n = Suc n'" by (cases n) auto
  then show ?case using csv_read_comma 3 by simp
qed simp

lemma csv_read_final:
  "row \<noteq> [] \<Longrightarrow> length row \<le> n \<Longrightarrow> csv_read n (join [44] (map csv_escaped row)) = Some [row]"
proof (induction row arbitrary: n rule: induct_list012)
  case (2 v n)
  then show ?case using csv_read_last by (cases n) auto
next
  case (3 v w row n)
  then obtain n' where n: "n = Suc n'" by (cases n) auto
  then show ?case using csv_read_comma 3 by simp
qed simp

lemma csv_read_rows:
  assumes "rows \<noteq> []" "\<forall>row\<in>set rows. row \<noteq> []" "sum_list (map length rows) \<le> n"
  shows "csv_read n (join [13, 10] (map (\<lambda>row. join [44] (map csv_escaped row)) rows)) = Some rows"
  using assms
proof (induction rows arbitrary: n rule: induct_list012)
  case (2 row n)
  then show ?case by (simp add: csv_read_final)
next
  case (3 row row' rows n)
  let ?s = "join [13, 10] (map (\<lambda>row. join [44] (map csv_escaped row)) (row' # rows))"
  have "csv_read m ?s = Some (row' # rows)" if "sum_list (map length (row' # rows)) \<le> m" for m
    using 3(2) [OF _ _ that] 3(3-) by simp
  then have "csv_read n (join [44] (map csv_escaped row) @ 13 # 10 # ?s) = Some (row # row' # rows)"
    using 3(3-) by (intro csv_read_row [where k = "sum_list (map length (row' # rows))"]) auto
  then show ?case by simp
qed simp

lemma length_join_ge: "sum_list (map length xs) \<le> length (join sep xs)"
  by (induction sep xs rule: join.induct) auto

lemma csv_fuel: "sum_list (map length rows) \<le> length (join [13, 10] (map (\<lambda>row. join [44] (map csv_escaped row)) rows))"
proof -
  have "length row \<le> sum_list (map length (map csv_escaped row))" for row
    by (induction row) (auto simp: csv_escaped_def quote_def)
  then have "length row \<le> length (join [44] (map csv_escaped row))" for row
    using length_join_ge [of "map csv_escaped row" "[44]"] order_trans by blast
  then have "sum_list (map length rows) \<le> sum_list (map length (map (\<lambda>row. join [44] (map csv_escaped row)) rows))"
    by (induction rows) (auto intro: add_mono)
  also have "\<dots> \<le> length (join [13, 10] (map (\<lambda>row. join [44] (map csv_escaped row)) rows))" by (rule length_join_ge)
  finally show ?thesis .
qed

lemma csv_open_text: "rows \<noteq> [] \<Longrightarrow> \<forall>row\<in>set rows. row \<noteq> [] \<Longrightarrow> csv_open (csv_text csv_escaped rows) = Some rows"
  by (simp add: csv_open_def csv_text_def csv_read_rows csv_fuel)

lemma replace_absent: "c \<notin> set v \<Longrightarrow> replace_all c t v = v"
  by (induction v) (auto simp: replace_all_def)

lemma plain_escaped: "34 \<notin> set v \<Longrightarrow> csv_plain v = csv_escaped v"
  by (simp add: csv_plain_def csv_escaped_def replace_absent)

section \<open>Properties\<close>

text \<open>C33: the device table reads back as the rows it was written from, whatever names, quotes, commas and line
  breaks the rooms, hosts and students have.\<close>

theorem fleet_export_roundtrip: "csv_open (export_fleet rooms) = Some (fleet_rows rooms)"
  unfolding export_fleet_def by (rule csv_open_text) (auto simp: fleet_rows_def)

text \<open>The check-in table reads back when no field holds a quote.\<close>

theorem checkin_export_roundtrip:
  assumes "\<forall>row\<in>set (checkin_rows rooms). \<forall>v\<in>set row. 34 \<notin> set v"
  shows "csv_open (export_checkin rooms) = Some (checkin_rows rooms)"
proof -
  have row: "map csv_plain row = map csv_escaped row" if "row \<in> set (checkin_rows rooms)" for row
    using assms that by (auto simp: plain_escaped)
  have "map (\<lambda>row. join [44] (map csv_plain row)) (checkin_rows rooms) = map (\<lambda>row. join [44] (map csv_escaped row)) (checkin_rows rooms)"
    by (rule map_cong [OF refl]) (simp add: row)
  then have "export_checkin rooms = csv_text csv_escaped (checkin_rows rooms)"
    unfolding export_checkin_def csv_text_def by (rule arg_cong)
  then show ?thesis by (simp add: csv_open_text checkin_rows_def)
qed

section \<open>Witnesses\<close>

definition quoted_room :: "jstr \<Rightarrow> room" where
  "quoted_room name = \<lparr>room_id = js ''a'', rm_name = js ''A'', online = True, devices =
     [\<lparr>assigned_id = 1, hostname = js ''h'', local_ip = None, connected = True, checkin_status = 1, student_name = Some name,
       student_num = Some (js ''7''), mac_address = None, client_version = None\<rparr>], total_commands = None, recent_commands = None\<rparr>"

lemma checkin_export_roundtrip_witness:
  "csv_open (export_checkin [quoted_room (js ''Li'')]) = Some (checkin_rows [quoted_room (js ''Li'')])"
  by (rule checkin_export_roundtrip)
    (simp add: checkin_rows_def quoted_room_def js_def int_str_nonneg nat_digits.simps str_or_def checkin_label_def nth_opt_def)

text \<open>A student name that holds a quote makes the file unreadable.\<close>

lemma checkin_export_quote: "csv_open (export_checkin [quoted_room [76, 34, 105]]) \<noteq> Some (checkin_rows [quoted_room [76, 34, 105]])"
  by (simp add: export_checkin_def csv_open_def csv_text_def checkin_rows_def quoted_room_def js_def int_str_nonneg nat_digits.simps
      str_or_def checkin_label_def nth_opt_def csv_plain_def quote_def)

end
