(* ===== verification/Checkin_Page.thy ===== *)
theory Checkin_Page
  imports Fleet
begin

text \<open>
  Check-in of students. The page \<^verbatim>\<open>frontend/src/pages/checkin.tsx\<close>: which actions a row offers, the two
  forms, and the totals over all rooms; and the table the actions work on, with one definition per
  statement of \<^verbatim>\<open>internal/data/device_repo.go\<close> (a device without a row is left alone by an update).
  The lifecycle of a row under the offered actions is a machine with its invariant. The page offers to move any
  row to any number: what a move does is stated apart, for it is safe only on conditions that nobody checks.
\<close>

section \<open>The table\<close>

record ci =
  ci_status :: int
  ci_name :: jstr
  ci_num :: jstr
  ci_in :: jstr
  ci_out :: jstr

type_synonym ci_table = "(int \<times> ci) list"

definition on_row :: "int \<Rightarrow> (ci \<Rightarrow> ci) \<Rightarrow> ci_table \<Rightarrow> ci_table" where
  "on_row i f t = map (\<lambda>(k, r). (k, if k = i then f r else r)) t"

definition do_checkin :: "jstr \<Rightarrow> int \<Rightarrow> jstr \<Rightarrow> jstr \<Rightarrow> ci_table \<Rightarrow> ci_table" where
  "do_checkin now i name num = on_row i (\<lambda>r. r\<lparr>ci_status := 1, ci_name := name, ci_num := num, ci_in := now\<rparr>)"

definition do_checkout :: "jstr \<Rightarrow> int \<Rightarrow> ci_table \<Rightarrow> ci_table" where
  "do_checkout now i = on_row i (\<lambda>r. r\<lparr>ci_status := 2, ci_out := now\<rparr>)"

definition restore_checkout :: "int \<Rightarrow> ci_table \<Rightarrow> ci_table" where
  "restore_checkout i = on_row i (\<lambda>r. r\<lparr>ci_status := 1, ci_out := []\<rparr>)"

definition blank_ci :: ci where
  "blank_ci = \<lparr>ci_status = 0, ci_name = [], ci_num = [], ci_in = [], ci_out = []\<rparr>"

definition reset_checkin :: "int \<Rightarrow> ci_table \<Rightarrow> ci_table" where
  "reset_checkin i = on_row i (\<lambda>_. blank_ci)"

definition reset_all_checkin :: "ci_table \<Rightarrow> ci_table" where
  "reset_all_checkin t = map (\<lambda>(k, r). (k, if ci_status r \<noteq> 0 then blank_ci else r)) t"

text \<open>\<^term>\<open>None\<close>: the old device has no row.\<close>

definition swap_checkin :: "int \<Rightarrow> int \<Rightarrow> ci_table \<Rightarrow> ci_table option" where
  "swap_checkin old new t =
     (case map_of t old of
        None \<Rightarrow> None
      | Some r \<Rightarrow>
          Some (reset_checkin old
            (on_row new (\<lambda>x. x\<lparr>ci_status := 1, ci_name := ci_name r, ci_num := ci_num r, ci_in := ci_in r, ci_out := []\<rparr>) t)))"

text \<open>The handler of a move: a body whose numbers Go cannot decode or that are not positive is refused, which is
  \<^term>\<open>None\<close> as well.\<close>

definition swap_handler :: "int \<Rightarrow> int \<Rightarrow> ci_table \<Rightarrow> ci_table option" where
  "swap_handler i j t =
     (if i \<ge> 2 ^ 63 \<or> j \<ge> 2 ^ 63 then None
      else if i \<le> 0 \<or> j \<le> 0 then None
      else swap_checkin i j t)"

definition checkin_stats :: "ci_table \<Rightarrow> nat \<times> nat \<times> nat" where
  "checkin_stats t = (length t, length (filter (\<lambda>x. ci_status (snd x) = 1) t), length (filter (\<lambda>x. ci_status (snd x) = 2) t))"

section \<open>The page\<close>

datatype ci_action = A_checkin | A_checkout | A_restore | A_swap | A_reset

definition row_actions :: "int \<Rightarrow> ci_action list" where
  "row_actions st = (if st \<noteq> 1 then [A_checkin] else []) @ (if st = 1 then [A_checkout] else [])
     @ (if st = 2 then [A_restore] else []) @ [A_swap] @ (if st \<noteq> 0 then [A_reset] else [])"

definition t_fill_student :: jstr where "t_fill_student = [0x8BF7, 0x586B, 0x5199, 0x59D3, 0x540D, 0x548C, 0x5B66, 0x53F7]"
definition t_fill_target :: jstr where "t_fill_target = [0x8BF7, 0x586B, 0x5199, 0x76EE, 0x6807, 0x7F16, 0x53F7]"

text \<open>The button of a form: a message, or the request it sends.\<close>

definition submit_checkin :: "int \<Rightarrow> jstr \<Rightarrow> jstr \<Rightarrow> jstr + http" where
  "submit_checkin i name num =
     (if trim name = [] \<or> trim num = [] then Inl t_fill_student
      else Inr (http_send ''POST'' (js ''/api/checkin/'' @ int_str i @ js ''/checkin'')
        (Json (JObj [(js ''student_name'', JStr (trim name)), (js ''student_num'', JStr (trim num))]))))"

definition submit_swap :: "int \<Rightarrow> jstr \<Rightarrow> jstr + http" where
  "submit_swap i target =
     (let to = js_number target in
      if \<not> num_truthy to then Inl t_fill_target
      else Inr (http_send ''POST'' (js ''/api/checkin/swap'')
        (Json (JObj [(js ''from_assigned_id'', JInt i), (js ''to_assigned_id'', num_json to)]))))"

definition count_devices :: "(device \<Rightarrow> bool) \<Rightarrow> room list \<Rightarrow> int" where
  "count_devices p rooms = sum_list (map (\<lambda>r. int (length (filter p (devices r)))) rooms)"

text \<open>Total, checked in, checked out, not checked in, over all rooms.\<close>

definition cloud_checkin_stats :: "room list \<Rightarrow> int \<times> int \<times> int \<times> int" where
  "cloud_checkin_stats rooms =
     (let all = count_devices (\<lambda>_. True) rooms;
          checked = count_devices (\<lambda>d. checkin_status d = 1) rooms;
          out = count_devices (\<lambda>d. checkin_status d = 2) rooms
      in (all, checked, out, all - checked - out))"

section \<open>The lifecycle\<close>

datatype ci_ev = Checkin int jstr jstr jstr | Checkout int jstr | Restore int | Reset int | Reset_everything
  | Move int int

fun ci_step :: "ci_ev \<Rightarrow> ci_table \<Rightarrow> ci_table" where
  "ci_step (Checkin i name num now) t =
     (if trim name = [] \<or> trim num = [] then t else do_checkin now i (trim name) (trim num) t)"
| "ci_step (Checkout i now) t = do_checkout now i t"
| "ci_step (Restore i) t = restore_checkout i t"
| "ci_step (Reset i) t = reset_checkin i t"
| "ci_step Reset_everything t = reset_all_checkin t"
| "ci_step (Move i j) t = (case swap_handler i j t of Some t' \<Rightarrow> t' | None \<Rightarrow> t)"

definition offers :: "ci_table \<Rightarrow> int \<Rightarrow> ci_action \<Rightarrow> bool" where
  "offers t i a \<longleftrightarrow> (case map_of t i of None \<Rightarrow> False | Some r \<Rightarrow> a \<in> set (row_actions (ci_status r)))"

text \<open>What a page offers that shows the table as it is: a move for every row, to every number but 0.\<close>

fun ci_enabled :: "ci_table \<Rightarrow> ci_ev \<Rightarrow> bool" where
  "ci_enabled t (Checkin i name num now) = offers t i A_checkin"
| "ci_enabled t (Checkout i now) = offers t i A_checkout"
| "ci_enabled t (Restore i) = offers t i A_restore"
| "ci_enabled t (Reset i) = offers t i A_reset"
| "ci_enabled t Reset_everything = True"
| "ci_enabled t (Move i j) = (offers t i A_swap \<and> j \<noteq> 0)"

text \<open>The one thing an operator must not do: move a row on which there is nobody.\<close>

fun blank_move :: "ci_table \<Rightarrow> ci_ev \<Rightarrow> bool" where
  "blank_move t (Move i j) = (case map_of t i of Some r \<Rightarrow> ci_status r = 0 | None \<Rightarrow> False)"
| "blank_move t _ = False"

definition ci_proper :: "ci_table \<Rightarrow> ci_ev \<Rightarrow> bool" where
  "ci_proper t e \<longleftrightarrow> ci_enabled t e \<and> \<not> blank_move t e"

text \<open>A row has a student exactly when it is checked in or out.\<close>

definition ci_ok :: "ci \<Rightarrow> bool" where
  "ci_ok r \<longleftrightarrow> ci_status r \<in> {0, 1, 2} \<and> (ci_status r = 0 \<longrightarrow> ci_name r = [] \<and> ci_num r = [])
     \<and> (ci_status r \<noteq> 0 \<longrightarrow> ci_name r \<noteq> [] \<and> ci_num r \<noteq> [])"

definition ci_inv :: "ci_table \<Rightarrow> bool" where
  "ci_inv t \<longleftrightarrow> distinct (map fst t) \<and> (\<forall>x\<in>set t. ci_ok (snd x))"

lemma on_row_fst [simp]: "map fst (on_row i f t) = map fst t"
  by (induction t) (auto simp: on_row_def)

lemma on_row_lookup: "map_of (on_row i f t) k = (if k = i then map_option f (map_of t k) else map_of t k)"
  by (induction t) (auto simp: on_row_def)

lemma on_row_entry: "(k, r') \<in> set (on_row i f t) \<Longrightarrow> \<exists>r. (k, r) \<in> set t \<and> r' = (if k = i then f r else r)"
  by (auto simp: on_row_def)

lemma on_row_inv:
  assumes "ci_inv t" "\<And>r. map_of t i = Some r \<Longrightarrow> ci_ok r \<Longrightarrow> ci_ok (f r)"
  shows "ci_inv (on_row i f t)"
proof -
  have "ci_ok (snd x)" if x: "x \<in> set (on_row i f t)" for x
  proof -
    obtain k r' where kr: "x = (k, r')" by force
    obtain r where r: "(k, r) \<in> set t" "r' = (if k = i then f r else r)"
      using on_row_entry x kr by blast
    have "map_of t k = Some r" using r(1) assms(1) by (simp add: ci_inv_def)
    moreover have "ci_ok r" using r(1) assms(1) by (auto simp: ci_inv_def)
    ultimately show ?thesis using assms(2) r(2) kr by auto
  qed
  then show ?thesis using assms(1) by (simp add: ci_inv_def)
qed

lemma blank_ok: "ci_ok blank_ci"
  by (simp add: ci_ok_def blank_ci_def)

lemma lookup_ok: "ci_inv t \<Longrightarrow> map_of t i = Some r \<Longrightarrow> ci_ok r"
  by (auto simp: ci_inv_def dest: map_of_SomeD)

lemma reset_inv: "ci_inv t \<Longrightarrow> ci_inv (reset_checkin i t)"
  unfolding reset_checkin_def by (rule on_row_inv) (simp_all add: blank_ok)

lemma offersD: "offers t i a \<Longrightarrow> \<exists>r. map_of t i = Some r \<and> a \<in> set (row_actions (ci_status r))"
  by (auto simp: offers_def split: option.splits)

lemma ci_step_inv:
  assumes "ci_inv t" "ci_proper t e"
  shows "ci_inv (ci_step e t)"
proof (cases e)
  case (Checkin i name num now)
  then show ?thesis using assms by (auto simp: do_checkin_def ci_ok_def intro!: on_row_inv)
next
  case (Checkout i now)
  then obtain r where "map_of t i = Some r" "A_checkout \<in> set (row_actions (ci_status r))"
    using assms(2) offersD by (fastforce simp: ci_proper_def)
  then show ?thesis using Checkout assms(1)
    by (auto simp: do_checkout_def ci_ok_def row_actions_def intro!: on_row_inv split: if_splits)
next
  case (Restore i)
  then obtain r where "map_of t i = Some r" "A_restore \<in> set (row_actions (ci_status r))"
    using assms(2) offersD by (fastforce simp: ci_proper_def)
  then show ?thesis using Restore assms(1)
    by (auto simp: restore_checkout_def ci_ok_def row_actions_def intro!: on_row_inv split: if_splits)
next
  case (Reset i)
  then show ?thesis using reset_inv assms(1) by simp
next
  case Reset_everything
  have "map fst (reset_all_checkin t) = map fst t" by (induction t) (auto simp: reset_all_checkin_def)
  moreover have "ci_ok (snd x)" if "x \<in> set (reset_all_checkin t)" for x
    using that assms(1) by (auto simp: ci_inv_def reset_all_checkin_def blank_ok split: if_splits)
  ultimately show ?thesis using assms(1) Reset_everything by (simp add: ci_inv_def)
next
  case (Move i j)
  then obtain r where r: "map_of t i = Some r" "ci_status r \<noteq> 0"
    using assms(2) offersD by (fastforce simp: ci_proper_def)
  have "ci_ok r" using lookup_ok [OF assms(1) r(1)] .
  then have ok: "ci_name r \<noteq> [] \<and> ci_num r \<noteq> []" using r(2) by (auto simp: ci_ok_def)
  have "ci_inv (on_row j (\<lambda>x. x\<lparr>ci_status := 1, ci_name := ci_name r, ci_num := ci_num r, ci_in := ci_in r, ci_out := []\<rparr>) t)"
    using ok by (intro on_row_inv [OF assms(1)]) (simp add: ci_ok_def)
  then show ?thesis using Move r(1) assms(1) by (simp add: swap_handler_def swap_checkin_def reset_inv)
qed

text \<open>Every table starts with blank rows.\<close>

definition ci_start :: "ci_table \<Rightarrow> bool" where
  "ci_start t \<longleftrightarrow> distinct (map fst t) \<and> (\<forall>x\<in>set t. snd x = blank_ci)"

lemma ci_start_inv: "ci_start t \<Longrightarrow> ci_inv t"
  by (simp add: ci_start_def ci_inv_def blank_ok)

interpretation checkin: invariant_machine ci_start ci_proper ci_step ci_inv
  by unfold_locales (simp_all add: ci_step_inv ci_start_inv)

lemma swap_lookup:
  assumes "map_of t i = Some r"
  shows "\<exists>t'. swap_checkin i j t = Some t' \<and> (\<forall>k. map_of t' k =
     (if k = i then Some blank_ci
      else if k = j then map_option (\<lambda>x. x\<lparr>ci_status := 1, ci_name := ci_name r, ci_num := ci_num r, ci_in := ci_in r, ci_out := []\<rparr>) (map_of t k)
      else map_of t k))"
  using assms by (auto simp: swap_checkin_def reset_checkin_def on_row_lookup)

text \<open>Why rows with nobody must not be moved: the page offers it, and the target is then checked in without a
  student, whoever was there before.\<close>

lemma blank_move_checks_in:
  assumes "map_of t i = Some blank_ci" "map_of t j = Some x" "i \<noteq> j" "0 < i" "0 < j" "i < 2 ^ 63" "j < 2 ^ 63"
  shows "ci_enabled t (Move i j)"
    "map_of (ci_step (Move i j) t) j = Some (blank_ci\<lparr>ci_status := 1\<rparr>)"
proof -
  have "blank_ci\<lparr>ci_status := 1\<rparr> = x\<lparr>ci_status := 1, ci_name := [], ci_num := [], ci_in := [], ci_out := []\<rparr>"
    by (cases x) (simp add: blank_ci_def)
  then show "map_of (ci_step (Move i j) t) j = Some (blank_ci\<lparr>ci_status := 1\<rparr>)"
    using assms by (simp add: swap_handler_def swap_checkin_def reset_checkin_def on_row_lookup) (simp add: blank_ci_def)
  show "ci_enabled t (Move i j)" using assms by (simp add: offers_def row_actions_def)
qed

text \<open>Why the page must show the table as it is: the server checks no state, so a check-out pressed on a row that
  has been reset meanwhile leaves a row checked out without a student.\<close>

lemma stale_checkout: "map_of t i = Some blank_ci
   \<Longrightarrow> map_of (ci_step (Checkout i now) t) i = Some (blank_ci\<lparr>ci_status := 2, ci_out := now\<rparr>)"
  by (simp add: do_checkout_def on_row_lookup)

section \<open>Properties\<close>

text \<open>C30: whatever an operator does of what the page offers, a student's row moved to any number included, as
  long as the page shows the table as it is and no row without a student is moved, a row is always either not
  checked in and without a student, or checked in or out with a name and a number; and the counters of the
  page partition the devices.\<close>

theorem checkin_lifecycle:
  assumes "reach ci_start ci_proper ci_step t"
  shows "(\<forall>x\<in>set t. ci_ok (snd x))
       \<and> (case checkin_stats t of (all, i, out) \<Rightarrow>
            all = i + out + length (filter (\<lambda>x. ci_name (snd x) = []) t))"
proof -
  have inv: "\<forall>x\<in>set t. ci_ok (snd x)" using checkin.inv_reach [OF assms] by (simp add: ci_inv_def)
  then have "length t = length (filter (\<lambda>x. ci_status (snd x) = 1) t) + length (filter (\<lambda>x. ci_status (snd x) = 2) t)
      + length (filter (\<lambda>x. ci_name (snd x) = []) t)"
    by (induction t) (auto simp: ci_ok_def)
  with inv show ?thesis by (simp add: checkin_stats_def)
qed

text \<open>Moving a check-in to another existing device takes the student there and nowhere else: the target
  is checked in with the name, number and time of the source, the source is blank, every other row is as
  it was. Whoever was on the target is gone.\<close>

theorem swap_moves_student:
  assumes "map_of t i = Some r" "i \<noteq> j" "map_of t j = Some x"
  shows "\<exists>t'. swap_checkin i j t = Some t' \<and> map_of t' i = Some blank_ci
     \<and> map_of t' j = Some \<lparr>ci_status = 1, ci_name = ci_name r, ci_num = ci_num r, ci_in = ci_in r, ci_out = []\<rparr>
     \<and> (\<forall>k. k \<noteq> i \<and> k \<noteq> j \<longrightarrow> map_of t' k = map_of t k)"
proof -
  have "x\<lparr>ci_status := 1, ci_name := ci_name r, ci_num := ci_num r, ci_in := ci_in r, ci_out := []\<rparr>
      = \<lparr>ci_status = 1, ci_name = ci_name r, ci_num = ci_num r, ci_in = ci_in r, ci_out = []\<rparr>"
    by (cases x) simp
  then show ?thesis using swap_lookup [OF assms(1), of j] assms(2,3) by auto
qed

text \<open>C38: a move to a number no device has, or to the device itself, which the form accepts, reports success
  and erases the student: the source is blanked and no row gains anything.\<close>

theorem swap_can_lose_student:
  assumes "map_of t i = Some r" "map_of t j = None \<or> j = i"
  shows "\<exists>t'. swap_checkin i j t = Some t' \<and> map_of t' i = Some blank_ci
     \<and> (\<forall>k x. map_of t' k = Some x \<longrightarrow> x = blank_ci \<or> map_of t k = Some x \<and> k \<noteq> i)"
proof -
  let ?f = "\<lambda>x. x\<lparr>ci_status := 1, ci_name := ci_name r, ci_num := ci_num r, ci_in := ci_in r, ci_out := []\<rparr>"
  obtain t' where t': "swap_checkin i j t = Some t'"
    "\<And>k. map_of t' k = (if k = i then Some blank_ci else if k = j then map_option ?f (map_of t k) else map_of t k)"
    using swap_lookup [OF assms(1), of j] by blast
  have "x = blank_ci \<or> map_of t k = Some x \<and> k \<noteq> i" if "map_of t' k = Some x" for k x
  proof (cases "k = i")
    case True
    then show ?thesis using that t'(2) by simp
  next
    case False
    then have "k \<noteq> j" using that t'(2) [of k] assms(2) by auto
    then show ?thesis using that t'(2) [of k] False by simp
  qed
  then show ?thesis using t'(1) t'(2) [of i] by auto
qed

text \<open>The totals over all rooms are consistent: the devices neither checked in nor out are exactly the
  remainder the page computes, and it is not negative.\<close>

theorem cloud_totals_partition:
  "case cloud_checkin_stats rooms of (all, checked, out, rest) \<Rightarrow>
     rest = count_devices (\<lambda>d. checkin_status d \<noteq> 1 \<and> checkin_status d \<noteq> 2) rooms \<and> 0 \<le> rest
     \<and> all = checked + out + rest"
proof -
  have part: "length ds = length (filter (\<lambda>d. checkin_status d = 1) ds) + length (filter (\<lambda>d. checkin_status d = 2) ds)
      + length (filter (\<lambda>d. checkin_status d \<noteq> 1 \<and> checkin_status d \<noteq> 2) ds)" for ds :: "device list"
    by (induction ds) auto
  have "count_devices (\<lambda>_. True) rooms = count_devices (\<lambda>d. checkin_status d = 1) rooms
      + count_devices (\<lambda>d. checkin_status d = 2) rooms + count_devices (\<lambda>d. checkin_status d \<noteq> 1 \<and> checkin_status d \<noteq> 2) rooms"
  proof (induction rooms)
    case (Cons r rooms)
    then show ?case using part [of "devices r"] by (simp add: count_devices_def)
  qed (simp add: count_devices_def)
  moreover have "0 \<le> count_devices p rooms" for p
    by (induction rooms) (auto simp: count_devices_def)
  ultimately show ?thesis by (simp add: cloud_checkin_stats_def Let_def)
qed

section \<open>Witnesses\<close>

definition demo_table :: ci_table where
  "demo_table = [(1, blank_ci), (2, blank_ci)]"

definition demo_checked :: ci_table where
  "demo_checked = [(1, blank_ci\<lparr>ci_status := 1, ci_name := js ''Li'', ci_num := js ''7'', ci_in := js ''t''\<rparr>), (2, blank_ci)]"

lemma demo_checkin_step: "ci_step (Checkin 1 (js ''Li'') (js ''7'') (js ''t'')) demo_table = demo_checked"
proof -
  have "trim (js ''Li'') = js ''Li''" "trim (js ''7'') = js ''7''" by (simp_all add: trim_def js_def is_ws_def)
  then show ?thesis by (simp add: demo_table_def demo_checked_def do_checkin_def on_row_def) (simp add: js_def)
qed

lemma demo_checkin_reach: "reach ci_start ci_proper ci_step demo_checked"
proof -
  have "ci_start demo_table" by (simp add: ci_start_def demo_table_def)
  then have "reach ci_start ci_proper ci_step demo_table" by (rule reach_init)
  then have "reach ci_start ci_proper ci_step (ci_step (Checkin 1 (js ''Li'') (js ''7'') (js ''t'')) demo_table)"
    by (rule reach_step) (simp add: ci_proper_def demo_table_def offers_def row_actions_def blank_ci_def)
  then show ?thesis by (simp only: demo_checkin_step)
qed

lemma checkin_lifecycle_witness: "ci_ok (snd (hd demo_checked)) \<and> checkin_stats demo_checked = (2, 1, 0)"
  using checkin_lifecycle [OF demo_checkin_reach] by (simp add: demo_checked_def checkin_stats_def blank_ci_def)

lemma swap_moves_student_witness:
  "\<exists>t'. swap_checkin 1 2 demo_checked = Some t' \<and> map_of t' 1 = Some blank_ci"
proof -
  have "map_of demo_checked 1 = Some (blank_ci\<lparr>ci_status := 1, ci_name := js ''Li'', ci_num := js ''7'', ci_in := js ''t''\<rparr>)"
    "map_of demo_checked 2 = Some blank_ci" by (simp_all add: demo_checked_def)
  then show ?thesis using swap_moves_student [of demo_checked 1 _ 2] by fastforce
qed

lemma swap_can_lose_student_witness: "\<exists>t'. swap_checkin 1 9 demo_checked = Some t' \<and> map_of t' 1 = Some blank_ci"
  using swap_can_lose_student [of demo_checked 1 _ 9] by (fastforce simp: demo_checked_def)

end
