(* ===== verification/Overview.thy ===== *)
theory Overview
  imports Checkin_Page Room_Effects "HOL-Library.Multiset"
begin

text \<open>
  What the console shows around and above the pages: the menu, the names of mode and scope
  (\<^verbatim>\<open>components/shell.tsx\<close>), the counters of the header (\<^verbatim>\<open>state.tsx\<close>) and of the dashboard, the latest
  commands of all rooms (\<^verbatim>\<open>pages/dashboard.tsx\<close>, \<^verbatim>\<open>pages/commands.tsx\<close>), and the address of a
  terminal (\<^verbatim>\<open>components/terminal-dialog.tsx\<close>).
\<close>

section \<open>Menu and header\<close>

datatype menu_group = G_monitor | G_operate | G_contest | G_system

fun group_name :: "menu_group \<Rightarrow> jstr" where
  "group_name G_monitor = [0x76D1, 0x63A7]"
| "group_name G_operate = [0x8FD0, 0x7EF4]"
| "group_name G_contest = [0x6BD4, 0x8D5B]"
| "group_name G_system = [0x7CFB, 0x7EDF]"

text \<open>Page, group, and whether the entry is for the cloud only.\<close>

definition menu_table :: "(page \<times> menu_group \<times> bool) list" where
  "menu_table =
    [(P_rooms, G_monitor, True), (P_dashboard, G_monitor, False), (P_devices, G_monitor, False), (P_screen, G_monitor, False),
     (P_commands, G_operate, False), (P_network, G_operate, False), (P_distribute, G_operate, False), (P_power, G_operate, False),
     (P_checkin, G_contest, False), (P_broadcast, G_contest, False), (P_settings, G_system, False)]"

definition menu :: "bool \<Rightarrow> (menu_group \<times> page list) list" where
  "menu cloud = map (\<lambda>g. (g, map fst (filter (\<lambda>(p, g', c). g' = g \<and> (\<not> c \<or> cloud)) menu_table)))
     [G_monitor, G_operate, G_contest, G_system]"

definition mode_label :: "jstr \<Rightarrow> jstr" where
  "mode_label m = (if m = js ''cloud'' then [0x4E91, 0x7AEF]
     else if m = js ''relay'' then [0x673A, 0x623F, 0x4E2D, 0x8F6C] else [0x5355, 0x673A])"

definition t_all_rooms :: jstr where "t_all_rooms = [0x5168, 0x90E8, 0x673A, 0x623F]"
definition t_managing :: jstr where "t_managing = [0x6B63, 0x5728, 0x7BA1, 0x7406, 0x0020]"
definition t_this_lan :: jstr where "t_this_lan = [0x5F53, 0x524D, 0x5C40, 0x57DF, 0x7F51]"

definition shown_room :: "jstr \<Rightarrow> room list \<Rightarrow> jstr option" where
  "shown_room i rooms = map_option rm_name (find_first (\<lambda>r. room_id r = i) rooms)"

definition scope_label :: "render \<Rightarrow> room list \<Rightarrow> jstr \<Rightarrow> jstr" where
  "scope_label r rooms lan_name =
     (if cloud_all r then t_all_rooms
      else if rd_room r \<noteq> [] then t_managing @ str_or (shown_room (rd_room r) rooms) (rd_room r)
      else str_or (Some lan_name) t_this_lan)"

text \<open>The counters of the header; outside the overview they are an answer of the server.\<close>

definition overview_stats :: "room list \<Rightarrow> int \<times> int" where
  "overview_stats rooms = (count_devices connected rooms, count_devices (\<lambda>_. True) rooms)"

definition header_stats :: "render \<Rightarrow> room list \<Rightarrow> (int \<times> int) option \<Rightarrow> int \<times> int \<Rightarrow> int \<times> int" where
  "header_stats r rooms answered old = (if cloud_all r then overview_stats rooms else case answered of Some v \<Rightarrow> v | None \<Rightarrow> old)"

section \<open>Dashboard\<close>

definition dashboard_totals :: "room list \<Rightarrow> int \<times> int \<times> int \<times> int" where
  "dashboard_totals rooms =
     (count_devices (\<lambda>_. True) rooms, count_devices connected rooms, count_devices (\<lambda>d. checkin_status d = 1) rooms,
      sum_list (map (\<lambda>r. num_or (total_commands r) 0) rooms))"

definition room_commands :: "room list \<Rightarrow> (jstr \<times> command_log) list" where
  "room_commands rooms = concat (map (\<lambda>r. map (Pair (rm_name r)) (case recent_commands r of None \<Rightarrow> [] | Some cs \<Rightarrow> cs)) rooms)"

text \<open>The stable sort by \<open>+new Date(b) - +new Date(a)\<close>, cut to its first entries; \<^term>\<open>None\<close> when a date does not
  parse, for then the comparison is not an order and the result depends on the engine.\<close>

definition newest :: "(jstr \<Rightarrow> jint) \<Rightarrow> nat \<Rightarrow> (jstr \<times> command_log) list \<Rightarrow> (jstr \<times> command_log) list option" where
  "newest date n cs =
     (if list_all (\<lambda>c. date (cl_created_at (snd c)) \<noteq> None) cs
      then Some (take n (sort_key (\<lambda>c. - the (date (cl_created_at (snd c)))) cs)) else None)"

definition dashboard_recent :: "(jstr \<Rightarrow> jint) \<Rightarrow> room list \<Rightarrow> (jstr \<times> command_log) list option" where
  "dashboard_recent date rooms = newest date 12 (room_commands rooms)"

definition cloud_history :: "(jstr \<Rightarrow> jint) \<Rightarrow> room list \<Rightarrow> (jstr \<times> command_log) list option" where
  "cloud_history date rooms = newest date 40 (room_commands rooms)"

text \<open>The column with the target of a command.\<close>

definition dashboard_target :: "command_log \<Rightarrow> jstr" where
  "dashboard_target c = (if cl_target_type c = js ''broadcast'' then [0x5168, 0x90E8, 0x5728, 0x7EBF]
     else if cl_target_type c = js ''list'' then [0x6307, 0x5B9A, 0x8BBE, 0x5907]
     else js ''#'' @ (case cl_target_id c of Some i \<Rightarrow> int_str i | None \<Rightarrow> js ''undefined''))"

definition history_target :: "command_log \<Rightarrow> jstr" where
  "history_target c = (if cl_target_type c = js ''broadcast'' then [0x5168, 0x90E8, 0x5728, 0x7EBF]
     else if cl_target_type c = js ''list'' then [0x6307, 0x5B9A, 0x591A, 0x53F0]
     else js ''#'' @ (case cl_target_id c of Some i \<Rightarrow> int_str i | None \<Rightarrow> []))"

section \<open>Terminal\<close>

definition terminal_url :: "bool \<Rightarrow> jstr \<Rightarrow> jstr \<Rightarrow> int \<Rightarrow> nat \<Rightarrow> nat \<Rightarrow> jstr option" where
  "terminal_url https host room dev cols rows =
     map_option (\<lambda>base. (if https then js ''wss:'' else js ''ws:'') @ js ''//'' @ host @ base @ int_str dev
         @ js ''?cols='' @ nat_digits cols @ js ''&rows='' @ nat_digits rows)
       (if room \<noteq> [] then map_option (\<lambda>r. js ''/ws/cluster/rooms/'' @ r @ js ''/terminal/'') (encode_uri room)
        else Some (js ''/ws/terminal/''))"

section \<open>Lemmas\<close>

text \<open>The menu has every page once; the overview of rooms is there in the cloud only.\<close>

lemma menu_complete:
  "concat (map snd (menu cloud)) = (if cloud then all_pages else tl all_pages)"
  by (cases cloud) (simp_all add: menu_def menu_table_def all_pages_def)

text \<open>The scope is named after the room the requests of the operator go to.\<close>

lemma scope_names_target:
  assumes "session_reach s" "ss_shown s = Some r" "ss_api s \<noteq> []"
  shows "scope_label r rooms lan = t_managing @ str_or (shown_room (ss_api s) rooms) (ss_api s)"
  using shown_api [OF assms(1,2)] assms(3) by (simp add: scope_label_def cloud_all_def)

text \<open>The latest commands are as many as asked for, in descending order, and none left out is newer.\<close>

lemma newest_best:
  assumes "newest date n cs = Some ys"
  shows "length ys = min n (length cs)"
    "sorted_wrt (\<lambda>a b. the (date (cl_created_at (snd b))) \<le> the (date (cl_created_at (snd a)))) ys"
    "\<exists>rest. mset cs = mset ys + mset rest
       \<and> (\<forall>y\<in>set ys. \<forall>z\<in>set rest. the (date (cl_created_at (snd z))) \<le> the (date (cl_created_at (snd y))))"
proof -
  define f where "f = (\<lambda>c :: jstr \<times> command_log. - the (date (cl_created_at (snd c))))"
  have ys: "ys = take n (sort_key f cs)" using assms by (auto simp: newest_def f_def split: if_splits)
  then show "length ys = min n (length cs)" by simp
  have so: "sorted_wrt (\<lambda>a b. f a \<le> f b) (sort_key f cs)"
    using sorted_sort_key [of f cs] by (simp add: sorted_map)
  then have parts: "sorted_wrt (\<lambda>a b. f a \<le> f b) (take n (sort_key f cs) @ drop n (sort_key f cs))" by simp
  then show "sorted_wrt (\<lambda>a b. the (date (cl_created_at (snd b))) \<le> the (date (cl_created_at (snd a)))) ys"
    unfolding sorted_wrt_append ys by (simp add: f_def)
  have "mset cs = mset ys + mset (drop n (sort_key f cs))"
    unfolding ys by (metis append_take_drop_id mset_append mset_sort)
  moreover have "\<forall>y\<in>set ys. \<forall>z\<in>set (drop n (sort_key f cs)). f y \<le> f z"
    using parts unfolding sorted_wrt_append ys by blast
  ultimately show "\<exists>rest. mset cs = mset ys + mset rest
       \<and> (\<forall>y\<in>set ys. \<forall>z\<in>set rest. the (date (cl_created_at (snd z))) \<le> the (date (cl_created_at (snd y))))"
    by (intro exI [of _ "drop n (sort_key f cs)"]) (auto simp: f_def)
qed

end
