(* ===== verification/Device_Page.thy ===== *)
theory Device_Page
  imports Overview
begin

text \<open>
  The page of the devices, \<^verbatim>\<open>frontend/src/pages/devices.tsx\<close>: its table, and the dialog of one device with
  the requests that fill it. The dialog stays open while its requests are answered, while another device is
  asked for, and when the browser's history changes the room.
\<close>

section \<open>The table\<close>

text \<open>\<open>toFixed(0)\<close> of a number that is not negative.\<close>

definition fixed0 :: "rat \<Rightarrow> jstr" where
  "fixed0 v = int_str \<lfloor>v + 1 / 2\<rfloor>"

definition pct_text :: "rat option \<Rightarrow> jstr" where
  "pct_text v = (case v of None \<Rightarrow> dash | Some r \<Rightarrow> if r < 0 then dash else fixed0 r @ js ''%'')"

definition temp_text :: "rat option \<Rightarrow> jstr" where
  "temp_text v = (case v of None \<Rightarrow> dash | Some r \<Rightarrow> if 0 < r then fixed0 r @ [0xB0] @ js ''C'' else dash)"

record load =
  cpu_pct :: "rat option"
  mem_pct :: "rat option"
  temp_c :: "rat option"

definition t_memory :: jstr where "t_memory = [0x5185, 0x5B58]"

definition load_cell :: "load \<Rightarrow> jstr" where
  "load_cell l = js ''CPU '' @ pct_text (cpu_pct l) @ [0x20, 0xB7, 0x20] @ t_memory @ js '' '' @ pct_text (mem_pct l) @ [0x20, 0xB7, 0x20] @ temp_text (temp_c l)"

definition devices_shown :: "(jstr \<Rightarrow> jstr) \<Rightarrow> (jstr option \<Rightarrow> jstr) \<Rightarrow> jstr \<Rightarrow> device list \<Rightarrow> device list" where
  "devices_shown lower ip query = filter (\<lambda>d. let q = lower (trim query) in
     q = [] \<or> has_sub (lower (join (js '' '') [hostname d, or_empty (student_name d), int_str (assigned_id d), ip (local_ip d)])) q)"

record device_row =
  dr_number :: jstr
  dr_address :: jstr
  dr_student :: jstr
  dr_checkin :: jstr
  dr_health :: jstr
  dr_online :: "bool"

definition device_row_of :: "(jstr option \<Rightarrow> jstr) \<Rightarrow> device \<times> load \<Rightarrow> device_row" where
  "device_row_of ip x = (case x of (d, l) \<Rightarrow>
     \<lparr>dr_number = js ''#'' @ int_str (assigned_id d), dr_address = str_or (Some (ip (local_ip d))) dash, dr_student = str_or (student_name d) dash,
      dr_checkin = checkin_label (checkin_status d), dr_health = load_cell l, dr_online = connected d\<rparr>)"

section \<open>The dialog\<close>

record dev_event =
  de_id :: int
  de_event :: jstr
  de_detail :: jstr
  de_at :: jstr

datatype want = Want_device int | Want_events int

record devpage =
  dv_room :: jstr \<comment> \<open>the room requests go to\<close>
  dv_detail :: "device option"
  dv_events :: "dev_event list"
  dv_term :: "int option"
  dv_wait :: "want list"
  dv_sent :: "(string \<times> jstr option) list"
  dv_toasts :: "jstr list"

definition dv_init :: "jstr \<Rightarrow> devpage" where
  "dv_init r = \<lparr>dv_room = r, dv_detail = None, dv_events = [], dv_term = None, dv_wait = [], dv_sent = [], dv_toasts = []\<rparr>"

definition device_path :: "int \<Rightarrow> jstr" where
  "device_path i = js ''/api/devices/'' @ int_str i"

definition events_path :: "int \<Rightarrow> jstr" where
  "events_path i = device_path i @ js ''/events''"

definition dv_ask :: "string \<Rightarrow> jstr \<Rightarrow> devpage \<Rightarrow> devpage" where
  "dv_ask m p s = s\<lparr>dv_sent := dv_sent s @ [(m, resolve (dv_room s) p)]\<rparr>"

definition unwait :: "nat \<Rightarrow> devpage \<Rightarrow> devpage" where
  "unwait k s = s\<lparr>dv_wait := take k (dv_wait s) @ drop (Suc k) (dv_wait s)\<rparr>"

text \<open>\<open>open(id)\<close> up to its first answer, between the answers, and after the second; a refusal is shown.\<close>

definition dv_open :: "int \<Rightarrow> devpage \<Rightarrow> devpage" where
  "dv_open i s = (dv_ask ''GET'' (device_path i) s)\<lparr>dv_wait := dv_wait s @ [Want_device i]\<rparr>"

definition dv_device :: "nat \<Rightarrow> jstr + device \<Rightarrow> devpage \<Rightarrow> devpage" where
  "dv_device k a s = (case nth_opt (dv_wait s) (int k) of
     Some (Want_device i) \<Rightarrow>
       (let s1 = unwait k s in
        case a of
          Inl e \<Rightarrow> s1\<lparr>dv_toasts := dv_toasts s1 @ [e]\<rparr>
        | Inr d \<Rightarrow> (dv_ask ''GET'' (events_path i) s1)\<lparr>dv_detail := Some d, dv_wait := dv_wait s1 @ [Want_events i]\<rparr>)
   | _ \<Rightarrow> s)"

definition dv_log :: "nat \<Rightarrow> jstr + dev_event list \<Rightarrow> devpage \<Rightarrow> devpage" where
  "dv_log k a s = (case nth_opt (dv_wait s) (int k) of
     Some (Want_events i) \<Rightarrow>
       (let s1 = unwait k s in
        case a of
          Inl e \<Rightarrow> s1\<lparr>dv_toasts := dv_toasts s1 @ [e]\<rparr>
        | Inr es \<Rightarrow> s1\<lparr>dv_events := es\<rparr>)
   | _ \<Rightarrow> s)"

definition dv_close :: "devpage \<Rightarrow> devpage" where
  "dv_close s = s\<lparr>dv_detail := None\<rparr>"

definition dv_terminal :: "devpage \<Rightarrow> devpage" where
  "dv_terminal s = (case dv_detail s of None \<Rightarrow> s | Some d \<Rightarrow> s\<lparr>dv_term := Some (assigned_id d)\<rparr>)"

text \<open>The button that deletes the record; \<open>yes\<close> answers the question, \<open>a\<close> the request.\<close>

definition dv_delete :: "bool \<Rightarrow> jstr + unit \<Rightarrow> devpage \<Rightarrow> devpage" where
  "dv_delete yes a s = (case dv_detail s of
     None \<Rightarrow> s
   | Some d \<Rightarrow>
       if \<not> yes then s
       else let s1 = dv_ask ''DELETE'' (device_path (assigned_id d)) s in
         (case a of Inl e \<Rightarrow> s1 | Inr _ \<Rightarrow> dv_ask ''GET'' (js ''/api/devices'') (dv_close s1)))"

definition t_reset_done :: jstr where "t_reset_done = [0x5DF2, 0x91CD, 0x7F6E]"

definition dv_reset :: "bool \<Rightarrow> jstr + unit \<Rightarrow> devpage \<Rightarrow> devpage" where
  "dv_reset yes a s = (if \<not> yes then s
     else let s1 = dv_ask ''POST'' (js ''/api/devices/reset'') s in
       (case a of Inl e \<Rightarrow> s1 | Inr _ \<Rightarrow> dv_ask ''GET'' (js ''/api/devices'') (s1\<lparr>dv_toasts := dv_toasts s1 @ [t_reset_done]\<rparr>)))"

text \<open>A step of the browser's history to the same page of another room.\<close>

definition dv_room_change :: "jstr \<Rightarrow> devpage \<Rightarrow> devpage" where
  "dv_room_change r s = s\<lparr>dv_room := r\<rparr>"

section \<open>Lines of the dialog\<close>

definition item_line :: "jstr option \<Rightarrow> jstr" where
  "item_line v = str_or v dash"

definition student_line :: "device \<Rightarrow> jstr" where
  "student_line d = join (js '' '') (filter (\<lambda>s. s \<noteq> []) [or_empty (student_name d), or_empty (student_num d)])"

section \<open>Properties\<close>

lemma pct_bounds: "0 \<le> r \<Longrightarrow> r \<le> 100 \<Longrightarrow> \<exists>n. 0 \<le> n \<and> n \<le> 100 \<and> pct_text (Some r) = int_str n @ js ''%''"
  by (rule exI [of _ "\<lfloor>r + 1 / 2\<rfloor>"]) (simp add: pct_text_def fixed0_def le_floor_iff floor_le_iff)

text \<open>With nothing else under way both answers belong to the device that was asked for.\<close>

lemma open_shows_device:
  assumes "dv_wait s = []"
  shows "dv_detail (dv_log 0 (Inr es) (dv_device 0 (Inr d) (dv_open i s))) = Some d"
    "dv_events (dv_log 0 (Inr es) (dv_device 0 (Inr d) (dv_open i s))) = es"
  using assms by (simp_all add: dv_log_def dv_device_def dv_open_def dv_ask_def unwait_def nth_opt_def Let_def)

text \<open>The dialog can show the events of another device: when a device is opened after another, its dialog
  shows the former events until its own arrive; if that request is refused they stay, and if the
  answers for the two devices arrive in the other order the former device's events replace its own.\<close>

theorem events_of_another_device:
  assumes "dv_wait s = []" "dv_events s = old"
  shows "dv_detail (dv_device 0 (Inr b) (dv_open i s)) = Some b \<and> dv_events (dv_device 0 (Inr b) (dv_open i s)) = old
     \<and> dv_detail (dv_log 0 (Inl e) (dv_device 0 (Inr b) (dv_open i s))) = Some b
     \<and> dv_events (dv_log 0 (Inl e) (dv_device 0 (Inr b) (dv_open i s))) = old
     \<and> (let t = dv_log 0 (Inr ea) (dv_log 1 (Inr eb) (dv_device 1 (Inr b) (dv_open i (dv_device 0 (Inr a) (dv_open j s))))) in
          dv_detail t = Some b \<and> dv_events t = ea)"
  using assms by (simp add: dv_log_def dv_device_def dv_open_def dv_ask_def unwait_def nth_opt_def Let_def)

text \<open>The dialog outlives a change of the room: a device opened in one room, then deleted after a step of the
  browser's history to another room, is deleted in that other room, where the number is another machine's.\<close>

theorem deletes_in_shown_room:
  "dv_sent (dv_delete True a (dv_room_change r' (dv_log 0 (Inr es) (dv_device 0 (Inr d) (dv_open (assigned_id d) (dv_init r))))))
   = [(''GET'', resolve r (device_path (assigned_id d))), (''GET'', resolve r (events_path (assigned_id d))),
      (''DELETE'', resolve r' (device_path (assigned_id d)))]
     @ (case a of Inl _ \<Rightarrow> [] | Inr _ \<Rightarrow> [(''GET'', resolve r' (js ''/api/devices''))])"
  by (simp add: dv_delete_def dv_room_change_def dv_log_def dv_device_def dv_open_def dv_ask_def dv_init_def dv_close_def unwait_def nth_opt_def
      Let_def split: sum.split)

section \<open>Witness\<close>

definition demo_pc :: "int \<Rightarrow> device" where
  "demo_pc i = \<lparr>assigned_id = i, hostname = js ''pc'', local_ip = None, connected = True, checkin_status = 0, student_name = None,
     student_num = None, mac_address = None, client_version = None\<rparr>"

definition demo_event :: "int \<Rightarrow> dev_event" where
  "demo_event i = \<lparr>de_id = i, de_event = js ''online'', de_detail = [], de_at = js ''t''\<rparr>"

lemma events_of_another_device_witness:
  "dv_detail (dv_device 0 (Inr (demo_pc 2)) (dv_open 2 ((dv_init (js ''r''))\<lparr>dv_events := [demo_event 1]\<rparr>))) = Some (demo_pc 2)
   \<and> dv_events (dv_device 0 (Inr (demo_pc 2)) (dv_open 2 ((dv_init (js ''r''))\<lparr>dv_events := [demo_event 1]\<rparr>))) = [demo_event 1]"
  using events_of_another_device [of "(dv_init (js ''r''))\<lparr>dv_events := [demo_event 1]\<rparr>" "[demo_event 1]" "demo_pc 2" 2]
  by (simp add: dv_init_def)

end
