(* ===== verification/Terminal_Session.thy ===== *)
theory Terminal_Session
  imports Overview
begin

text \<open>
  A terminal on a contestant's machine, end to end: the dialog of the console
  (\<^verbatim>\<open>frontend/src/components/terminal-dialog.tsx\<close>), the server that passes its frames on
  (\<^verbatim>\<open>internal/service/terminal_ws_handler.go\<close>) and the table of shells of the agent
  (\<^verbatim>\<open>cmd/client/main.go\<close>). Reading a control message with \<open>json.Unmarshal\<close> is a parameter.
\<close>

section \<open>The dialog\<close>

datatype phase = Connecting | Open | Closed

record tsock =
  ts_id :: nat
  ts_phase :: phase
  ts_cols :: nat
  ts_rows :: nat

datatype shown = Sh_connected int | Sh_bytes jstr | Sh_lost

record dialog =
  td_dev :: "int option"
  td_room :: jstr
  td_sock :: "tsock option" \<comment> \<open>socket and terminal of the effect that is set up\<close>
  td_urls :: "jstr option list" \<comment> \<open>addresses of the sockets created so far; a socket is known by its place\<close>
  td_closed :: "nat list" \<comment> \<open>sockets the page closed\<close>
  td_sent :: "(nat \<times> jstr) list"
  td_shown :: "shown list" \<comment> \<open>what was written on the current terminal\<close>

definition dialog_init :: dialog where
  "dialog_init = \<lparr>td_dev = None, td_room = [], td_sock = None, td_urls = [], td_closed = [], td_sent = [], td_shown = []\<rparr>"

definition td_cleanup :: "dialog \<Rightarrow> dialog" where
  "td_cleanup s = (case td_sock s of None \<Rightarrow> s | Some k \<Rightarrow> s\<lparr>td_closed := td_closed s @ [ts_id k], td_sock := None, td_shown := []\<rparr>)"

text \<open>A commit with another device or room runs the effect; \<open>host\<close>: the element is there, \<open>fit\<close> what the fit
  addon makes of its size.\<close>

definition td_render :: "bool \<Rightarrow> jstr \<Rightarrow> bool \<Rightarrow> nat \<times> nat \<Rightarrow> int option \<Rightarrow> jstr \<Rightarrow> dialog \<Rightarrow> dialog" where
  "td_render https loc host fit dev room s =
     (if dev = td_dev s \<and> room = td_room s then s
      else let s1 = (td_cleanup s)\<lparr>td_dev := dev, td_room := room\<rparr> in
        case dev of
          None \<Rightarrow> s1
        | Some d \<Rightarrow> if \<not> host then s1
            else s1\<lparr>td_sock := Some \<lparr>ts_id = length (td_urls s), ts_phase = Connecting, ts_cols = fst fit, ts_rows = snd fit\<rparr>,
                   td_urls := td_urls s @ [terminal_url https loc room d (fst fit) (snd fit)], td_shown := []\<rparr>)"

text \<open>A handler of a socket belongs to the terminal of its own effect.\<close>

definition on_sock :: "nat \<Rightarrow> (tsock \<Rightarrow> dialog \<Rightarrow> dialog) \<Rightarrow> dialog \<Rightarrow> dialog" where
  "on_sock k f s = (case td_sock s of Some c \<Rightarrow> if ts_id c = k then f c s else s | None \<Rightarrow> s)"

definition td_open :: "nat \<Rightarrow> dialog \<Rightarrow> dialog" where
  "td_open k = on_sock k (\<lambda>c s. case td_dev s of None \<Rightarrow> s
     | Some d \<Rightarrow> s\<lparr>td_sock := Some (c\<lparr>ts_phase := Open\<rparr>), td_shown := td_shown s @ [Sh_connected d]\<rparr>)"

definition td_message :: "nat \<Rightarrow> jstr \<Rightarrow> dialog \<Rightarrow> dialog" where
  "td_message k bytes = on_sock k (\<lambda>c s. s\<lparr>td_shown := td_shown s @ [Sh_bytes bytes]\<rparr>)"

definition td_close :: "nat \<Rightarrow> dialog \<Rightarrow> dialog" where
  "td_close k = on_sock k (\<lambda>c s. s\<lparr>td_sock := Some (c\<lparr>ts_phase := Closed\<rparr>), td_shown := td_shown s @ [Sh_lost]\<rparr>)"

definition send_frame :: "jstr \<Rightarrow> dialog \<Rightarrow> dialog" where
  "send_frame m s = (case td_sock s of
     Some c \<Rightarrow> if ts_phase c = Open then s\<lparr>td_sent := td_sent s @ [(ts_id c, m)]\<rparr> else s
   | None \<Rightarrow> s)"

text \<open>\<open>JSON.stringify({ type: "resize", cols, rows })\<close>\<close>

definition quoted :: "string \<Rightarrow> jstr" where
  "quoted s = [34] @ js s @ [34]"

definition resize_text :: "nat \<Rightarrow> nat \<Rightarrow> jstr" where
  "resize_text c r = [123] @ quoted ''type'' @ [58] @ quoted ''resize'' @ [44] @ quoted ''cols'' @ [58] @ nat_digits c
     @ [44] @ quoted ''rows'' @ [58] @ nat_digits r @ [125]"

definition td_data :: "jstr \<Rightarrow> dialog \<Rightarrow> dialog" where
  "td_data d s = send_frame d s"

definition td_resize :: "nat \<Rightarrow> nat \<Rightarrow> dialog \<Rightarrow> dialog" where
  "td_resize c r s = (case td_sock s of
     Some k \<Rightarrow> send_frame (resize_text c r) (s\<lparr>td_sock := Some (k\<lparr>ts_cols := c, ts_rows := r\<rparr>)\<rparr>)
   | None \<Rightarrow> s)"

datatype td_ev = Td_render bool "nat \<times> nat" "int option" jstr | Td_open nat | Td_message nat jstr | Td_close nat
  | Td_data jstr | Td_resize nat nat

fun td_step :: "bool \<Rightarrow> jstr \<Rightarrow> td_ev \<Rightarrow> dialog \<Rightarrow> dialog" where
  "td_step https loc (Td_render host fit dev room) = td_render https loc host fit dev room"
| "td_step https loc (Td_open k) = td_open k"
| "td_step https loc (Td_message k m) = td_message k m"
| "td_step https loc (Td_close k) = td_close k"
| "td_step https loc (Td_data d) = td_data d"
| "td_step https loc (Td_resize c r) = td_resize c r"

definition td_run :: "bool \<Rightarrow> jstr \<Rightarrow> td_ev list \<Rightarrow> dialog \<Rightarrow> dialog" where
  "td_run https loc es s = run (td_step https loc) es s"

section \<open>The server\<close>

datatype tmsg = T_open jstr int int | T_input jstr jstr | T_resize jstr int int | T_close jstr

definition session_id :: "int \<Rightarrow> jstr" where
  "session_id d = js ''term_'' @ int_str d"

definition max_cols :: int where "max_cols = 500"
definition max_rows :: int where "max_rows = 200"

text \<open>A size of the address, read by \<open>strconv.Atoi\<close>; anything else leaves the default.\<close>

definition query_size :: "int \<Rightarrow> int \<Rightarrow> int option \<Rightarrow> int" where
  "query_size most dflt v = (case v of Some x \<Rightarrow> if 0 < x \<and> x \<le> most then x else dflt | None \<Rightarrow> dflt)"

definition open_msg :: "int \<Rightarrow> int option \<Rightarrow> int option \<Rightarrow> tmsg" where
  "open_msg d c r = T_open (session_id d) (query_size max_cols 80 c) (query_size max_rows 24 r)"

text \<open>\<open>ctl\<close> is \<open>json.Unmarshal\<close> into the control message: its type, columns and rows.\<close>

definition frame_msg :: "(jstr \<Rightarrow> (jstr \<times> int \<times> int) option) \<Rightarrow> int \<Rightarrow> jstr \<Rightarrow> tmsg" where
  "frame_msg ctl d m =
     (if m \<noteq> [] \<and> hd m = 123 then
        (case ctl m of
           Some (t, c, r) \<Rightarrow> if t = js ''resize'' then T_resize (session_id d) (min c max_cols) (min r max_rows)
             else T_input (session_id d) m
         | None \<Rightarrow> T_input (session_id d) m)
      else T_input (session_id d) m)"

text \<open>Every message for the agent is offered to the queue of its connection, which the hub's write loop empties and
  which jobs and settings use as well (\<^term>\<open>None\<close>): if it is full, the message is dropped without a sign.\<close>

definition queue_cap :: nat where
  "queue_cap = 64"

definition offer_message :: "tmsg option \<Rightarrow> tmsg option list \<Rightarrow> tmsg option list" where
  "offer_message m q = (if length q < queue_cap then q @ [m] else q)"

definition serve_frame :: "(jstr \<Rightarrow> (jstr \<times> int \<times> int) option) \<Rightarrow> int \<Rightarrow> jstr \<Rightarrow> tmsg option list \<Rightarrow> tmsg option list" where
  "serve_frame ctl d m q = offer_message (Some (frame_msg ctl d m)) q"

definition close_msg :: "int \<Rightarrow> tmsg" where
  "close_msg d = T_close (session_id d)"

section \<open>The agent\<close>

text \<open>A shell is known by its place in \<open>ag_input\<close>, the input it was given.\<close>

record agent =
  ag_sess :: "(jstr \<times> nat) list"
  ag_input :: "jstr list"
  ag_alive :: "nat list"

fun agent_step :: "tmsg \<Rightarrow> agent \<Rightarrow> agent" where
  "agent_step (T_open s c r) a = a\<lparr>ag_sess := AList.update s (length (ag_input a)) (ag_sess a), ag_input := ag_input a @ [[]],
     ag_alive := length (ag_input a) # ag_alive a\<rparr>"
| "agent_step (T_input s d) a = (case map_of (ag_sess a) s of
     Some n \<Rightarrow> a\<lparr>ag_input := (ag_input a)[n := ag_input a ! n @ d]\<rparr> | None \<Rightarrow> a)"
| "agent_step (T_resize s c r) a = a"
| "agent_step (T_close s) a = (case map_of (ag_sess a) s of
     Some n \<Rightarrow> a\<lparr>ag_sess := AList.delete s (ag_sess a), ag_alive := removeAll n (ag_alive a)\<rparr> | None \<Rightarrow> a)"

text \<open>The end of a shell, by itself or after its terminal was closed: the deferred function removes the entry of
  its session, whatever shell it names by then.\<close>

definition shell_ends :: "jstr \<Rightarrow> nat \<Rightarrow> agent \<Rightarrow> agent" where
  "shell_ends s n a = a\<lparr>ag_sess := AList.delete s (ag_sess a), ag_alive := removeAll n (ag_alive a)\<rparr>"

definition agent_run :: "tmsg list \<Rightarrow> agent \<Rightarrow> agent" where
  "agent_run ms a = fold agent_step ms a"

section \<open>One socket\<close>

text \<open>Every socket but the one of the dialog has been closed by the page, and frames went out on sockets it created.\<close>

definition td_ok :: "dialog \<Rightarrow> bool" where
  "td_ok s = ((case td_sock s of None \<Rightarrow> set (td_closed s) = {..<length (td_urls s)}
       | Some c \<Rightarrow> length (td_urls s) = Suc (ts_id c) \<and> set (td_closed s) = {..<ts_id c} \<and> td_dev s \<noteq> None)
     \<and> distinct (td_closed s) \<and> (\<forall>f\<in>set (td_sent s). fst f < length (td_urls s)))"

lemma td_ok_init: "td_ok dialog_init"
  by (simp add: td_ok_def dialog_init_def)

lemma td_ok_cleanup: "td_ok s \<Longrightarrow> td_ok (td_cleanup s) \<and> td_sock (td_cleanup s) = None"
  by (auto simp: td_ok_def td_cleanup_def lessThan_Suc split: option.splits)

lemma td_ok_render: "td_ok s \<Longrightarrow> td_ok (td_render https loc host fit dev room s)"
  using td_ok_cleanup [of s]
  by (auto simp: td_render_def td_ok_def Let_def td_cleanup_def split: option.splits)

lemma td_ok_send: "td_ok s \<Longrightarrow> td_ok (send_frame m s)"
  by (auto simp: td_ok_def send_frame_def split: option.splits)

lemma td_ok_step: "td_ok s \<Longrightarrow> td_ok (td_step https loc e s)"
proof (cases e)
  case (Td_render host fit dev room)
  then show "td_ok s \<Longrightarrow> ?thesis" by (simp add: td_ok_render)
next
  case (Td_resize c r)
  then show "td_ok s \<Longrightarrow> ?thesis"
    by (auto simp: td_resize_def intro!: td_ok_send split: option.splits) (auto simp: td_ok_def)
qed (auto simp: td_open_def td_message_def td_close_def td_data_def on_sock_def td_ok_send split: option.splits; simp add: td_ok_def)+

interpretation terminal: invariant_machine "\<lambda>s. s = dialog_init" "\<lambda>_ _. True" "td_step https loc" td_ok
  for https loc
  by unfold_locales (simp_all add: td_ok_init td_ok_step)

text \<open>However device, room and sockets change, at most one socket of the dialog is not closed by it.\<close>

lemma terminal_single:
  assumes "reach (\<lambda>s. s = dialog_init) (\<lambda>_ _. True) (td_step https loc) s"
  shows "{..<length (td_urls s)} - set (td_closed s) \<subseteq> (case td_sock s of None \<Rightarrow> {} | Some c \<Rightarrow> {ts_id c})"
  using terminal.inv_reach [OF assms] by (auto simp: td_ok_def split: option.splits)

section \<open>Properties\<close>

definition frames_of :: "nat \<Rightarrow> dialog \<Rightarrow> jstr list" where
  "frames_of k s = map snd (filter (\<lambda>f. fst f = k) (td_sent s))"

text \<open>What the agent should get for an event of the operator, and when the server can tell it: typed text that
  does not begin with a brace and that UTF-8 can carry, and sizes whose message is read back.\<close>

fun user_msg :: "int \<Rightarrow> td_ev \<Rightarrow> tmsg option" where
  "user_msg d (Td_data m) = Some (T_input (session_id d) m)"
| "user_msg d (Td_resize c r) = Some (T_resize (session_id d) (min (int c) max_cols) (min (int r) max_rows))"
| "user_msg d _ = None"

fun told :: "(jstr \<Rightarrow> (jstr \<times> int \<times> int) option) \<Rightarrow> td_ev \<Rightarrow> bool" where
  "told ctl (Td_data m) = ((m = [] \<or> hd m \<noteq> 123) \<and> code_points m \<noteq> None)"
| "told ctl (Td_resize c r) = (ctl (resize_text c r) = Some (js ''resize'', int c, int r))"
| "told ctl (Td_message k m) = True"
| "told ctl _ = False"

definition is_open :: "nat \<Rightarrow> dialog \<Rightarrow> bool" where
  "is_open k s = (case td_sock s of Some c \<Rightarrow> ts_id c = k \<and> ts_phase c = Open | None \<Rightarrow> False)"

lemma frame_msg_plain: "m = [] \<or> hd m \<noteq> 123 \<Longrightarrow> frame_msg ctl d m = T_input (session_id d) m"
  by (auto simp: frame_msg_def)

lemma frame_msg_resize: "ctl (resize_text c r) = Some (js ''resize'', x, y)
   \<Longrightarrow> frame_msg ctl d (resize_text c r) = T_resize (session_id d) (min x max_cols) (min y max_rows)"
  by (simp add: frame_msg_def) (simp add: resize_text_def)

text \<open>Text that reads as a control message is not typed into the shell.\<close>

lemma pasted_control_lost: "ctl (123 # m) = Some (js ''resize'', x, y) \<Longrightarrow> frame_msg ctl d (123 # m) \<noteq> T_input (session_id d) (123 # m)"
  by (simp add: frame_msg_def)

lemma send_frame_open: "is_open k s \<Longrightarrow> frames_of k (send_frame m s) = frames_of k s @ [m] \<and> is_open k (send_frame m s)
   \<and> td_room (send_frame m s) = td_room s"
  by (auto simp: is_open_def send_frame_def frames_of_def split: option.splits)

text \<open>Before the socket is open, and after it is lost, what is typed goes nowhere.\<close>

lemma typed_unopened_lost: "td_sock s = Some c \<Longrightarrow> ts_phase c \<noteq> Open \<Longrightarrow> td_data d s = s"
  by (simp add: td_data_def send_frame_def)

section \<open>The whole way\<close>

text \<open>The dialog, the handler of its socket \<open>k\<close> and the connection to the machine \<open>d\<close>: the frames read so far, the
  queue and what the write loop has written of this terminal.\<close>

record wire =
  w_dialog :: dialog
  w_read :: nat
  w_queue :: "tmsg option list"
  w_out :: "tmsg list"

datatype wire_ev = At_page td_ev | Read_frame | Other_message | Write_next

fun wire_step :: "bool \<Rightarrow> jstr \<Rightarrow> (jstr \<Rightarrow> (jstr \<times> int \<times> int) option) \<Rightarrow> int \<Rightarrow> nat \<Rightarrow> wire_ev \<Rightarrow> wire \<Rightarrow> wire" where
  "wire_step https loc ctl d k (At_page e) w = w\<lparr>w_dialog := td_step https loc e (w_dialog w)\<rparr>"
| "wire_step https loc ctl d k Read_frame w =
     (if w_read w < length (frames_of k (w_dialog w))
      then w\<lparr>w_queue := serve_frame ctl d (frames_of k (w_dialog w) ! w_read w) (w_queue w), w_read := Suc (w_read w)\<rparr>
      else w)"
| "wire_step https loc ctl d k Other_message w = w\<lparr>w_queue := offer_message None (w_queue w)\<rparr>"
| "wire_step https loc ctl d k Write_next w =
     (case w_queue w of
        [] \<Rightarrow> w
      | m # q \<Rightarrow> w\<lparr>w_queue := q, w_out := w_out w @ (case m of Some x \<Rightarrow> [x] | None \<Rightarrow> [])\<rparr>)"

fun page_events :: "wire_ev list \<Rightarrow> td_ev list" where
  "page_events [] = []"
| "page_events (At_page e # es) = e # page_events es"
| "page_events (_ # es) = page_events es"

text \<open>Everything of the terminal that is written, queued or still to be read.\<close>

definition on_way :: "(jstr \<Rightarrow> (jstr \<times> int \<times> int) option) \<Rightarrow> int \<Rightarrow> nat \<Rightarrow> wire \<Rightarrow> tmsg list" where
  "on_way ctl d k w = w_out w @ List.map_filter id (w_queue w)
     @ map (frame_msg ctl d) (drop (w_read w) (frames_of k (w_dialog w)))"

text \<open>The socket is open and goes to this server: with a room chosen the frames take another way
  (\<^verbatim>\<open>internal/service/federation_terminal.go\<close>).\<close>

definition direct :: "nat \<Rightarrow> wire \<Rightarrow> bool" where
  "direct k w \<longleftrightarrow> is_open k (w_dialog w) \<and> td_room (w_dialog w) = [] \<and> w_read w \<le> length (frames_of k (w_dialog w))"

lemma queued_append: "List.map_filter f (xs @ ys) = List.map_filter f xs @ List.map_filter f ys"
  by (simp add: List.map_filter_def)

lemma told_grows:
  assumes "is_open k s" "told ctl e"
  shows "\<exists>fs. frames_of k (td_step https loc e s) = frames_of k s @ fs
     \<and> map (frame_msg ctl d) fs = (case user_msg d e of Some m \<Rightarrow> [m] | None \<Rightarrow> [])
     \<and> is_open k (td_step https loc e s) \<and> td_room (td_step https loc e s) = td_room s"
proof (cases e)
  case (Td_data m)
  then show ?thesis using assms by (auto simp: td_data_def send_frame_open frame_msg_plain)
next
  case (Td_resize c r)
  obtain sk where sk: "td_sock s = Some sk" using assms(1) by (auto simp: is_open_def split: option.splits)
  then have "is_open k (s\<lparr>td_sock := Some (sk\<lparr>ts_cols := c, ts_rows := r\<rparr>)\<rparr>)"
    "frames_of k (s\<lparr>td_sock := Some (sk\<lparr>ts_cols := c, ts_rows := r\<rparr>)\<rparr>) = frames_of k s"
    using assms(1) by (simp_all add: is_open_def frames_of_def)
  then show ?thesis using Td_resize assms(2) sk by (simp add: td_resize_def send_frame_open frame_msg_resize)
next
  case (Td_message i m)
  then show ?thesis using assms(1) by (auto simp: td_message_def on_sock_def is_open_def frames_of_def split: option.splits)
qed (use assms(2) in simp_all)

lemma wire_page:
  assumes "direct k w" "told ctl e"
  shows "direct k (wire_step https loc ctl d k (At_page e) w)
     \<and> on_way ctl d k (wire_step https loc ctl d k (At_page e) w)
       = on_way ctl d k w @ (case user_msg d e of Some m \<Rightarrow> [m] | None \<Rightarrow> [])"
  using told_grows [of k "w_dialog w" ctl e https loc d] assms by (auto simp: direct_def on_way_def)

lemma dropped_frame: "subseq (xs @ ys @ zs) (xs @ ys @ z # zs)"
  by (intro list_emb_append_mono subseq_order.refl list_emb_Cons)

text \<open>A step of the server keeps what is on the way, but that it may drop the frame it reads.\<close>

lemma wire_server:
  assumes "direct k w" "\<And>e'. e \<noteq> At_page e'"
  shows "direct k (wire_step https loc ctl d k e w)
     \<and> subseq (on_way ctl d k (wire_step https loc ctl d k e w)) (on_way ctl d k w)
     \<and> ((e = Read_frame \<longrightarrow> length (w_queue w) < queue_cap) \<longrightarrow> on_way ctl d k (wire_step https loc ctl d k e w) = on_way ctl d k w)"
proof (cases e)
  case Read_frame
  then show ?thesis using assms(1)
    by (auto simp: direct_def on_way_def serve_frame_def offer_message_def queued_append map_filter_simps dropped_frame simp flip: Cons_nth_drop_Suc)
next
  case Other_message
  then show ?thesis using assms(1)
    by (simp add: direct_def on_way_def offer_message_def queued_append map_filter_simps)
next
  case Write_next
  then show ?thesis using assms(1)
    by (auto simp: direct_def on_way_def map_filter_simps split: list.split option.split)
qed (use assms(2) in simp)

lemma wire_run:
  assumes "direct k w" "\<forall>e\<in>set (page_events es). told ctl e"
  shows "subseq (on_way ctl d k (run (wire_step https loc ctl d k) es w)) (on_way ctl d k w @ List.map_filter (user_msg d) (page_events es))
     \<and> (run_ok (\<lambda>w e. e = Read_frame \<longrightarrow> length (w_queue w) < queue_cap) (wire_step https loc ctl d k) es w
        \<longrightarrow> on_way ctl d k (run (wire_step https loc ctl d k) es w) = on_way ctl d k w @ List.map_filter (user_msg d) (page_events es))"
  using assms
proof (induction es arbitrary: w)
  case (Cons e es)
  let ?w = "wire_step https loc ctl d k e w"
  show ?case
  proof (cases "\<exists>e'. e = At_page e'")
    case True
    then obtain e' where e: "e = At_page e'" by blast
    have "direct k ?w" "on_way ctl d k ?w = on_way ctl d k w @ (case user_msg d e' of Some m \<Rightarrow> [m] | None \<Rightarrow> [])"
      using wire_page [OF Cons.prems(1), of ctl e' https loc d] Cons.prems(2) e by simp_all
    then show ?thesis using Cons.IH [of ?w] Cons.prems(2) e
      by (cases "user_msg d e'") (simp_all del: wire_step.simps add: map_filter_simps)
  next
    case False
    then have w: "direct k ?w" "subseq (on_way ctl d k ?w) (on_way ctl d k w)"
      "(e = Read_frame \<longrightarrow> length (w_queue w) < queue_cap) \<longrightarrow> on_way ctl d k ?w = on_way ctl d k w"
      using wire_server [OF Cons.prems(1), of e https loc ctl d] by blast+
    have es: "page_events (e # es) = page_events es" using False by (cases e) auto
    have IH: "subseq (on_way ctl d k (run (wire_step https loc ctl d k) es ?w)) (on_way ctl d k ?w @ List.map_filter (user_msg d) (page_events es))"
      "run_ok (\<lambda>w e. e = Read_frame \<longrightarrow> length (w_queue w) < queue_cap) (wire_step https loc ctl d k) es ?w
        \<longrightarrow> on_way ctl d k (run (wire_step https loc ctl d k) es ?w) = on_way ctl d k ?w @ List.map_filter (user_msg d) (page_events es)"
      using Cons.IH [OF w(1)] Cons.prems(2) es by simp_all
    have "subseq (on_way ctl d k ?w @ List.map_filter (user_msg d) (page_events es)) (on_way ctl d k w @ List.map_filter (user_msg d) (page_events es))"
      using w(2) by (simp add: list_emb_append_mono)
    then show ?thesis using subseq_order.trans [OF IH(1)] IH(2) w(3) es by (simp del: wire_step.simps)
  qed
qed (simp add: map_filter_simps)

text \<open>C31: a terminal of the console on a machine of its own room. Take any interleaving of the operator's typing and
  changes of the window, output, the server reading frames, other messages for the machine and the write loop of
  its connection, in which typed text does not begin with a brace and has no half of a surrogate pair. What has
  been written to the agent, what waits in its queue and what waits to be read are together a subsequence of the
  operator's typing and window sizes: nothing is made up, repeated or reordered. They are exactly these if
  the queue of 64 was never full when a frame was read. Sizes are cut to 500 columns and 200 rows.\<close>

theorem terminal_forwards:
  assumes "direct k w" "\<forall>e\<in>set (page_events es). told ctl e"
  shows "subseq (on_way ctl d k (run (wire_step https loc ctl d k) es w)) (on_way ctl d k w @ List.map_filter (user_msg d) (page_events es))
     \<and> (run_ok (\<lambda>w e. e = Read_frame \<longrightarrow> length (w_queue w) < queue_cap) (wire_step https loc ctl d k) es w
        \<longrightarrow> on_way ctl d k (run (wire_step https loc ctl d k) es w) = on_way ctl d k w @ List.map_filter (user_msg d) (page_events es))"
  using wire_run [OF assms] .

text \<open>Two dialogs on one device share one session: after the second has opened, what is typed in either goes
  to the second shell; when the first is closed the second shell ends and further typing in the second is
  dropped, while the first shell lives on with nothing leading to it.\<close>

theorem terminal_shared:
  "let n = length (ag_input a); b = agent_run [open_msg d c r, open_msg d c' r', T_input (session_id d) x] a; b' = agent_step (close_msg d) b in
     ag_input b = ag_input a @ [[], x] \<and> n \<in> set (ag_alive b) \<and> Suc n \<in> set (ag_alive b)
     \<and> n \<in> set (ag_alive b') \<and> Suc n \<notin> set (ag_alive b') \<and> agent_step (T_input (session_id d) y) b' = b'"
  by (simp add: agent_run_def open_msg_def close_msg_def update_conv' delete_conv' nth_append list_update_append Let_def)

section \<open>Witnesses\<close>

definition demo_ctl :: "jstr \<Rightarrow> (jstr \<times> int \<times> int) option" where
  "demo_ctl m = (if m = resize_text 600 40 then Some (js ''resize'', 600, 40) else None)"

definition demo_dialog :: dialog where
  "demo_dialog = td_run True (js ''h'') [Td_render True (80, 24) (Some 7) [], Td_data (js ''lost''), Td_open 0] dialog_init"

lemma demo_dialog_open: "is_open 0 demo_dialog" "frames_of 0 demo_dialog = []"
  by (simp_all add: demo_dialog_def td_run_def td_render_def td_cleanup_def dialog_init_def td_data_def send_frame_def td_open_def
      on_sock_def is_open_def frames_of_def)

definition demo_wire :: wire where
  "demo_wire = \<lparr>w_dialog = demo_dialog, w_read = 0, w_queue = [None], w_out = []\<rparr>"

definition demo_way :: "wire_ev list" where
  "demo_way = [At_page (Td_data (js ''ls'')), Read_frame, Write_next, Write_next, At_page (Td_resize 600 40)]"

lemma demo_wire_direct: "direct 0 demo_wire" "on_way demo_ctl 7 0 demo_wire = []"
proof -
  have "td_room demo_dialog = []"
    by (simp add: demo_dialog_def td_run_def td_render_def td_cleanup_def dialog_init_def td_data_def send_frame_def td_open_def on_sock_def)
  then show "direct 0 demo_wire" "on_way demo_ctl 7 0 demo_wire = []"
    using demo_dialog_open by (simp_all add: direct_def on_way_def demo_wire_def map_filter_simps)
qed

lemma demo_way_told: "\<forall>e\<in>set (page_events demo_way). told demo_ctl e"
  by (simp add: demo_way_def demo_ctl_def) (simp add: js_def is_low_def is_high_def)

lemma demo_way_free: "run_ok (\<lambda>w e. e = Read_frame \<longrightarrow> length (w_queue w) < queue_cap) (wire_step True (js ''h'') demo_ctl 7 0) demo_way demo_wire"
  by (simp add: demo_way_def demo_wire_def queue_cap_def serve_frame_def offer_message_def)

lemma terminal_forwards_witness:
  "on_way demo_ctl 7 0 (run (wire_step True (js ''h'') demo_ctl 7 0) demo_way demo_wire)
   = [T_input (session_id 7) (js ''ls''), T_resize (session_id 7) 500 40]"
  using terminal_forwards [OF demo_wire_direct(1) demo_way_told, of 7 True "js ''h''"] demo_way_free
  by (simp add: demo_wire_direct(2) demo_way_def map_filter_simps max_cols_def max_rows_def)

text \<open>With a full queue what is typed is lost.\<close>

lemma full_queue_drops:
  assumes "length (w_queue w) = queue_cap" "w_read w < length (frames_of k (w_dialog w))"
  shows "w_queue (wire_step https loc ctl d k Read_frame w) = w_queue w"
    "w_read (wire_step https loc ctl d k Read_frame w) = Suc (w_read w)"
  using assms by (simp_all add: serve_frame_def offer_message_def)

end
