(* ===== verification/Distribute_Page.thy ===== *)
theory Distribute_Page
  imports Ops_Pages
begin

text \<open>
  The distribution page over time, \<^verbatim>\<open>frontend/src/pages/distribute.tsx\<close>, beside the task it watches,
  \<^verbatim>\<open>internal/service/distribution.go\<close>. The page asks for the status once when it opens and then every second
  while the task it knows is running. Requests may be answered late, out of order or not at all.
\<close>

section \<open>The task of the server\<close>

record srv_task =
  st_status :: jstr
  st_open :: bool \<comment> \<open>\<open>done\<close> is a channel that is not closed yet: \<open>run\<close> has not ended\<close>
  st_devs :: "(int \<times> jstr) list" \<comment> \<open>status of each device's progress\<close>

type_synonym server = "srv_task option"

definition st_running :: jstr where "st_running = js ''running''"
definition st_completed :: jstr where "st_completed = js ''completed''"

definition get_status :: "server \<Rightarrow> jstr" where
  "get_status s = (case s of None \<Rightarrow> js ''idle'' | Some t \<Rightarrow> st_status t)"

definition is_running :: "server \<Rightarrow> bool" where
  "is_running s = (case s of None \<Rightarrow> False | Some t \<Rightarrow> st_open t \<or> st_status t = st_running)"

datatype dist_error = D_no_task | D_not_of_task | D_not_waiting | D_stopping | D_changed | D_stop_first

definition stop_task :: "server \<Rightarrow> dist_error + server" where
  "stop_task s = (case s of None \<Rightarrow> Inl D_no_task
     | Some t \<Rightarrow> Inr (Some (t\<lparr>st_status := js ''stopped'',
         st_devs := map (\<lambda>(i, p). (i, if p = st_completed then p else js ''cancelled'')) (st_devs t)\<rparr>)))"

text \<open>\<open>sent i\<close>: the hub took the message for device \<open>i\<close>; \<open>unchanged\<close>: the files still have their sums.\<close>

definition retry_device :: "(int \<Rightarrow> bool) \<Rightarrow> bool \<Rightarrow> int \<Rightarrow> server \<Rightarrow> dist_error + server" where
  "retry_device sent unchanged i s = (case s of None \<Rightarrow> Inl D_no_task
     | Some t \<Rightarrow>
         if i \<noteq> 0 \<and> map_of (st_devs t) i = None then Inl D_not_of_task
         else if st_status t = st_running then
           (case map_of (st_devs t) i of
              None \<Rightarrow> Inl D_not_waiting
            | Some p \<Rightarrow> if p = st_completed then Inl D_not_waiting
                else Inr (Some (t\<lparr>st_devs := map (\<lambda>(k, q). (k, if k = i then js (if sent i then ''downloading'' else ''failed'') else q)) (st_devs t)\<rparr>)))
         else if st_open t then Inl D_stopping
         else if \<not> unchanged then Inl D_changed
         else Inr (Some (t\<lparr>st_status := st_running, st_open := True\<rparr>)))"

definition reset_task :: "server \<Rightarrow> dist_error + server" where
  "reset_task s = (if is_running s then Inl D_stop_first else Inr None)"

text \<open>The end of \<open>run\<close>: a task still running has completed, one that ran out of attempts or time has failed.\<close>

definition run_ends :: "bool \<Rightarrow> server \<Rightarrow> server" where
  "run_ends ok s = map_option (\<lambda>t. t\<lparr>st_status := if st_status t = st_running then (if ok then st_completed else js ''failed'') else st_status t,
     st_open := False\<rparr>) s"

section \<open>The page\<close>

text \<open>A request for the status: not handled yet, or handled with the status it will bring. It carries the
  announced address the page had in the render that asked.\<close>

datatype flight = Out jstr | Back jstr jstr

record dpage =
  dp_task :: "jstr option" \<comment> \<open>\<open>task?.status\<close>\<close>
  dp_timer :: bool
  dp_tick_ip :: jstr \<comment> \<open>\<open>serverIP\<close> of the render that started the interval\<close>
  dp_ip :: jstr
  dp_wait :: "flight list"

text \<open>\<open>setTask\<close>: a changed status clears the interval, and a running task starts one.\<close>

definition set_task :: "jstr option \<Rightarrow> dpage \<Rightarrow> dpage" where
  "set_task st s = (if st = dp_task s then s
     else s\<lparr>dp_task := st, dp_timer := (st = Some st_running), dp_tick_ip := dp_ip s\<rparr>)"

definition ask_status :: "bool \<Rightarrow> jstr \<Rightarrow> dpage \<Rightarrow> dpage" where
  "ask_status cloud_all ip s = (if cloud_all then s else s\<lparr>dp_wait := dp_wait s @ [Out ip]\<rparr>)"

definition open_page :: "bool \<Rightarrow> dpage" where
  "open_page cloud_all = ask_status cloud_all [] \<lparr>dp_task = None, dp_timer = False, dp_tick_ip = [], dp_ip = [], dp_wait = []\<rparr>"

definition dp_tick :: "bool \<Rightarrow> dpage \<Rightarrow> dpage" where
  "dp_tick cloud_all s = (if dp_timer s then ask_status cloud_all (dp_tick_ip s) s else s)"

definition drop_nth :: "nat \<Rightarrow> 'a list \<Rightarrow> 'a list" where
  "drop_nth i xs = take i xs @ drop (Suc i) xs"

text \<open>The server handles a request; only without a task it suggests an address.\<close>

definition serve :: "nat \<Rightarrow> server \<Rightarrow> dpage \<Rightarrow> dpage" where
  "serve i sv s = (case nth_opt (dp_wait s) (int i) of
     Some (Out ip) \<Rightarrow> s\<lparr>dp_wait := (dp_wait s)[i := Back ip (get_status sv)]\<rparr>
   | _ \<Rightarrow> s)"

definition deliver_status :: "jstr \<Rightarrow> nat \<Rightarrow> dpage \<Rightarrow> dpage" where
  "deliver_status suggested i s = (case nth_opt (dp_wait s) (int i) of
     Some (Back ip st) \<Rightarrow>
       (let s1 = set_task (Some st) (s\<lparr>dp_wait := drop_nth i (dp_wait s)\<rparr>) in
        if st = js ''idle'' \<and> suggested \<noteq> [] \<and> ip = [] then s1\<lparr>dp_ip := suggested\<rparr> else s1)
   | _ \<Rightarrow> s)"

definition lose_status :: "nat \<Rightarrow> dpage \<Rightarrow> dpage" where
  "lose_status i s = s\<lparr>dp_wait := drop_nth i (dp_wait s)\<rparr>"

text \<open>The buttons, the request answered at once: stop, return to the preparation, send again what is missing
  (device 0) or to one device. What \<open>then\<close> does is not done after a refusal.\<close>

datatype dist_button = Press_stop | Press_reset | Press_retry int

fun press :: "(int \<Rightarrow> bool) \<Rightarrow> bool \<Rightarrow> bool \<Rightarrow> dist_button \<Rightarrow> server \<times> dpage \<Rightarrow> (dist_error + toast_tone list) \<times> server \<times> dpage" where
  "press sent unchanged cloud_all Press_stop (sv, s) = (case stop_task sv of
     Inl e \<Rightarrow> (Inl e, sv, s) | Inr sv' \<Rightarrow> (Inr [], sv', ask_status cloud_all (dp_ip s) s))"
| "press sent unchanged cloud_all Press_reset (sv, s) = (case reset_task sv of
     Inl e \<Rightarrow> (Inl e, sv, s) | Inr sv' \<Rightarrow> (Inr [], sv', set_task None s))"
| "press sent unchanged cloud_all (Press_retry i) (sv, s) = (case retry_device sent unchanged i sv of
     Inl e \<Rightarrow> (Inl e, sv, s) | Inr sv' \<Rightarrow> (Inr (if i = 0 then [Toast_ok] else []), sv', s))"

text \<open>Page and server together. A task can be started here, after which the status is asked, or by somebody else.\<close>

datatype dist_ev = Ev_tick | Ev_serve nat | Ev_deliver jstr nat | Ev_lose nat | Ev_ends bool | Ev_started bool srv_task | Ev_press bool dist_button

fun dist_step :: "(int \<Rightarrow> bool) \<Rightarrow> bool \<Rightarrow> dist_ev \<Rightarrow> server \<times> dpage \<Rightarrow> server \<times> dpage" where
  "dist_step sent c Ev_tick (sv, s) = (sv, dp_tick c s)"
| "dist_step sent c (Ev_serve i) (sv, s) = (sv, serve i sv s)"
| "dist_step sent c (Ev_deliver g i) (sv, s) = (sv, deliver_status g i s)"
| "dist_step sent c (Ev_lose i) (sv, s) = (sv, lose_status i s)"
| "dist_step sent c (Ev_ends ok) (sv, s) = (run_ends ok sv, s)"
| "dist_step sent c (Ev_started here t) (sv, s) = (if is_running sv then (sv, s) else (Some t, if here then ask_status c (dp_ip s) s else s))"
| "dist_step sent c (Ev_press unchanged b) (sv, s) = snd (press sent unchanged c b (sv, s))"

definition dist_reach :: "(int \<Rightarrow> bool) \<Rightarrow> bool \<Rightarrow> server \<times> dpage \<Rightarrow> bool" where
  "dist_reach sent c = reach (\<lambda>x. snd x = open_page c) (\<lambda>_ _. True) (dist_step sent c)"

text \<open>What happens without the administrator. The last case: \<open>run\<close> of the server ends.\<close>

inductive drift :: "server \<times> dpage \<Rightarrow> server \<times> dpage \<Rightarrow> bool" where
  drift_tick: "dp_timer s \<Longrightarrow> drift (sv, s) (sv, dp_tick False s)"
| drift_serve: "drift (sv, s) (sv, serve i sv s)"
| drift_deliver: "drift (sv, s) (sv, deliver_status g i s)"
| drift_lose: "drift (sv, s) (sv, lose_status i s)"
| drift_ends: "drift (sv, s) (run_ends ok sv, s)"

text \<open>The page and a server whose status stays \<open>st\<close>, at most \<open>b\<close> requests outstanding and \<open>n\<close> more of them lost.\<close>

inductive settle_step :: "nat \<Rightarrow> server \<Rightarrow> nat \<times> dpage \<Rightarrow> nat \<times> dpage \<Rightarrow> bool" for b sv where
  settle_tick: "dp_timer s \<Longrightarrow> length (dp_wait s) < b \<Longrightarrow> settle_step b sv (n, s) (n, dp_tick False s)"
| settle_serve: "i < length (dp_wait s) \<Longrightarrow> dp_wait s ! i = Out ip \<Longrightarrow> settle_step b sv (n, s) (n, serve i sv s)"
| settle_deliver: "i < length (dp_wait s) \<Longrightarrow> dp_wait s ! i = Back ip st \<Longrightarrow> settle_step b sv (n, s) (n, deliver_status g i s)"
| settle_lose: "i < length (dp_wait s) \<Longrightarrow> settle_step b sv (Suc n, s) (n, lose_status i s)"

section \<open>What the page shows\<close>

record dist_row =
  dr_id :: int
  dr_host :: "jstr option"
  dr_pct :: rat
  dr_status :: jstr
  dr_error :: "jstr option"

definition has_panel :: "jstr option \<Rightarrow> 'a option \<Rightarrow> bool" where
  "has_panel st files = (case st of None \<Rightarrow> False
     | Some x \<Rightarrow> x \<in> set (map js [''running'', ''completed'', ''stopped'', ''failed'']) \<and> files \<noteq> None)"

text \<open>\<open>Object.values\<close> of an object whose keys are device numbers.\<close>

definition progress_rows :: "(nat \<times> dist_row) list \<Rightarrow> dist_row list" where
  "progress_rows ps = map snd (sort_key fst ps)"

definition row_name :: "dist_row \<Rightarrow> jstr" where
  "row_name r = js ''#'' @ int_str (dr_id r) @ js '' '' @ str_or (dr_host r) []"

definition bar_width :: "dist_row \<Rightarrow> rat" where
  "bar_width r = min 100 (dr_pct r)"

definition row_text :: "dist_row \<Rightarrow> jstr" where
  "row_text r = status_label (Some (dr_status r)) @ (case dr_error r of None \<Rightarrow> [] | Some e \<Rightarrow> if e = [] then [] else [0x20, 0xB7, 0x20] @ e)"

definition can_retry :: "dist_row \<Rightarrow> bool" where
  "can_retry r = (dr_status r = js ''failed'')"

definition t_preparing :: jstr where "t_preparing = [0x51C6, 0x5907, 0x4E2D]"

definition panel_text :: "jstr option \<Rightarrow> int \<Rightarrow> 'a list option \<Rightarrow> jstr" where
  "panel_text active idx files = str_or active t_preparing @ [0x20, 0xB7, 0x20] @ int_str (idx + 1) @ js ''/''
     @ nat_digits (case files of None \<Rightarrow> 0 | Some xs \<Rightarrow> length xs)"

text \<open>\<open>formatBytes\<close> for a whole number of bytes: the quotient of the logarithms is rounded to a double, but for
  numbers below \<open>1024 ^ 5\<close> that never moves it across a whole number, and beyond the unit stays the last one.\<close>

fun unit_index :: "nat \<Rightarrow> nat \<Rightarrow> nat" where
  "unit_index 0 n = 0"
| "unit_index (Suc k) n = (if n < 1024 then 0 else Suc (unit_index k (n div 1024)))"

definition one_decimal :: "rat \<Rightarrow> jstr" where
  "one_decimal v = (let t = nat \<lfloor>v * 10 + 1 / 2\<rfloor> in nat_digits (t div 10) @ js ''.'' @ nat_digits (t mod 10))"

definition format_bytes :: "int option \<Rightarrow> jstr" where
  "format_bytes b = (case b of
     None \<Rightarrow> dash
   | Some n \<Rightarrow>
       if n < 0 then dash
       else if n = 0 then js ''0 B''
       else (let i = unit_index 4 (nat n) in
         (if i = 0 then nat_digits (nat n) else one_decimal (of_int n / 1024 ^ i)) @ js '' '' @ js ([''B'', ''KB'', ''MB'', ''GB'', ''TB''] ! i)))"

section \<open>Invariant\<close>

text \<open>There is an interval exactly while the task the page knows is running.\<close>

definition page_ok :: "dpage \<Rightarrow> bool" where
  "page_ok s = (dp_timer s = (dp_task s = Some st_running))"

lemma page_ok_set_task [intro]: "page_ok s \<Longrightarrow> page_ok (set_task st s)"
  by (simp add: page_ok_def set_task_def)

lemma page_ok_wait [simp]: "page_ok (s\<lparr>dp_wait := w\<rparr>) = page_ok s" "page_ok (s\<lparr>dp_ip := v\<rparr>) = page_ok s"
  by (simp_all add: page_ok_def)

lemma page_ok_steps:
  assumes "page_ok s"
  shows "page_ok (dp_tick c s)" "page_ok (serve i sv s)" "page_ok (deliver_status g i s)" "page_ok (lose_status i s)" "page_ok (ask_status c ip s)"
  using assms
  by (auto simp: dp_tick_def ask_status_def serve_def deliver_status_def lose_status_def Let_def split: option.split flight.split)

lemma page_ok_open: "page_ok (open_page c)"
  by (simp add: open_page_def ask_status_def page_ok_def)

lemma page_ok_press: "page_ok s \<Longrightarrow> page_ok (snd (snd (press sent u c b (sv, s))))"
  by (cases b) (auto simp: page_ok_steps split: sum.split)

lemma page_ok_dist: "page_ok (snd x) \<Longrightarrow> page_ok (snd (dist_step sent c e x))"
  by (cases x; cases e) (auto simp: page_ok_steps page_ok_press)

interpretation distribution: invariant_machine "\<lambda>x. snd x = open_page c" "\<lambda>_ _. True" "dist_step sent c" "\<lambda>x. page_ok (snd x)"
  for sent c
  by unfold_locales (simp_all add: page_ok_open page_ok_dist)

lemma dist_reach_ok: "dist_reach sent c (sv, s) \<Longrightarrow> page_ok s"
  using distribution.inv_reach [of c sent "(sv, s)"] by (simp add: dist_reach_def)

lemma page_ok_settle: "settle_step b sv x y \<Longrightarrow> page_ok (snd x) \<Longrightarrow> page_ok (snd y)"
  by (induction rule: settle_step.induct) (auto simp: page_ok_steps)

lemma page_ok_settles: "(settle_step b sv)\<^sup>*\<^sup>* x y \<Longrightarrow> page_ok (snd x) \<Longrightarrow> page_ok (snd y)"
  by (induction rule: rtranclp_induct) (auto dest: page_ok_settle)

section \<open>Polling stops\<close>

text \<open>The measure: losses left, answers that still say running, the interval, and the work left in that phase.\<close>

definition is_out :: "flight \<Rightarrow> bool" where
  "is_out f = (case f of Out _ \<Rightarrow> True | Back _ _ \<Rightarrow> False)"

definition says_running :: "flight \<Rightarrow> bool" where
  "says_running f = (case f of Out _ \<Rightarrow> False | Back _ st \<Rightarrow> st = st_running)"

definition outs :: "dpage \<Rightarrow> nat" where "outs s = length (filter is_out (dp_wait s))"
definition stale :: "dpage \<Rightarrow> nat" where "stale s = length (filter says_running (dp_wait s))"

definition work_left :: "nat \<Rightarrow> dpage \<Rightarrow> nat" where
  "work_left b s = outs s + (if dp_timer s then 2 * (b - length (dp_wait s)) else length (dp_wait s))"

definition settle_rel :: "nat \<Rightarrow> ((nat \<times> dpage) \<times> nat \<times> dpage) set" where
  "settle_rel b = measures [fst, \<lambda>x. stale (snd x), \<lambda>x. of_bool (dp_timer (snd x)), \<lambda>x. work_left b (snd x)]"

lemma wf_settle_rel: "wf (settle_rel b)"
  by (simp add: settle_rel_def)

lemma filter_drop_nth:
  "i < length xs \<Longrightarrow> length (filter p xs) = length (filter p (drop_nth i xs)) + (if p (xs ! i) then 1 else 0)"
  by (subst id_take_nth_drop [of i xs], assumption, unfold drop_nth_def filter_append length_append) simp

lemma length_drop_nth: "i < length xs \<Longrightarrow> length xs = Suc (length (drop_nth i xs))"
  by (simp add: drop_nth_def)

lemma filter_set_nth:
  "i < length xs \<Longrightarrow> length (filter p (xs[i := x])) + (if p (xs ! i) then 1 else 0) = length (filter p xs) + (if p x then 1 else 0)"
proof (induction xs arbitrary: i)
  case (Cons y ys)
  show ?case
  proof (cases i)
    case (Suc j)
    then show ?thesis using Cons.IH [of j] Cons.prems by (auto split: if_splits)
  qed simp
qed simp

lemma settle_decreases:
  assumes "settle_step b sv x y" "get_status sv \<noteq> st_running" "page_ok (snd x)"
  shows "(y, x) \<in> settle_rel b"
  using assms
proof (induction rule: settle_step.induct)
  case (settle_tick s n)
  then show ?case
    by (simp add: settle_rel_def dp_tick_def ask_status_def stale_def work_left_def outs_def is_out_def says_running_def)
next
  case (settle_serve i s ip n)
  then show ?case
    using filter_set_nth [of i "dp_wait s" is_out "Back ip (get_status sv)"] filter_set_nth [of i "dp_wait s" says_running "Back ip (get_status sv)"]
    by (simp add: settle_rel_def serve_def stale_def work_left_def outs_def is_out_def says_running_def)
next
  case (settle_deliver i s ip st n g)
  note len = length_drop_nth [OF settle_deliver(1)]
    and outs = filter_drop_nth [OF settle_deliver(1), of is_out]
    and stales = filter_drop_nth [OF settle_deliver(1), of says_running]
  show ?case
    using settle_deliver len outs stales
    by (auto simp: settle_rel_def deliver_status_def set_task_def stale_def work_left_def outs_def is_out_def says_running_def page_ok_def Let_def)
next
  case (settle_lose i s n)
  then show ?case by (simp add: settle_rel_def)
qed

lemma stuck_quiet:
  assumes "\<nexists>y. settle_step (Suc b) sv (n, s) y"
  shows "dp_wait s = []" "\<not> dp_timer s"
proof -
  show *: "dp_wait s = []"
  proof (cases "dp_wait s")
    case (Cons f w)
    then have "0 < length (dp_wait s)" "dp_wait s ! 0 = f" by simp_all
    then show ?thesis using assms settle_serve [of 0 s] settle_deliver [of 0 s] by (cases f) blast+
  qed simp
  show "\<not> dp_timer s" using assms settle_tick [of s "Suc b"] * by auto
qed

text \<open>With every answer lost there is no end: the interval goes on asking.\<close>

lemma polling_without_answers:
  assumes "dp_timer s" "dp_wait s = []"
  shows "lose_status 0 (dp_tick False s) = s"
  using assms by (simp add: lose_status_def dp_tick_def ask_status_def drop_nth_def)

lemma reaches_stuck:
  assumes "wf {(y, x). r\<^sup>*\<^sup>* a x \<and> r x y}" "r\<^sup>*\<^sup>* a x"
  shows "\<exists>y. r\<^sup>*\<^sup>* a y \<and> (\<nexists>z. r y z)"
  using assms
proof (induction x rule: wf_induct_rule)
  case (less x)
  show ?case
  proof (cases "\<exists>z. r x z")
    case True
    then obtain z where "r x z" ..
    then show ?thesis using less.IH [of z] less.prems by (auto intro: rtranclp.rtrancl_into_rtrancl)
  qed (use less.prems in blast)
qed

text \<open>C12: once the task of the server has ended, and is not started again nor touched by a button, the page of that
  server stops asking, provided that there are never more than a fixed number of requests outstanding (any number,
  but not zero) and that at most a fixed number of requests is lost: then every run of ticks, answers and losses is
  finite, whatever the order of the answers and however late old ones say running; and where nothing more can happen
  no request is outstanding, there is no interval, and the page no longer shows a running task. Without a bound on
  the losses the page asks for ever (\<^theory_text>\<open>polling_without_answers\<close>).\<close>

theorem polling_stops:
  assumes "dist_reach sent False (sv, s)" "get_status sv \<noteq> st_running"
  shows "wf {(y, x). (settle_step (Suc b) sv)\<^sup>*\<^sup>* (n, s) x \<and> settle_step (Suc b) sv x y}
     \<and> (\<forall>n' s'. (settle_step (Suc b) sv)\<^sup>*\<^sup>* (n, s) (n', s') \<and> (\<nexists>y. settle_step (Suc b) sv (n', s') y)
          \<longrightarrow> dp_wait s' = [] \<and> \<not> dp_timer s' \<and> dp_task s' \<noteq> Some st_running)"
proof (intro conjI allI impI)
  have "page_ok (snd x)" if "(settle_step (Suc b) sv)\<^sup>*\<^sup>* (n, s) x" for x
    using page_ok_settles [OF that] dist_reach_ok [OF assms(1)] by simp
  then show "wf {(y, x). (settle_step (Suc b) sv)\<^sup>*\<^sup>* (n, s) x \<and> settle_step (Suc b) sv x y}"
    by (intro wf_subset [OF wf_settle_rel [of "Suc b"]]) (use settle_decreases assms(2) in blast)
next
  fix n' s'
  assume run: "(settle_step (Suc b) sv)\<^sup>*\<^sup>* (n, s) (n', s') \<and> (\<nexists>y. settle_step (Suc b) sv (n', s') y)"
  then have "page_ok s'" using page_ok_settles [of "Suc b" sv "(n, s)" "(n', s')"] dist_reach_ok [OF assms(1)] by simp
  moreover have "dp_wait s' = []" "\<not> dp_timer s'" using run stuck_quiet by blast+
  ultimately show "dp_wait s' = []" "\<not> dp_timer s'" "dp_task s' \<noteq> Some st_running"
    by (simp_all add: page_ok_def)
qed

section \<open>Buttons\<close>

text \<open>The button for what is missing names device 0: while the task runs the server always refuses it.\<close>

lemma retry_missing_refused:
  assumes "st_status t = st_running" "0 \<notin> fst ` set (st_devs t)"
  shows "press sent u c (Press_retry 0) (Some t, s) = (Inl D_not_waiting, Some t, s)"
  using assms map_of_eq_None_iff [of "st_devs t" 0] by (simp add: retry_device_def)

lemma drift_idle: "drift x y \<Longrightarrow> \<not> dp_timer (snd x) \<Longrightarrow> dp_wait (snd x) = [] \<Longrightarrow> snd y = snd x"
  by (induction rule: drift.induct) (simp_all add: serve_def deliver_status_def lose_status_def nth_opt_def drop_nth_def)

text \<open>When a finished task is sent again to the devices that miss it, the server runs it anew and the page says
  so, but never looks again: whatever the server and the network do from then on, the page keeps showing the
  old status, until the administrator does something else.\<close>

theorem retry_goes_unseen:
  assumes "dp_wait s = []" "\<not> dp_timer s" "st_status t \<noteq> st_running" "\<not> st_open t"
  shows "press sent True False (Press_retry 0) (Some t, s) = (Inr [Toast_ok], Some (t\<lparr>st_status := st_running, st_open := True\<rparr>), s)
     \<and> (\<forall>sv' s'. drift\<^sup>*\<^sup>* (Some (t\<lparr>st_status := st_running, st_open := True\<rparr>), s) (sv', s') \<longrightarrow> s' = s)"
proof (intro conjI allI impI)
  show "press sent True False (Press_retry 0) (Some t, s) = (Inr [Toast_ok], Some (t\<lparr>st_status := st_running, st_open := True\<rparr>), s)"
    using assms by (simp add: retry_device_def)
next
  fix sv' s'
  have "snd y = s" if "drift\<^sup>*\<^sup>* x y" "snd x = s" for x y
    using that
  proof (induction rule: rtranclp_induct)
    case (step y z)
    then show ?case using drift_idle [OF step(2)] assms(1,2) by simp
  qed
  then show "s' = s" if "drift\<^sup>*\<^sup>* (Some (t\<lparr>st_status := st_running, st_open := True\<rparr>), s) (sv', s')"
    using that by fastforce
qed

text \<open>A late answer brings back the task that was put away.\<close>

lemma reset_undone:
  assumes "dp_wait s = [Back ip st_completed]" "dp_task s = Some st_completed" "\<not> is_running sv"
  shows "dp_task (deliver_status g 0 (snd (snd (press sent u c Press_reset (sv, s))))) = Some st_completed
     \<and> fst (snd (press sent u c Press_reset (sv, s))) = None"
  using assms by (simp add: reset_task_def deliver_status_def set_task_def nth_opt_def Let_def st_completed_def js_eq)

section \<open>Units\<close>

lemma unit_index_bounds:
  assumes "1024 = d" "0 < n"
  shows "d ^ unit_index k n \<le> n" "unit_index k n < k \<Longrightarrow> n < d ^ Suc (unit_index k n)"
proof -
  have step: "unit_index (Suc k) n = (if n < d then 0 else Suc (unit_index k (n div d)))" for k n
    by (simp add: assms(1) [symmetric])
  have d: "0 < d" using assms(1) by simp
  have "d ^ unit_index k n \<le> n \<and> (unit_index k n < k \<longrightarrow> n < d ^ Suc (unit_index k n))"
    using assms(2)
  proof (induction k arbitrary: n)
    case (Suc k)
    show ?case
    proof (cases "n < d")
      case False
      then have "0 < n div d" using d by (simp add: div_greater_zero_iff)
      then have ih: "d ^ unit_index k (n div d) \<le> n div d" "unit_index k (n div d) < k \<Longrightarrow> n div d < d ^ Suc (unit_index k (n div d))"
        using Suc.IH by auto
      have "d ^ Suc (unit_index k (n div d)) \<le> n"
        using le_trans [OF mult_le_mono2 [OF ih(1), of d] times_div_less_eq_dividend] by simp
      moreover have "n < d ^ Suc (Suc (unit_index k (n div d)))" if "unit_index k (n div d) < k"
        using ih(2) [OF that] d by (simp add: div_less_iff_less_mult mult.commute)
      ultimately show ?thesis unfolding step using False by simp
    qed (use Suc.prems in \<open>unfold step, simp\<close>)
  qed simp
  then show "d ^ unit_index k n \<le> n" "unit_index k n < k \<Longrightarrow> n < d ^ Suc (unit_index k n)" by auto
qed

section \<open>Witnesses\<close>

definition demo_task :: srv_task where
  "demo_task = \<lparr>st_status = st_running, st_open = True, st_devs = [(1, st_completed), (2, js ''failed'')]\<rparr>"

text \<open>Two questions are under way, the first already answered, when the task ends.\<close>

definition demo_watch :: "server \<times> dpage" where
  "demo_watch = run (dist_step (\<lambda>_. True) False)
     [Ev_serve 0, Ev_deliver [] 0, Ev_tick, Ev_serve 0, Ev_tick, Ev_ends True] (Some demo_task, open_page False)"

definition demo_done :: server where
  "demo_done = Some \<lparr>st_status = st_completed, st_open = False, st_devs = [(1, st_completed), (2, js ''failed'')]\<rparr>"

definition demo_watched :: dpage where
  "demo_watched = \<lparr>dp_task = Some st_running, dp_timer = True, dp_tick_ip = [], dp_ip = [], dp_wait = [Back [] st_running, Out []]\<rparr>"

lemma demo_watch_page: "demo_watch = (demo_done, demo_watched)"
  by (simp add: demo_watch_def demo_task_def demo_watched_def demo_done_def open_page_def ask_status_def serve_def deliver_status_def nth_opt_def
      set_task_def drop_nth_def dp_tick_def run_ends_def get_status_def Let_def)

lemma demo_watch_reach: "dist_reach (\<lambda>_. True) False (demo_done, demo_watched)"
  unfolding demo_watch_page [symmetric] dist_reach_def demo_watch_def by (rule reach_runI) simp_all

lemma polling_stops_witness:
  "\<exists>n' s'. (settle_step 6 demo_done)\<^sup>*\<^sup>* (3, demo_watched) (n', s') \<and> dp_wait s' = [] \<and> dp_task s' \<noteq> Some st_running"
proof -
  have "get_status demo_done \<noteq> st_running"
    by (simp add: demo_done_def get_status_def st_running_def st_completed_def js_eq)
  note stop = polling_stops [OF demo_watch_reach this, of 5 3]
  obtain n' s' where run: "(settle_step 6 demo_done)\<^sup>*\<^sup>* (3, demo_watched) (n', s')" "\<nexists>z. settle_step 6 demo_done (n', s') z"
    using reaches_stuck [of "settle_step 6 demo_done" "(3, demo_watched)" "(3, demo_watched)"] stop by auto
  then have "dp_wait s' = [] \<and> \<not> dp_timer s' \<and> dp_task s' \<noteq> Some st_running" using stop by simp
  then show ?thesis using run(1) by blast
qed

lemma retry_goes_unseen_witness:
  "press (\<lambda>_. True) True False (Press_retry 0) (demo_done, demo_watched\<lparr>dp_task := Some st_completed, dp_timer := False, dp_wait := []\<rparr>)
   = (Inr [Toast_ok], Some \<lparr>st_status = st_running, st_open = True, st_devs = [(1, st_completed), (2, js ''failed'')]\<rparr>,
      demo_watched\<lparr>dp_task := Some st_completed, dp_timer := False, dp_wait := []\<rparr>)"
  using retry_goes_unseen [of "demo_watched\<lparr>dp_task := Some st_completed, dp_timer := False, dp_wait := []\<rparr>" "the demo_done" "\<lambda>_. True"]
  by (simp add: demo_done_def st_running_def st_completed_def js_eq)

end
