(* ===== verification/Page_Views.thy ===== *)
theory Page_Views
  imports Overview Distribute_Page
begin

text \<open>
  The tables of the pages: what the cells of a row say, which buttons a row offers, and the single requests
  those buttons send. Markup and styles are left out. Sources: \<^verbatim>\<open>components/fleet.tsx\<close>,
  \<^verbatim>\<open>components/targets.tsx\<close>, \<^verbatim>\<open>components/snapshots.tsx\<close>, \<^verbatim>\<open>components/shell.tsx\<close> and the pages
  \<^verbatim>\<open>rooms\<close>, \<^verbatim>\<open>commands\<close>, \<^verbatim>\<open>checkin\<close>, \<^verbatim>\<open>power\<close>, \<^verbatim>\<open>distribute\<close>, \<^verbatim>\<open>dashboard\<close>, \<^verbatim>\<open>screen\<close>.
\<close>

section \<open>Devices\<close>

definition t_online :: "bool \<Rightarrow> jstr" where
  "t_online b = (if b then [0x5728, 0x7EBF] else [0x79BB, 0x7EBF])"

definition dot :: jstr where "dot = [0x20, 0xB7, 0x20]"

definition num_cell :: "int \<Rightarrow> jstr" where
  "num_cell i = js ''#'' @ int_str i"

definition student_cell :: "device \<Rightarrow> jstr" where
  "student_cell d = str_or (student_name d) dash"

text \<open>A row of the table over all rooms: the box, and the texts; \<open>manage\<close>: the page offers to enter a room.\<close>

record fleet_row =
  fr_key :: jstr
  fr_checked :: bool
  fr_cells :: "jstr list"
  fr_enter :: bool

definition fleet_row_of :: "jstr list \<Rightarrow> bool \<Rightarrow> fleet_device \<Rightarrow> fleet_row" where
  "fleet_row_of fleet manage f = (let d = fd_device f in
     \<lparr>fr_key = fd_key f, fr_checked = fd_key f \<in> set fleet,
      fr_cells = [fd_room_name f @ js '' '' @ num_cell (assigned_id d), hostname d, student_cell d, checkin_label (checkin_status d), t_online (connected d)],
      fr_enter = manage\<rparr>)"

definition t_chosen :: "jstr list \<Rightarrow> jstr" where
  "t_chosen fleet = [0x5DF2, 0x9009, 0x0020] @ nat_digits (length fleet) @ [0x0020, 0x53F0]"

text \<open>The picker of a room: the two modes and a row.\<close>

definition mode_texts :: "device list \<Rightarrow> int list \<Rightarrow> jstr \<times> jstr" where
  "mode_texts devs picked = ([0x5168, 0x90E8, 0x5728, 0x7EBF] @ dot @ nat_digits (length (filter connected devs)), [0x6307, 0x5B9A, 0x8BBE, 0x5907] @ dot @ nat_digits (length picked))"

definition t_unnamed :: jstr where "t_unnamed = [0x672A, 0x547D, 0x540D]"

definition picker_row :: "pick_mode \<Rightarrow> int list \<Rightarrow> device \<Rightarrow> bool option \<times> jstr list" where
  "picker_row mode picked d = (if mode = M_picked then Some (assigned_id d \<in> set picked) else None,
     [num_cell (assigned_id d), str_or (Some (hostname d)) t_unnamed, str_or (student_name d) (checkin_label (checkin_status d)), t_online (connected d)])"

definition checkin_tone :: "int \<Rightarrow> tone" where
  "checkin_tone st = (if st = 1 then T_ok else if st = 2 then T_warn else T_muted)"

definition checkin_cells :: "device \<Rightarrow> jstr list" where
  "checkin_cells d = [num_cell (assigned_id d), hostname d, student_cell d, str_or (student_num d) dash, checkin_label (checkin_status d)]"

section \<open>Rooms\<close>

definition room_online :: "room \<Rightarrow> nat" where
  "room_online r = length (filter connected (devices r))"

definition t_relay :: "bool \<Rightarrow> jstr" where
  "t_relay b = (if b then [0x4E2D, 0x8F6C, 0x5728, 0x7EBF] else [0x4E2D, 0x8F6C, 0x79BB, 0x7EBF])"

definition t_last_report :: jstr where "t_last_report = [0x6700, 0x540E, 0x4E0A, 0x62A5, 0x0020]"

definition room_card :: "(jstr option \<Rightarrow> jstr) \<Rightarrow> jstr option \<Rightarrow> jstr option \<Rightarrow> room \<Rightarrow> jstr list" where
  "room_card ago seen transfer r = [rm_name r, t_relay (online r), nat_digits (room_online r), js '' / '' @ nat_digits (length (devices r)),
     t_last_report @ ago seen @ (case transfer of Some p \<Rightarrow> if p = [] then [] else dot @ p | None \<Rightarrow> [])]"

definition room_option :: "room \<Rightarrow> jstr \<times> jstr" where
  "room_option r = (room_id r, rm_name r @ (if online r then [] else [0x0020, 0x00B7, 0x0020, 0x79BB, 0x7EBF]))"

section \<open>Commands\<close>

definition run_total :: "nat \<Rightarrow> nat \<Rightarrow> jstr" where
  "run_total n finished = (if n = 0 then [0x7B49, 0x5F85, 0x6267, 0x884C] else nat_digits finished @ js '' / '' @ nat_digits n @ [0x0020, 0x7ED3, 0x675F])"

fun last_line :: "jstr \<Rightarrow> jstr \<Rightarrow> jstr" where
  "last_line acc [] = rev acc"
| "last_line acc (c # cs) = (if c = 10 then last_line [] cs else last_line (c # acc) cs)"

definition millis :: "int \<Rightarrow> jstr" where
  "millis n = (if n \<noteq> 0 then int_str n @ js '' ms'' else dash)"

definition run_cells :: "cmd_row \<Rightarrow> jstr list" where
  "run_cells r = [num_cell (rw_device r), status_label (Some (rw_status r)), str_or (Some (last_line [] (trim (rw_output r)))) dash, millis (rw_duration r)]"

text \<open>A click on a row opens or closes it; an open row may still be stopped.\<close>

definition toggle_active :: "int \<Rightarrow> int option \<Rightarrow> int option" where
  "toggle_active i active = (if active = Some i then None else Some i)"

definition can_cancel :: "cmd_row \<Rightarrow> bool" where
  "can_cancel r \<longleftrightarrow> rw_status r = js ''running'' \<or> rw_status r = js ''dispatched''"

definition cancel_request :: "cmd_row \<Rightarrow> http" where
  "cancel_request r = http_send ''POST'' (js ''/api/commands/'' @ int_str (rw_command r) @ js ''/cancel'') No_body"

definition t_wait_output :: jstr where "t_wait_output = [0x7B49, 0x5F85, 0x8F93, 0x51FA]"

definition full_output :: "cmd_row \<Rightarrow> jstr" where
  "full_output r = str_or (Some (rw_output r)) t_wait_output"

definition t_clear_history :: jstr where "t_clear_history = [0x6E05, 0x7A7A, 0x5168, 0x90E8, 0x547D, 0x4EE4, 0x5386, 0x53F2, 0xFF1F]"

definition clear_history :: "unit script" where
  "clear_history = sc_bind (sc_ask t_clear_history) (\<lambda>ok. if \<not> ok then sc_ret ()
     else sc_then (sc_send (http_send ''POST'' (js ''/api/commands/clear'') No_body))
       (sc_quiet (sc_bind (sc_send (http_get (js ''/api/commands?limit=30''))) (\<lambda>v. sc_do (E_set ''history'' v)))))"

definition open_command :: "int \<Rightarrow> unit script" where
  "open_command i = sc_bind (sc_send (http_get (js ''/api/commands/'' @ int_str i))) (\<lambda>v. sc_do (E_set ''detail'' v))"

text \<open>The history; a column for the room is there when any command has one.\<close>

definition with_rooms :: "(jstr option \<times> command_log) list \<Rightarrow> bool" where
  "with_rooms h = list_ex (\<lambda>(r, _). str_or r [] \<noteq> []) h"

definition history_head :: "(jstr option \<times> command_log) list \<Rightarrow> jstr list" where
  "history_head h = [[0x65F6, 0x95F4]] @ (if with_rooms h then [[0x673A, 0x623F]] else []) @ [[0x76EE, 0x6807], [0x547D, 0x4EE4], [0x72B6, 0x6001], [0x8017, 0x65F6]]"

definition history_cells :: "(jstr option \<times> command_log) list \<Rightarrow> jstr option \<times> command_log \<Rightarrow> jstr list" where
  "history_cells h x = (case x of (r, c) \<Rightarrow> [cl_created_at c] @ (if with_rooms h then [str_or r []] else [])
     @ [history_target c, cl_command c, status_label (Some (cl_status c)), millis (cl_duration_ms c)])"

definition t_no_output :: jstr where "t_no_output = [0x6CA1, 0x6709, 0x6C47, 0x603B, 0x8F93, 0x51FA]"

definition detail_output :: "command_log \<Rightarrow> jstr" where
  "detail_output c = str_or (Some (cl_output c)) (str_or (Some (cl_error_output c)) t_no_output)"

definition child_cells :: "command_log \<Rightarrow> jstr list" where
  "child_cells c = [js ''#'' @ (case cl_target_id c of Some i \<Rightarrow> int_str i | None \<Rightarrow> []), status_label (Some (cl_status c)),
     str_or (Some (cl_output c)) (cl_error_output c)]"

definition detail_rows :: "command_log \<Rightarrow> jstr list list" where
  "detail_rows c = (case cl_children c of None \<Rightarrow> [] | Some cs \<Rightarrow> map child_cells cs)"

text \<open>The latest commands on the dashboard, of all rooms and of one.\<close>

definition recent_cells :: "(jstr \<Rightarrow> jint) \<Rightarrow> int \<Rightarrow> jstr \<times> command_log \<Rightarrow> jstr list" where
  "recent_cells date now x = (case x of (r, c) \<Rightarrow> [r, cl_command c, status_label (Some (cl_status c)), time_ago date now (Some (cl_created_at c))])"

definition room_recent_cells :: "(jstr \<Rightarrow> jint) \<Rightarrow> int \<Rightarrow> command_log \<Rightarrow> jstr list" where
  "room_recent_cells date now c = [time_ago date now (Some (cl_created_at c)), dashboard_target c, cl_command c, status_label (Some (cl_status c))]"

section \<open>Jobs of the cloud\<close>

record shown_job =
  sj_id :: jstr
  sj_room :: jstr
  sj_status :: jstr
  sj_response :: jstr
  sj_created_at :: jstr

definition jobs_shown :: "shown_job list \<Rightarrow> shown_job list" where
  "jobs_shown = take 30"

definition job_cells :: "shown_job \<Rightarrow> jstr list" where
  "job_cells j = [sj_created_at j, take 8 (sj_room j), sj_status j, sj_response j]"

definition can_withdraw :: "shown_job \<Rightarrow> bool" where
  "can_withdraw j \<longleftrightarrow> sj_status j = js ''queued''"

definition load_jobs :: "unit script" where
  "load_jobs = sc_bind (sc_send (http_get (js ''/api/cluster/jobs''))) (\<lambda>v. sc_do (E_set ''jobs'' v))"

definition withdraw_job :: "shown_job \<Rightarrow> unit script" where
  "withdraw_job j = sc_then (sc_send (http_send ''DELETE'' (js ''/api/cluster/jobs/'' @ sj_id j) No_body)) load_jobs"

section \<open>Schedules, files, snapshots\<close>

record schedule =
  sd_id :: int
  sd_action :: jstr
  sd_run_at :: jstr
  sd_type :: jstr
  sd_ids :: "int list option"
  sd_note :: jstr
  sd_status :: jstr

definition schedule_cells :: "schedule \<Rightarrow> jstr list" where
  "schedule_cells s = [sd_run_at s, sd_action s,
     (if sd_type s = js ''all'' then [0x5168, 0x90E8] else join (js '' '') (map num_cell (case sd_ids s of None \<Rightarrow> [] | Some is \<Rightarrow> is))),
     sd_status s @ (if sd_note s = [] then [] else dot @ sd_note s)]"

definition drop_schedule :: "bool \<Rightarrow> schedule \<Rightarrow> unit script" where
  "drop_schedule all_rooms s = sc_then (sc_send (http_send ''DELETE'' (js ''/api/power/schedules/'' @ int_str (sd_id s)) No_body))
     (if all_rooms then sc_ret () else sc_quiet (sc_bind (sc_send (http_get (js ''/api/power/schedules''))) (\<lambda>v. sc_do (E_set ''schedules'' v))))"

definition file_cells :: "jstr \<times> int \<times> jstr \<Rightarrow> jstr list" where
  "file_cells f = (case f of (name, bytes, time) \<Rightarrow> [name, format_bytes (Some bytes), time])"

definition op_kinds :: "(jstr \<times> jstr) list" where
  "op_kinds = [(js ''command'', [0x547D, 0x4EE4]), (js ''distribute'', [0x5206, 0x53D1]), (js ''wol'', [0x5524, 0x9192]), (js ''schedule'', [0x7535, 0x6E90, 0x8BA1, 0x5212]), (js ''broadcast'', [0x5E7F, 0x64AD])]"

definition op_kind :: "jstr \<Rightarrow> jstr" where
  "op_kind k = (case map_of op_kinds k of Some l \<Rightarrow> l | None \<Rightarrow> k)"

definition scope_note :: "jstr \<Rightarrow> jstr" where
  "scope_note scope = (if scope = js ''cloud'' then [0x4E91, 0x7AEF, 0x961F, 0x5217] else [0x672C, 0x673A, 0x623F, 0x961F, 0x5217]) @ [0x0020, 0x00B7, 0x0020, 0x53EA, 0x8BB0, 0x5F55, 0x5BF9, 0x5168, 0x4F53, 0x76EE, 0x6807, 0x7684, 0x64CD, 0x4F5C, 0xFF0C, 0x4E4B, 0x540E, 0x4E0A, 0x7EBF, 0x7684, 0x8BBE, 0x5907, 0x4F1A, 0x8865, 0x6267, 0x884C]"

section \<open>Screens\<close>

text \<open>The address in the image: set when the component appears and in its effect; on an iPhone or iPad again at
  every tick of 400 ms, \<open>now\<close> being its time.\<close>

definition first_frame :: "jstr \<Rightarrow> int \<Rightarrow> bool \<Rightarrow> int \<Rightarrow> jstr option" where
  "first_frame room i ios now = stream_url room i ios now"

definition frame_tick :: "jstr \<Rightarrow> int \<Rightarrow> bool \<Rightarrow> int \<Rightarrow> jstr option \<Rightarrow> jstr option" where
  "frame_tick room i ios now src = (if ios then stream_url room i True now else src)"

definition frame_sources :: "jstr \<Rightarrow> int \<Rightarrow> bool \<Rightarrow> int \<Rightarrow> nat \<Rightarrow> jstr option list" where
  "frame_sources room i ios now n = first_frame room i ios now #
     (if ios then map (\<lambda>k. stream_url room i True (now + 400 * int (Suc k))) [0..<n] else [stream_url room i False now])"

definition screens :: "bool \<Rightarrow> device list \<Rightarrow> (int \<times> bool) list" where
  "screens enabled devs = map (\<lambda>d. (assigned_id d, enabled)) (filter connected devs)"

definition screen_toggle :: "bool \<Rightarrow> unit script" where
  "screen_toggle enabled = sc_then (sc_send (http_send ''POST'' (js ''/api/settings'')
       (Json (JObj [(js ''screen_monitor_enabled'', JBool (\<not> enabled))]))))
     (sc_do (E_set ''enabled'' (JBool (\<not> enabled))))"

section \<open>What the pages load\<close>

text \<open>\<open>x || []\<close> and \<open>x || ""\<close> of a field of an answer.\<close>

definition or_json :: "json option \<Rightarrow> json \<Rightarrow> json" where
  "or_json v d = (case v of Some x \<Rightarrow> if json_truthy (Some x) then x else d | None \<Rightarrow> d)"

definition sc_get :: "string \<Rightarrow> (json \<Rightarrow> unit script) \<Rightarrow> unit script" where
  "sc_get p f = sc_bind (sc_send (http_get (js p))) f"

definition refresh_rooms :: "bool \<Rightarrow> unit script" where
  "refresh_rooms cloud = (if \<not> cloud then sc_ret ()
     else sc_get ''/api/cluster/rooms'' (\<lambda>v. sc_do (E_set ''rooms'' (or_json (Some v) (JArr [])))))"

definition t_refreshed :: jstr where "t_refreshed = [0x5DF2, 0x5237, 0x65B0]"

definition refresh_button :: "bool \<Rightarrow> unit script" where
  "refresh_button cloud = sc_catch (sc_then (refresh_rooms cloud) (sc_toast Toast_ok t_refreshed))"

definition empty_deploy :: json where
  "empty_deploy = JObj [(js ''mode'', JStr (js ''standalone'')), (js ''node_id'', JStr []), (js ''room_name'', JStr []), (js ''cloud_url'', JStr []),
     (js ''token_set'', JBool False), (js ''allow_insecure'', JBool False), (js ''device_id_start'', JInt 1), (js ''advertise_ip'', JStr [])]"

definition load_status :: "unit script" where
  "load_status = sc_quiet (sc_get ''/api/cluster/status'' (\<lambda>v.
     sc_then (sc_do (E_set ''deployment'' (or_json (jfield v ''deployment'') empty_deploy)))
       (sc_do (E_set ''connection'' (or_json (jfield v ''connection'') (JStr []))))))"

definition load_dashboard :: "bool \<Rightarrow> unit script" where
  "load_dashboard all_rooms = (if all_rooms then sc_ret () else sc_catch (sc_get ''/api/stats'' (\<lambda>v. sc_do (E_set ''stats'' v))))"

definition load_devices :: "bool \<Rightarrow> unit script" where
  "load_devices all_rooms = (if all_rooms then sc_ret ()
     else (\<lambda>\<omega>. case sc_get ''/api/devices'' (\<lambda>v. sc_do (E_set ''devices'' v)) \<omega> of
       (l, Inl e) \<Rightarrow> (l @ [E_text ''error'' e], Inr ()) | (l, Inr x) \<Rightarrow> (l, Inr x)))"

definition load_schedules :: "bool \<Rightarrow> unit script" where
  "load_schedules all_rooms = (if all_rooms then sc_ret () else sc_quiet (sc_get ''/api/power/schedules'' (\<lambda>v. sc_do (E_set ''schedules'' v))))"

definition load_rules :: "unit script" where
  "load_rules = sc_catch (sc_get ''/api/network/rules'' (\<lambda>v. sc_do (E_set ''rules'' (or_json (Some v) (JArr [])))))"

definition load_screen :: "unit script" where
  "load_screen = sc_quiet (sc_get ''/api/settings'' (\<lambda>v. sc_do (E_set ''enabled'' (JBool (json_truthy (jfield v ''screen_monitor_enabled''))))))"

section \<open>Theme\<close>

definition toggle_theme :: "bool \<times> jstr option \<Rightarrow> bool \<times> jstr option" where
  "toggle_theme s = (\<not> fst s, Some (if fst s then js ''light'' else js ''dark''))"

section \<open>Lemmas\<close>

text \<open>Every row of the history has a cell for every column.\<close>

lemma history_columns: "x \<in> set h \<Longrightarrow> length (history_cells h x) = length (history_head h)"
  by (cases x) (simp add: history_cells_def history_head_def)

text \<open>The summary of a row is one line.\<close>

lemma last_line_one: "10 \<notin> set acc \<Longrightarrow> 10 \<notin> set (last_line acc cs)"
  by (induction acc cs rule: last_line.induct) auto

lemma last_line_suffix: "10 \<notin> set b \<Longrightarrow> last_line acc (a @ 10 # b) = b"
proof (induction a arbitrary: acc)
  case Nil
  have "last_line acc b = rev acc @ b" for acc
    using Nil by (induction b arbitrary: acc) auto
  then show ?case by simp
qed simp

text \<open>A row can be stopped only while it has no result, and rows that are done count as such.\<close>

lemma can_cancel_not_done: "can_cancel r \<Longrightarrow> rw_status r \<noteq> js ''completed'' \<and> rw_status r \<noteq> js ''failed''"
  by (auto simp: can_cancel_def js_eq)

text \<open>Every counter of the overview is at most the number of devices beside it.\<close>

lemma room_online_le: "room_online r \<le> length (devices r)"
  by (simp add: room_online_def)

text \<open>Pictures are asked for online devices only, and only while they are taken.\<close>

lemma screens_online: "(i, True) \<in> set (screens enabled devs) \<Longrightarrow> enabled \<and> (\<exists>d\<in>set devs. connected d \<and> assigned_id d = i)"
  by (auto simp: screens_def)

text \<open>A page that loads for one room asks nothing while all rooms are shown, and one that loads quietly never fails.\<close>

lemma loads_of_a_room: "sends (load_dashboard True) \<omega> = []" "sends (load_devices True) \<omega> = []" "sends (load_schedules True) \<omega> = []"
  by (simp_all add: load_dashboard_def load_devices_def load_schedules_def)

lemma loads_never_fail: "snd (load_status \<omega>) = Inr ()" "snd (load_devices a \<omega>) = Inr ()" "snd (load_schedules a \<omega>) = Inr ()"
  "snd (load_screen \<omega>) = Inr ()"
  by (simp_all add: load_status_def load_devices_def load_schedules_def load_screen_def sc_quiet_def sc_ret_def split: prod.split sum.split)

lemma toggle_theme_twice: "fst (toggle_theme (toggle_theme s)) = fst s"
  by (simp add: toggle_theme_def)

end
