(* ===== verification/Broadcast_Edit.thy ===== *)
theory Broadcast_Edit
  imports Ops_Pages Display_Carousel Display_Render
begin

text \<open>
  The broadcast editor, \<^verbatim>\<open>frontend/src/pages/broadcast.tsx\<close>: loading pages and keeping the selected
  one, changing their order, dragging and resizing an element on the stage, the fields of the inspector,
  and handing the result out, to chosen rooms in the cloud or to the machines of the local room.
  Lengths and positions are percentages, exact rationals here.
\<close>

section \<open>State\<close>

datatype bmode = B_before | B_contesting | B_after

fun bmode_id :: "bmode \<Rightarrow> jstr" where
  "bmode_id B_before = js ''before''"
| "bmode_id B_contesting = js ''contesting''"
| "bmode_id B_after = js ''after''"

record editor =
  be_mode :: bmode
  be_pages :: "broadcast_page list"
  be_page :: "int option"
  be_item :: "int option"
  be_targets :: "jstr list"
  be_dirty :: bool

definition editor_init :: "jstr \<Rightarrow> editor" where
  "editor_init room = \<lparr>be_mode = B_before, be_pages = [], be_page = None, be_item = None,
     be_targets = (if room = [] then [] else [room]), be_dirty = False\<rparr>"

text \<open>The first answer of \<open>load(keep)\<close>; the later ones only bring fonts and configuration, and the end
  of \<open>load\<close> clears the mark of unsaved changes.\<close>

definition load_pages :: "int option \<Rightarrow> broadcast_page list option \<Rightarrow> editor \<Rightarrow> editor" where
  "load_pages keep data s =
     (let ps = (case data of None \<Rightarrow> [] | Some ps \<Rightarrow> ps) in
      s\<lparr>be_pages := ps, be_page := (case keep of
          Some k \<Rightarrow> if k \<in> page_id ` set ps then Some k else (case ps of [] \<Rightarrow> None | p # _ \<Rightarrow> Some (page_id p))
        | None \<Rightarrow> (case ps of [] \<Rightarrow> None | p # _ \<Rightarrow> Some (page_id p)))\<rparr>)"

definition load_done :: "editor \<Rightarrow> editor" where
  "load_done s = s\<lparr>be_dirty := False\<rparr>"

definition cur_page :: "editor \<Rightarrow> broadcast_page option" where
  "cur_page s = (case be_page s of None \<Rightarrow> None | Some i \<Rightarrow> find_first (\<lambda>p. page_id p = i) (be_pages s))"

definition cur_item :: "editor \<Rightarrow> broadcast_item option" where
  "cur_item s = (case (cur_page s, be_item s) of
     (Some p, Some i) \<Rightarrow> (case items p of None \<Rightarrow> None | Some its \<Rightarrow> find_first (\<lambda>it. item_id it = i) its)
   | _ \<Rightarrow> None)"

text \<open>The mode buttons; \<open>ok\<close> is the answer to the question about unsaved changes.\<close>

definition switch_mode :: "bool \<Rightarrow> bmode \<Rightarrow> editor \<Rightarrow> editor" where
  "switch_mode ok m s = (if \<not> be_dirty s \<or> ok then s\<lparr>be_dirty := False, be_item := None, be_mode := m\<rparr> else s)"

definition toggle_target :: "jstr \<Rightarrow> editor \<Rightarrow> editor" where
  "toggle_target r s = s\<lparr>be_targets := toggle_pick r (be_targets s)\<rparr>"

section \<open>Order\<close>

text \<open>\<open>copy.splice(index, 1)\<close> and \<open>copy.splice(next, 0, row)\<close> for indices within the list.\<close>

definition splice_move :: "nat \<Rightarrow> nat \<Rightarrow> 'a list \<Rightarrow> 'a list" where
  "splice_move i j xs = (let rest = take i xs @ drop (Suc i) xs in take j rest @ [xs ! i] @ drop j rest)"

definition move_page :: "nat \<Rightarrow> int \<Rightarrow> editor \<Rightarrow> broadcast_page list option" where
  "move_page i delta s =
     (let j = int i + delta in
      if j < 0 \<or> int (length (be_pages s)) \<le> j then None else Some (splice_move i (nat j) (be_pages s)))"

definition reorder_request :: "broadcast_page list \<Rightarrow> http" where
  "reorder_request ps = http_send ''PUT'' (js ''/api/broadcast/pages/reorder'')
     (Json (JArr (map (\<lambda>(n, p). JObj [(js ''id'', JInt (page_id p)), (js ''sort_order'', JInt (int n))]) (enumerate 0 ps))))"

definition move_script :: "nat \<Rightarrow> int \<Rightarrow> editor \<Rightarrow> json script" where
  "move_script i delta s = (case move_page i delta s of None \<Rightarrow> sc_ret JNull | Some ps \<Rightarrow> sc_send (reorder_request ps))"

section \<open>The stage\<close>

record box =
  bx_x :: rat
  bx_y :: rat
  bx_w :: rat
  bx_h :: rat

definition js_round :: "rat \<Rightarrow> int" where
  "js_round v = \<lfloor>v + 1 / 2\<rfloor>"

definition clamp :: "rat \<Rightarrow> rat" where
  "clamp v = max 0 (min 96 (of_int (js_round (v * 100)) / 100))"

text \<open>The pointer handler of a drag that started at \<open>(x0, y0)\<close> on a stage of the given size in pixels.\<close>

definition drag_to :: "bool \<Rightarrow> rat \<Rightarrow> rat \<Rightarrow> rat \<times> rat \<Rightarrow> box \<Rightarrow> rat \<times> rat \<Rightarrow> box" where
  "drag_to resize width height p0 start p =
     (let dx = (fst p - fst p0) / width * 100; dy = (snd p - snd p0) / height * 100 in
      if resize then start\<lparr>bx_w := max 4 (bx_w start + dx), bx_h := max 4 (bx_h start + dy)\<rparr>
      else start\<lparr>bx_x := clamp (bx_x start + dx), bx_y := clamp (bx_y start + dy)\<rparr>)"

text \<open>A whole gesture: the handler runs for every move and once more when the pointer is released; the last
  box is committed.\<close>

definition latest_box :: "bool \<Rightarrow> rat \<Rightarrow> rat \<Rightarrow> rat \<times> rat \<Rightarrow> box \<Rightarrow> (rat \<times> rat) list \<Rightarrow> box" where
  "latest_box resize width height p0 start ps = fold (\<lambda>p _. drag_to resize width height p0 start p) ps start"

definition set_item_box :: "box \<Rightarrow> broadcast_item \<Rightarrow> broadcast_item" where
  "set_item_box b it = it\<lparr>pos_x := bx_x b, pos_y := bx_y b, item_width := bx_w b, item_height := bx_h b\<rparr>"

definition commit_box :: "int \<Rightarrow> box \<Rightarrow> editor \<Rightarrow> editor" where
  "commit_box i b s = s\<lparr>be_pages := map (\<lambda>p.
     if Some (page_id p) \<noteq> map_option page_id (cur_page s) then p
     else p\<lparr>items := map_option (map (\<lambda>it. if item_id it = i then set_item_box b it else it)) (items p)\<rparr>) (be_pages s)\<rparr>"

section \<open>The inspector\<close>

text \<open>\<open>(Number(value) || 10) * 1000\<close> and the seconds shown; an infinite value is stored as \<open>null\<close>.\<close>

definition duration_input :: "jstr \<Rightarrow> jsnum" where
  "duration_input v = (let n = js_number v in
     case (if num_truthy n then n else Fin 10) of Fin r \<Rightarrow> Fin (r * 1000) | x \<Rightarrow> x)"

definition shown_seconds :: "broadcast_page \<Rightarrow> int" where
  "shown_seconds p = js_round (of_int (if duration_ms p \<noteq> 0 then duration_ms p else 10000) / 1000)"

definition to_color :: "jstr \<Rightarrow> jstr" where
  "to_color v = (if length v = 7 \<and> hd v = 35 \<and> (\<forall>c\<in>set (tl v). hex_digit c \<noteq> None) then v else js ''#ffffff'')"

definition stage_font :: "broadcast_item \<Rightarrow> jsnum" where
  "stage_font it = (let n = js_number (font_size it) in if num_truthy n then n else Fin 4)"

definition t_countdown :: jstr where "t_countdown = [0x5012, 0x8BA1, 0x65F6]"

definition item_label :: "broadcast_item \<Rightarrow> jstr" where
  "item_label it = (if item_type it = js ''clock'' then js ''00:00:00''
     else if item_type it = js ''countdown'' then t_countdown
     else if content it \<noteq> [] then content it else item_type it)"

text \<open>\<open>toLocal\<close>: the local date and time of an instant, for an input field.\<close>

definition to_local :: "(jstr \<Rightarrow> jint) \<Rightarrow> (int \<Rightarrow> int \<times> nat \<times> nat \<times> nat \<times> nat) \<Rightarrow> jstr \<Rightarrow> jstr" where
  "to_local date parts s =
     (if s = [] then []
      else case date s of
        None \<Rightarrow> []
      | Some t \<Rightarrow> (case parts t of (y, mo, d, h, mi) \<Rightarrow>
          int_str y @ js ''-'' @ pad2 mo @ js ''-'' @ pad2 d @ js ''T'' @ pad2 h @ js '':'' @ pad2 mi))"

section \<open>Handing out\<close>

datatype publish_action = Pub_sync | Pub_start | Pub_stop | Pub_reset

fun publish_id :: "publish_action \<Rightarrow> jstr" where
  "publish_id Pub_sync = js ''sync''"
| "publish_id Pub_start = js ''start''"
| "publish_id Pub_stop = js ''stop''"
| "publish_id Pub_reset = js ''reset''"

fun publish_label :: "publish_action \<Rightarrow> jstr" where
  "publish_label Pub_sync = [0x540C, 0x6B65, 0x5185, 0x5BB9, 0x548C, 0x7D20, 0x6750]"
| "publish_label Pub_start = [0x540C, 0x6B65, 0x5E76, 0x63A8, 0x9001]"
| "publish_label Pub_stop = [0x5173, 0x95ED, 0x5E7F, 0x64AD]"
| "publish_label Pub_reset = [0x590D, 0x4F4D, 0x8F6E, 0x64AD]"

definition t_save_first :: jstr where "t_save_first = [0x5148, 0x4FDD, 0x5B58, 0x5F53, 0x524D, 0x4FEE, 0x6539]"
definition t_pick_rooms :: jstr where "t_pick_rooms = [0x8BF7, 0x9009, 0x62E9, 0x8981, 0x53D1, 0x5E03, 0x5230, 0x7684, 0x673A, 0x623F]"
definition t_opened :: jstr where "t_opened = [0x5DF2, 0x8BA9, 0x5728, 0x7EBF, 0x673A, 0x5668, 0x6253, 0x5F00, 0x5E7F, 0x64AD]"
definition t_closed :: jstr where "t_closed = [0x5DF2, 0x5173, 0x95ED]"

definition t_publish :: "nat \<Rightarrow> publish_action \<Rightarrow> jstr" where
  "t_publish n a = [0x5BF9, 0x0020] @ nat_digits n @ [0x0020, 0x4E2A, 0x673A, 0x623F] @ publish_label a @ [0xFF1F, 0x7D20, 0x6750, 0x82E5, 0x672A, 0x53D8, 0x5316, 0xFF0C, 0x673A, 0x623F, 0x4E0D, 0x4F1A, 0x91CD, 0x65B0, 0x4E0B, 0x8F7D, 0x3002]"

definition t_revision :: "jstr \<Rightarrow> jstr" where
  "t_revision r = [0x7248, 0x672C, 0x0020] @ r @ [0x0020, 0x5DF2, 0x5165, 0x961F]"

definition publish :: "publish_action \<Rightarrow> editor \<Rightarrow> unit script" where
  "publish a s =
     (if be_dirty s then sc_toast Toast_bad t_save_first
      else if be_targets s = [] then sc_toast Toast_bad t_pick_rooms
      else sc_bind (sc_ask (t_publish (length (be_targets s)) a)) (\<lambda>ok.
        if \<not> ok then sc_ret ()
        else sc_bind (sc_send (http_send ''POST'' (js ''/api/cluster/broadcast'')
              (Json (JObj [(js ''room_ids'', JArr (map JStr (be_targets s))), (js ''action'', JStr (publish_id a)),
                 (js ''mode'', JStr (bmode_id (be_mode s)))]))))
            (\<lambda>v. sc_toast Toast_ok (t_revision (num_text (jfield v ''revision''))))))"

definition strip_slash :: "jstr \<Rightarrow> jstr" where
  "strip_slash s = (if s \<noteq> [] \<and> last s = 47 then butlast s else s)"

definition config_put :: "(string \<times> jstr) list \<Rightarrow> http" where
  "config_put fs = http_send ''PUT'' (js ''/api/broadcast/config'') (Json (JObj (map (\<lambda>(k, v). (js k, JStr v)) fs)))"

definition broadcast_command :: "jstr \<Rightarrow> http" where
  "broadcast_command cmd = http_send ''POST'' (js ''/api/commands'')
     (Json (JObj [(js ''target_type'', JStr (js ''broadcast'')), (js ''command'', JStr cmd)]))"

definition local_push :: "bool \<Rightarrow> jstr option \<Rightarrow> bmode \<Rightarrow> unit script" where
  "local_push start base_cfg m =
     (if start then
        sc_then (sc_send (config_put [(''sync_reset'', bmode_id m), (''pushed_state'', bmode_id m)]))
          (let base = strip_slash (str_or base_cfg (js ''http://icpc-server.local:8082'')) in
           sc_then (sc_send (broadcast_command (js ''full-firefox kill; full-firefox '' @ [39] @ base @ js ''/broadcast/'' @ bmode_id m @ [39])))
             (sc_toast Toast_ok t_opened))
      else
        sc_then (sc_send (config_put [(''pushed_state'', [])]))
          (sc_then (sc_send (broadcast_command (js ''full-firefox kill''))) (sc_toast Toast_ok t_closed)))"

section \<open>Lemmas\<close>

lemma splice_move_mset:
  assumes "i < length xs" "j < length xs"
  shows "mset (splice_move i j xs) = mset xs" "length (splice_move i j xs) = length xs"
proof -
  let ?rest = "take i xs @ drop (Suc i) xs"
  have "mset (splice_move i j xs) = mset (take j ?rest) + {#xs ! i#} + mset (drop j ?rest)"
    by (simp add: splice_move_def Let_def)
  also have "\<dots> = mset ?rest + {#xs ! i#}" by (metis (no_types, lifting) add.assoc add.commute append_take_drop_id mset_append)
  also have "\<dots> = mset (take i xs @ xs ! i # drop (Suc i) xs)" by simp
  also have "\<dots> = mset xs" using assms(1) by (simp add: id_take_nth_drop [symmetric])
  finally show m: "mset (splice_move i j xs) = mset xs" .
  show "length (splice_move i j xs) = length xs" by (metis m size_mset)
qed

lemma splice_up: "splice_move (length as + 1) (length as) (as @ a # b # bs) = as @ b # a # bs"
  by (simp add: splice_move_def nth_append)

lemma splice_down: "splice_move (length as) (length as + 1) (as @ a # b # bs) = as @ b # a # bs"
  by (simp add: splice_move_def nth_append)

lemma clamp_range: "0 \<le> clamp v \<and> clamp v \<le> 96"
  by (simp add: clamp_def)

lemma latest_last: "ps \<noteq> [] \<Longrightarrow> latest_box resize width height p0 start ps = drag_to resize width height p0 start (last ps)"
  unfolding latest_box_def by (induction ps rule: rev_induct) auto

section \<open>Properties\<close>

text \<open>The arrow buttons exchange a page with its neighbour and leave the others where they are; the first
  page cannot move up nor the last one down; and the request numbers the pages from zero in their new order.\<close>

theorem move_exchanges_neighbours:
  assumes "be_pages s = as @ a # b # bs"
  shows "move_page (length as) 1 s = Some (as @ b # a # bs) \<and> move_page (length as + 1) (- 1) s = Some (as @ b # a # bs)
     \<and> move_page 0 (- 1) s = None \<and> move_page (length (be_pages s) - 1) 1 s = None
     \<and> sends (move_script (length as) 1 s) \<omega> = [reorder_request (as @ b # a # bs)]"
proof -
  have "nat (int (length as) + 1) = length as + 1" by simp
  then have m: "move_page (length as) 1 s = Some (as @ b # a # bs)"
    using splice_down [of as a b bs] by (simp add: move_page_def assms)
  moreover have "move_page (length as + 1) (- 1) s = Some (as @ b # a # bs)"
    using splice_up [of as a b bs] by (simp add: move_page_def assms)
  ultimately show ?thesis by (simp add: move_page_def move_script_def assms)
qed

text \<open>An element dragged on the stage keeps its size and ends with its corner between 0 and 96 percent in
  both directions; one that is resized keeps its corner and is never smaller than 4 percent; and what is
  committed depends only on where the pointer was pressed and released, not on the way.\<close>

theorem drag_stays_on_stage:
  "latest_box resize width height p0 start (moves @ [release]) = drag_to resize width height p0 start release
   \<and> (let b = drag_to resize width height p0 start release in
        if resize then 4 \<le> bx_w b \<and> 4 \<le> bx_h b \<and> bx_x b = bx_x start \<and> bx_y b = bx_y start
        else 0 \<le> bx_x b \<and> bx_x b \<le> 96 \<and> 0 \<le> bx_y b \<and> bx_y b \<le> 96 \<and> bx_w b = bx_w start \<and> bx_h b = bx_h start)"
  using clamp_range by (simp add: latest_last drag_to_def Let_def)

text \<open>Nothing is published while changes are unsaved, without a room, or against the operator; what is
  published names the chosen rooms and the mode being edited.\<close>

theorem publish_guarded:
  "sends (publish a s) \<omega> = (if \<not> be_dirty s \<and> be_targets s \<noteq> [] \<and> agrees \<omega> (t_publish (length (be_targets s)) a)
     then [http_send ''POST'' (js ''/api/cluster/broadcast'')
       (Json (JObj [(js ''room_ids'', JArr (map JStr (be_targets s))), (js ''action'', JStr (publish_id a)),
          (js ''mode'', JStr (bmode_id (be_mode s)))]))] else [])"
  by (simp add: publish_def sends_send_bind split: sum.splits)

text \<open>A stay in whole seconds is stored in milliseconds as entered, ten seconds for zero; a negative number
  of seconds is stored too, and the displays and the server do not treat it alike.\<close>

lemma duration_input_signed: "duration_input (int_str n) = Fin (if n = 0 then 10000 else of_int n * 1000)"
  by (simp add: duration_input_def js_number_int num_truthy_def)

section \<open>Witnesses\<close>

lemma move_exchanges_neighbours_witness:
  "move_page 0 1 (load_pages None (Some [demo_page 1 5, demo_page 2 5]) (editor_init [])) = Some [demo_page 2 5, demo_page 1 5]"
  using move_exchanges_neighbours [of "load_pages None (Some [demo_page 1 5, demo_page 2 5]) (editor_init [])" "[]" "demo_page 1 5" "demo_page 2 5" "[]"]
  by (simp add: load_pages_def)

end
