(* ===== verification/Broadcast_Items.thy ===== *)
theory Broadcast_Items
  imports Broadcast_Edit
begin

text \<open>
  The rest of the broadcast editor, \<^verbatim>\<open>frontend/src/pages/broadcast.tsx\<close>: the draft of an element in the
  inspector beside the pages the editor holds, the requests that create, change and delete pages and
  elements, and uploads. What the server stores is modelled for an element, after \<^verbatim>\<open>UpdateItem\<close> and
  \<^verbatim>\<open>UpdateItemPositionAndSize\<close> of \<^verbatim>\<open>internal/data/broadcast_repo.go\<close>.
\<close>

section \<open>Bodies\<close>

definition item_json :: "broadcast_item \<Rightarrow> json" where
  "item_json it = JObj
     [(js ''id'', JInt (item_id it)), (js ''page_id'', JInt (item_page_id it)), (js ''item_type'', JStr (item_type it)),
      (js ''content'', JStr (content it)), (js ''pos_x'', JNum (pos_x it)), (js ''pos_y'', JNum (pos_y it)),
      (js ''width'', JNum (item_width it)), (js ''height'', JNum (item_height it)), (js ''font_size'', JStr (font_size it)),
      (js ''font_color'', JStr (font_color it)), (js ''font_weight'', JStr (font_weight it)), (js ''text_align'', JStr (text_align it)),
      (js ''bg_color'', JStr (item_bg_color it)), (js ''border_radius'', JStr (border_radius it)), (js ''animation'', JStr (animation it)),
      (js ''z_index'', JInt (z_index it)), (js ''extra_json'', JStr (extra_json it))]"

definition page_json_fields :: "broadcast_page \<Rightarrow> (jstr \<times> json) list" where
  "page_json_fields p = [(js ''id'', JInt (page_id p)), (js ''mode'', JStr (page_mode p)), (js ''title'', JStr (page_title p)),
      (js ''sort_order'', JInt (sort_order p)), (js ''duration_ms'', JInt (duration_ms p)), (js ''bg_color'', JStr (page_bg_color p)),
      (js ''transition'', JStr (transition p))]
     @ (case items p of None \<Rightarrow> [] | Some its \<Rightarrow> [(js ''items'', JArr (map item_json its))])"

text \<open>\<open>{ ...page, k: v }\<close>: a field that is there keeps its place.\<close>

definition with_field :: "string \<Rightarrow> json \<Rightarrow> (jstr \<times> json) list \<Rightarrow> (jstr \<times> json) list" where
  "with_field k v fs = (if js k \<in> fst ` set fs then map (\<lambda>(k', v'). (k', if k' = js k then v else v')) fs else fs @ [(js k, v)])"

text \<open>What the handlers decode; a number of an integer field must be whole.\<close>

definition go_num :: "json option \<Rightarrow> rat option" where
  "go_num v = (case v of None \<Rightarrow> Some 0 | Some JNull \<Rightarrow> Some 0 | Some (JNum r) \<Rightarrow> Some r | _ \<Rightarrow> None)"

definition go_whole :: "json option \<Rightarrow> int option" where
  "go_whole v = (case v of None \<Rightarrow> Some 0 | Some x \<Rightarrow> go_int x)"

definition decode_item :: "json \<Rightarrow> broadcast_item option" where
  "decode_item v =
     (let f = jfield v in
      Option.bind (go_whole (f ''id'')) (\<lambda>i. Option.bind (go_whole (f ''page_id'')) (\<lambda>p.
      Option.bind (go_str (f ''item_type'')) (\<lambda>t. Option.bind (go_str (f ''content'')) (\<lambda>c.
      Option.bind (go_num (f ''pos_x'')) (\<lambda>x. Option.bind (go_num (f ''pos_y'')) (\<lambda>y.
      Option.bind (go_num (f ''width'')) (\<lambda>w. Option.bind (go_num (f ''height'')) (\<lambda>h.
      Option.bind (go_str (f ''font_size'')) (\<lambda>fs. Option.bind (go_str (f ''font_color'')) (\<lambda>fc.
      Option.bind (go_str (f ''font_weight'')) (\<lambda>fw. Option.bind (go_str (f ''text_align'')) (\<lambda>a.
      Option.bind (go_str (f ''bg_color'')) (\<lambda>b. Option.bind (go_str (f ''border_radius'')) (\<lambda>br.
      Option.bind (go_str (f ''animation'')) (\<lambda>an. Option.bind (go_whole (f ''z_index'')) (\<lambda>z.
      Option.bind (go_str (f ''extra_json'')) (\<lambda>e.
        Some \<lparr>item_id = i, item_page_id = p, item_type = t, content = c, pos_x = x, pos_y = y, item_width = w, item_height = h,
          font_size = fs, font_color = fc, font_weight = fw, text_align = a, item_bg_color = b, border_radius = br, animation = an,
          z_index = z, extra_json = e\<rparr>))))))))))))))))))"

section \<open>The stored element\<close>

definition update_item :: "broadcast_item \<Rightarrow> broadcast_item \<Rightarrow> broadcast_item" where
  "update_item it old = it\<lparr>item_id := item_id old, item_page_id := item_page_id old, item_type := item_type old\<rparr>"

text \<open>\<open>UpdateItemPositionAndSize\<close> sets the box, as the page does with its own copy: \<^term>\<open>set_item_box\<close>.\<close>

section \<open>The draft\<close>

record desk =
  dk_ed :: editor
  dk_draft :: "broadcast_item option"

text \<open>The effect of the inspector: when another element is selected, it becomes the draft.\<close>

definition settle :: "editor \<Rightarrow> desk \<Rightarrow> desk" where
  "settle e s = \<lparr>dk_ed = e, dk_draft = (if map_option item_id (cur_item e) \<noteq> map_option item_id (cur_item (dk_ed s))
      then cur_item e else dk_draft s)\<rparr>"

definition select_item :: "int option \<Rightarrow> desk \<Rightarrow> desk" where
  "select_item i s = settle ((dk_ed s)\<lparr>be_item := i\<rparr>) s"

definition select_page :: "int \<Rightarrow> desk \<Rightarrow> desk" where
  "select_page i s = settle ((dk_ed s)\<lparr>be_page := Some i, be_item := None\<rparr>) s"

datatype draft_edit = Ed_content jstr | Ed_size jstr | Ed_color jstr | Ed_align jstr | Ed_weight jstr

fun apply_edit :: "draft_edit \<Rightarrow> broadcast_item \<Rightarrow> broadcast_item" where
  "apply_edit (Ed_content v) it = it\<lparr>content := v\<rparr>"
| "apply_edit (Ed_size v) it = it\<lparr>font_size := v\<rparr>"
| "apply_edit (Ed_color v) it = it\<lparr>font_color := v\<rparr>"
| "apply_edit (Ed_align v) it = it\<lparr>text_align := v\<rparr>"
| "apply_edit (Ed_weight v) it = it\<lparr>font_weight := v\<rparr>"

definition edit_draft :: "draft_edit \<Rightarrow> desk \<Rightarrow> desk" where
  "edit_draft d s = s\<lparr>dk_draft := map_option (apply_edit d) (dk_draft s), dk_ed := (dk_ed s)\<lparr>be_dirty := True\<rparr>\<rparr>"

text \<open>The end of a drag, its request answered; and \<open>load(pageID)\<close>, all its requests answered.\<close>

definition drop_item :: "int \<Rightarrow> box \<Rightarrow> desk \<Rightarrow> desk" where
  "drop_item i b s = settle (commit_box i b (dk_ed s)) s"

definition reload_pages :: "broadcast_page list \<Rightarrow> desk \<Rightarrow> desk" where
  "reload_pages ps s = settle (load_done (load_pages (be_page (dk_ed s)) (Some ps) (dk_ed s))) s"

section \<open>Requests\<close>

definition box_json :: "box \<Rightarrow> json" where
  "box_json b = JObj [(js ''pos_x'', JNum (bx_x b)), (js ''pos_y'', JNum (bx_y b)), (js ''width'', JNum (bx_w b)), (js ''height'', JNum (bx_h b))]"

definition position_request :: "int \<Rightarrow> box \<Rightarrow> http" where
  "position_request i b = http_send ''PATCH'' (js ''/api/broadcast/items/'' @ int_str i @ js ''/position'') (Json (box_json b))"

definition save_item_request :: "broadcast_item \<Rightarrow> http" where
  "save_item_request d = http_send ''PUT'' (js ''/api/broadcast/items/'' @ int_str (item_id d)) (Json (item_json d))"

definition p_pages :: jstr where "p_pages = js ''/api/broadcast/pages''"
definition p_items :: jstr where "p_items = js ''/api/broadcast/items''"
definition p_config :: jstr where "p_config = js ''/api/broadcast/config''"
definition p_fonts :: jstr where "p_fonts = js ''/api/broadcast/fonts''"

definition load_script :: "bmode \<Rightarrow> unit script" where
  "load_script m =
     sc_bind (sc_send (http_get (p_pages @ js ''?mode='' @ bmode_id m))) (\<lambda>v.
       sc_then (sc_do (E_set ''pages'' (case jfield v ''pages'' of Some x \<Rightarrow> x | None \<Rightarrow> JNull)))
         (sc_bind (sc_send (http_get p_fonts)) (\<lambda>f. sc_then (sc_do (E_set ''fonts'' f))
           (sc_bind (sc_send (http_get p_config)) (\<lambda>c. sc_then (sc_do (E_set ''config'' c)) (sc_do (E_set ''dirty'' (JBool False))))))))"

definition t_new_page :: jstr where "t_new_page = [0x65B0, 0x9875, 0x9762]"
definition t_text :: jstr where "t_text = [0x6587, 0x672C]"
definition t_notice :: jstr where "t_notice = [0x901A, 0x77E5]"
definition t_delete_page :: jstr where "t_delete_page = [0x5220, 0x9664, 0x8FD9, 0x4E2A, 0x9875, 0x9762, 0xFF1F]"
definition t_delete_item :: jstr where "t_delete_item = [0x5220, 0x9664, 0x5143, 0x7D20, 0xFF1F]"

definition new_page :: "bmode \<Rightarrow> nat \<Rightarrow> unit script" where
  "new_page m n = sc_then (sc_send (http_send ''POST'' p_pages (Json (JObj
      [(js ''mode'', JStr (bmode_id m)), (js ''title'', JStr t_new_page), (js ''sort_order'', JInt (int n)), (js ''duration_ms'', JInt 10000),
       (js ''bg_color'', JStr (js ''#000000'')), (js ''transition'', JStr (js ''fade''))])))) (load_script m)"

definition put_page :: "bmode \<Rightarrow> broadcast_page \<Rightarrow> (string \<times> json) list \<Rightarrow> unit script" where
  "put_page m p changes = sc_then (sc_send (http_send ''PUT'' (p_pages @ js ''/'' @ int_str (page_id p))
      (Json (JObj (fold (\<lambda>(k, v). with_field k v) changes (page_json_fields p)))))) (load_script m)"

definition set_title :: "bmode \<Rightarrow> broadcast_page \<Rightarrow> jstr \<Rightarrow> unit script" where
  "set_title m p v = put_page m p [(''title'', JStr v), (''duration_ms'', JInt (duration_ms p)), (''bg_color'', JStr (page_bg_color p)),
     (''transition'', JStr (js ''fade''))]"

definition set_duration :: "bmode \<Rightarrow> broadcast_page \<Rightarrow> jstr \<Rightarrow> unit script" where
  "set_duration m p v = put_page m p [(''duration_ms'', num_json (duration_input v)), (''transition'', JStr (js ''fade''))]"

definition set_background :: "bmode \<Rightarrow> broadcast_page \<Rightarrow> jstr \<Rightarrow> unit script" where
  "set_background m p v = put_page m p [(''bg_color'', JStr v), (''transition'', JStr (js ''fade''))]"

definition duplicate_page :: "bmode \<Rightarrow> broadcast_page \<Rightarrow> unit script" where
  "duplicate_page m p = sc_then (sc_send (http_send ''POST'' (p_pages @ js ''/'' @ int_str (page_id p) @ js ''/duplicate'') No_body)) (load_script m)"

definition delete_page :: "bmode \<Rightarrow> broadcast_page \<Rightarrow> unit script" where
  "delete_page m p = sc_bind (sc_ask t_delete_page) (\<lambda>ok. if \<not> ok then sc_ret ()
     else sc_then (sc_send (http_send ''DELETE'' (p_pages @ js ''/'' @ int_str (page_id p)) No_body)) (load_script m))"

definition initial_content :: "jstr \<Rightarrow> jstr" where
  "initial_content ty = (if ty = js ''text'' then t_text else if ty = js ''scrolling_notice'' then t_notice else [])"

definition item_body :: "int \<Rightarrow> jstr \<Rightarrow> jstr \<Rightarrow> json" where
  "item_body page ty c = JObj
     [(js ''page_id'', JInt page), (js ''item_type'', JStr ty), (js ''content'', JStr c), (js ''pos_x'', JInt 10), (js ''pos_y'', JInt 10),
      (js ''width'', JInt 30), (js ''height'', JInt 16), (js ''font_size'', JStr (js ''4'')), (js ''font_color'', JStr (js ''#ffffff'')),
      (js ''font_weight'', JStr (js ''500'')), (js ''text_align'', JStr (js ''center'')), (js ''bg_color'', JStr (js ''transparent'')),
      (js ''border_radius'', JStr (js ''0'')), (js ''animation'', JStr []), (js ''z_index'', JInt 10), (js ''extra_json'', JStr (js ''{}''))]"

text \<open>The picked image file, if any, is uploaded; the address of the answer.\<close>

definition pick_image :: "jstr option \<Rightarrow> jstr script" where
  "pick_image file = (case file of
     None \<Rightarrow> sc_ret []
   | Some name \<Rightarrow> sc_bind (sc_send (http_send ''POST'' (js ''/api/broadcast/images/upload'') (Form_file name)))
       (\<lambda>v. sc_ret (case jfield v ''url'' of Some (JStr u) \<Rightarrow> u | _ \<Rightarrow> [])))"

definition new_item :: "bmode \<Rightarrow> broadcast_page \<Rightarrow> jstr \<Rightarrow> jstr option \<Rightarrow> unit script" where
  "new_item m p ty file =
     (let create = (\<lambda>c. sc_then (sc_send (http_send ''POST'' p_items (Json (item_body (page_id p) ty c)))) (load_script m)) in
      if ty = js ''image'' then sc_bind (pick_image file) (\<lambda>c. if c = [] then sc_ret () else create c)
      else create (initial_content ty))"

definition save_item :: "bmode \<Rightarrow> broadcast_item \<Rightarrow> unit script" where
  "save_item m d = sc_then (sc_send (save_item_request d)) (sc_then (sc_do (E_set ''dirty'' (JBool False))) (load_script m))"

definition delete_item :: "bmode \<Rightarrow> broadcast_item \<Rightarrow> unit script" where
  "delete_item m d = sc_bind (sc_ask t_delete_item) (\<lambda>ok. if \<not> ok then sc_ret ()
     else sc_then (sc_send (http_send ''DELETE'' (p_items @ js ''/'' @ int_str (item_id d)) No_body))
       (sc_then (sc_do (E_set ''dirty'' (JBool False))) (load_script m)))"

definition choose_font :: "bmode \<Rightarrow> jstr \<Rightarrow> unit script" where
  "choose_font m v = sc_then (sc_send (config_put [(''active_font'', v)])) (load_script m)"

definition upload_font :: "bmode \<Rightarrow> jstr option \<Rightarrow> unit script" where
  "upload_font m file = (case file of None \<Rightarrow> sc_ret ()
     | Some name \<Rightarrow> sc_then (sc_send (http_send ''POST'' p_fonts (Form_file name))) (load_script m))"

definition set_countdown :: "(jstr \<Rightarrow> jstr) \<Rightarrow> jstr \<Rightarrow> unit script" where
  "set_countdown iso_of v = sc_then (sc_send (config_put [(''countdown_target'', if v = [] then [] else iso_of v)])) (sc_ret ())"

definition set_base_url :: "jstr \<Rightarrow> unit script" where
  "set_base_url v = sc_then (sc_send (config_put [(''base_url'', trim v)])) (sc_ret ())"

text \<open>The bar above the editor.\<close>

definition t_rounds_reset :: jstr where "t_rounds_reset = [0x8F6E, 0x64AD, 0x5DF2, 0x590D, 0x4F4D]"

definition local_reset :: "bmode \<Rightarrow> unit script" where
  "local_reset m = sc_then (sc_send (config_put [(''sync_reset'', bmode_id m)])) (sc_toast Toast_ok t_rounds_reset)"

definition all_targets :: "room list \<Rightarrow> editor \<Rightarrow> editor" where
  "all_targets rooms e = e\<lparr>be_targets := map room_id rooms\<rparr>"

definition saved_note :: "bool \<Rightarrow> jstr option \<Rightarrow> jstr" where
  "saved_note dirty pushed = (if dirty then [0x6709, 0x672A, 0x4FDD, 0x5B58, 0x7684, 0x4FEE, 0x6539] else [0x5DF2, 0x4FDD, 0x5B58])
     @ (case pushed of Some p \<Rightarrow> if p = [] then [] else [0x0020, 0x00B7, 0x0020, 0x5F53, 0x524D, 0x63A8, 0x9001, 0x0020] @ p | None \<Rightarrow> [])"

section \<open>Lemmas\<close>

lemma whole_field: "go_whole (Some (JInt i)) = Some i"
  by (simp add: go_whole_def go_int_def)

lemma item_fields:
  "jfield (item_json it) ''id'' = Some (JInt (item_id it))" "jfield (item_json it) ''page_id'' = Some (JInt (item_page_id it))"
  "jfield (item_json it) ''item_type'' = Some (JStr (item_type it))" "jfield (item_json it) ''content'' = Some (JStr (content it))"
  "jfield (item_json it) ''pos_x'' = Some (JNum (pos_x it))" "jfield (item_json it) ''pos_y'' = Some (JNum (pos_y it))"
  "jfield (item_json it) ''width'' = Some (JNum (item_width it))" "jfield (item_json it) ''height'' = Some (JNum (item_height it))"
  "jfield (item_json it) ''font_size'' = Some (JStr (font_size it))" "jfield (item_json it) ''font_color'' = Some (JStr (font_color it))"
  "jfield (item_json it) ''font_weight'' = Some (JStr (font_weight it))" "jfield (item_json it) ''text_align'' = Some (JStr (text_align it))"
  "jfield (item_json it) ''bg_color'' = Some (JStr (item_bg_color it))" "jfield (item_json it) ''border_radius'' = Some (JStr (border_radius it))"
  "jfield (item_json it) ''animation'' = Some (JStr (animation it))" "jfield (item_json it) ''z_index'' = Some (JInt (z_index it))"
  "jfield (item_json it) ''extra_json'' = Some (JStr (extra_json it))"
  by (simp_all add: jfield_def item_json_def js_eq)

lemma decode_item_json: "decode_item (item_json it) = Some it"
  by (simp add: decode_item_def Let_def item_fields whole_field go_str_def go_num_def)

lemma find_first_map: "(\<And>x. p (f x) = p x) \<Longrightarrow> find_first p (map f xs) = map_option f (find_first p xs)"
  by (induction xs) auto

lemma cur_page_commit:
  "cur_page (commit_box i b e) = map_option (\<lambda>p. p\<lparr>items := map_option (map (\<lambda>it. if item_id it = i then set_item_box b it else it)) (items p)\<rparr>) (cur_page e)"
proof (cases "be_page e")
  case (Some k)
  let ?f = "\<lambda>p. if Some (page_id p) \<noteq> map_option page_id (cur_page e) then p
     else p\<lparr>items := map_option (map (\<lambda>it. if item_id it = i then set_item_box b it else it)) (items p)\<rparr>"
  have "find_first (\<lambda>p. page_id p = k) (map ?f (be_pages e)) = map_option ?f (find_first (\<lambda>p. page_id p = k) (be_pages e))"
    by (rule find_first_map) simp
  then show ?thesis by (cases "find_first (\<lambda>p. page_id p = k) (be_pages e)") (simp_all add: cur_page_def commit_box_def Some)
qed (simp add: cur_page_def commit_box_def)

lemma cur_item_commit:
  assumes "cur_item e = Some it"
  shows "cur_item (commit_box (item_id it) b e) = Some (set_item_box b it)"
proof -
  obtain p k its where p: "cur_page e = Some p" "be_item e = Some k" "items p = Some its"
    "find_first (\<lambda>it. item_id it = k) its = Some it"
    using assms by (auto simp: cur_item_def split: option.splits)
  have "item_id it = k" using find_first_Some [OF p(4)] by simp
  moreover have "be_item (commit_box (item_id it) b e) = Some k" using p(2) by (simp add: commit_box_def)
  moreover have "find_first (\<lambda>it. item_id it = k) (map (\<lambda>x. if item_id x = k then set_item_box b x else x) its)
      = map_option (\<lambda>x. if item_id x = k then set_item_box b x else x) (find_first (\<lambda>it. item_id it = k) its)"
    by (rule find_first_map) (simp add: set_item_box_def)
  ultimately show ?thesis using p by (simp add: cur_item_def cur_page_commit)
qed

lemma item_id_box [simp]: "item_id (set_item_box b it) = item_id it"
  by (simp add: set_item_box_def)

lemma edit_keeps: "item_id (apply_edit d it) = item_id it" "pos_x (apply_edit d it) = pos_x it" "pos_y (apply_edit d it) = pos_y it"
  "item_width (apply_edit d it) = item_width it" "item_height (apply_edit d it) = item_height it"
  by (cases d; simp)+

lemma drop_keeps_draft:
  assumes "cur_item (dk_ed s) = Some it"
  shows "dk_draft (drop_item (item_id it) b s) = dk_draft s" "cur_item (dk_ed (drop_item (item_id it) b s)) = Some (set_item_box b it)"
  using assms cur_item_commit [OF assms, of b] by (simp_all add: drop_item_def settle_def)

text \<open>What the server stores for a request of the editor about this element: the two handlers and their routes.\<close>

definition put_item :: "json \<Rightarrow> broadcast_item \<Rightarrow> broadcast_item" where
  "put_item v old = (case decode_item v of Some it \<Rightarrow> update_item it old | None \<Rightarrow> old)"

definition patch_item :: "json \<Rightarrow> broadcast_item \<Rightarrow> broadcast_item" where
  "patch_item v old = (case (go_num (jfield v ''pos_x''), go_num (jfield v ''pos_y''), go_num (jfield v ''width''), go_num (jfield v ''height'')) of
     (Some x, Some y, Some w, Some g) \<Rightarrow> old\<lparr>pos_x := x, pos_y := y, item_width := w, item_height := g\<rparr>
   | _ \<Rightarrow> old)"

definition store_step :: "http \<Rightarrow> broadcast_item \<Rightarrow> broadcast_item" where
  "store_step h old = (case rq_body h of
     Json v \<Rightarrow> (if rq_method h = js ''PUT'' then put_item v old else if rq_method h = js ''PATCH'' then patch_item v old else old)
   | _ \<Rightarrow> old)"

lemma store_position: "store_step (position_request i b) old = set_item_box b old"
  by (simp add: store_step_def patch_item_def position_request_def http_send_def box_json_def jfield_def go_num_def set_item_box_def js_eq)

lemma store_save: "store_step (save_item_request d) old = update_item d old"
  by (simp add: store_step_def put_item_def save_item_request_def http_send_def decode_item_json)

lemma request_json_save: "request_json (save_item_request d) = item_json d"
  by (simp add: request_json_def save_item_request_def http_send_def)

text \<open>The mark of unsaved changes plays no part in what is shown.\<close>

lemma cur_item_dirty: "cur_item (e\<lparr>be_dirty := b\<rparr>) = cur_item e"
  by (simp add: cur_item_def cur_page_def cong: option.case_cong)

lemma reload_same: "load_done (load_pages k ps (e\<lparr>be_dirty := b\<rparr>)) = load_done (load_pages k ps e)"
  by (simp add: load_done_def load_pages_def Let_def)

lemma publish_sends:
  "\<not> be_dirty e \<Longrightarrow> be_targets e \<noteq> [] \<Longrightarrow> \<forall>t. agrees \<omega> t \<Longrightarrow> sends (publish a e) \<omega> \<noteq> []"
  by (simp add: publish_def sends_send_bind)

lemma publish_dirty: "be_dirty e \<Longrightarrow> sends (publish a e) \<omega> = []"
  by (simp add: publish_def)

lemma reloaded: "be_dirty (load_done (load_pages k ps e)) = False" "be_targets (load_done (load_pages k ps e)) = be_targets e"
  by (simp_all add: load_done_def load_pages_def Let_def)

section \<open>Properties\<close>

text \<open>What is saved is what the inspector shows: the request of the save button decodes to the draft, and
  the server's element then has every presentation field of the draft, while its page and type stay.\<close>

theorem item_save_roundtrip:
  "decode_item (request_json (save_item_request d)) = Some d
   \<and> store_step (save_item_request d) old = d\<lparr>item_id := item_id old, item_page_id := item_page_id old, item_type := item_type old\<rparr>"
  by (simp add: store_save update_item_def request_json_save decode_item_json)

text \<open>The draft keeps the position the element had when it was selected: after the selected element has been
  moved on the stage, which the server stores at once, saving any change of the draft moves it back.\<close>

theorem save_reverts_move:
  assumes "cur_item (dk_ed s) = Some it" "dk_draft s = Some it"
  shows "\<exists>d. dk_draft (edit_draft e (drop_item (item_id it) b s)) = Some d
     \<and> cur_item (dk_ed (drop_item (item_id it) b s)) = Some (set_item_box b it)
     \<and> (let stored = store_step (save_item_request d) (store_step (position_request (item_id it) b) it) in
          pos_x stored = pos_x it \<and> pos_y stored = pos_y it \<and> item_width stored = item_width it \<and> item_height stored = item_height it)"
  using drop_keeps_draft [OF assms(1), of b] assms(2)
  by (simp add: edit_draft_def store_save update_item_def edit_keeps Let_def)

text \<open>Any change of the page while an element is being edited marks everything as saved: after the pages are
  loaded again the draft is still there and was never sent, but publishing is no longer refused.\<close>

theorem reload_hides_unsaved:
  assumes "dk_draft s = Some d" "cur_item (dk_ed s) = Some it" "cur_item (dk_ed (reload_pages ps s)) = Some it'" "item_id it' = item_id it"
    and "be_targets (dk_ed s) \<noteq> []" "\<forall>t. agrees \<omega> t"
  shows "dk_draft (reload_pages ps (edit_draft e s)) = Some (apply_edit e d) \<and> be_dirty (dk_ed (edit_draft e s))
     \<and> sends (publish a (dk_ed (edit_draft e s))) \<omega> = []
     \<and> sends (publish a (dk_ed (reload_pages ps (edit_draft e s)))) \<omega> \<noteq> []"
  using assms cur_item_dirty by (simp add: reload_same reloaded publish_dirty edit_draft_def settle_def publish_sends reload_pages_def)

section \<open>Witnesses\<close>

definition demo_item :: broadcast_item where
  "demo_item = \<lparr>item_id = 5, item_page_id = 1, item_type = js ''text'', content = js ''hi'', pos_x = 10, pos_y = 10, item_width = 30,
     item_height = 16, font_size = js ''4'', font_color = js ''#ffffff'', font_weight = js ''500'', text_align = js ''center'',
     item_bg_color = js ''transparent'', border_radius = js ''0'', animation = [], z_index = 10, extra_json = js ''{}''\<rparr>"

definition demo_desk :: desk where
  "demo_desk = select_item (Some 5) \<lparr>dk_ed = load_pages None (Some [(demo_page 1 5)\<lparr>items := Some [demo_item]\<rparr>]) (editor_init (js ''r'')), dk_draft = None\<rparr>"

lemma demo_desk_item: "cur_item (dk_ed demo_desk) = Some demo_item" "dk_draft demo_desk = Some demo_item"
  by (simp_all add: demo_desk_def select_item_def settle_def cur_item_def cur_page_def load_pages_def editor_init_def demo_page_def demo_item_def)

lemma save_reverts_move_witness:
  "\<exists>d. dk_draft (edit_draft (Ed_content (js ''ho'')) (drop_item 5 \<lparr>bx_x = 50, bx_y = 40, bx_w = 30, bx_h = 16\<rparr> demo_desk)) = Some d
     \<and> pos_x (store_step (save_item_request d) (store_step (position_request 5 \<lparr>bx_x = 50, bx_y = 40, bx_w = 30, bx_h = 16\<rparr>) demo_item)) = 10"
  using save_reverts_move [OF demo_desk_item, of "Ed_content (js ''ho'')" "\<lparr>bx_x = 50, bx_y = 40, bx_w = 30, bx_h = 16\<rparr>"]
  by (auto simp: demo_item_def Let_def)

lemma reload_hides_unsaved_witness:
  "be_dirty (dk_ed (edit_draft (Ed_content []) demo_desk))
   \<and> sends (publish Pub_start (dk_ed (reload_pages [(demo_page 1 7)\<lparr>items := Some [demo_item]\<rparr>] (edit_draft (Ed_content []) demo_desk)))) yes_world \<noteq> []"
proof -
  have "cur_item (dk_ed (reload_pages [(demo_page 1 7)\<lparr>items := Some [demo_item]\<rparr>] demo_desk)) = Some demo_item"
    by (simp add: demo_desk_def reload_pages_def select_item_def settle_def cur_item_def cur_page_def load_done_def load_pages_def
        editor_init_def demo_page_def demo_item_def)
  moreover have "be_targets (dk_ed demo_desk) \<noteq> []"
    by (simp add: demo_desk_def select_item_def settle_def load_pages_def editor_init_def js_def)
  ultimately show ?thesis using reload_hides_unsaved [OF demo_desk_item(2,1), of "[(demo_page 1 7)\<lparr>items := Some [demo_item]\<rparr>]" demo_item yes_world "Ed_content []" Pub_start]
    by (simp add: yes_world_def)
qed

end
