(* ===== verification/Stage_View.thy ===== *)
theory Stage_View
  imports Broadcast_Items
begin

text \<open>
  The stage of the broadcast editor (\<open>Stage\<close> and \<open>CanvasItem\<close> of
  \<^verbatim>\<open>pages/broadcast.tsx\<close>): what it draws for an element, compared with what \<^verbatim>\<open>display.js\<close> draws, and
  one element over time, with the box that follows the pointer, the requests that store it and the pages
  that are loaded again. What it shows: when no pointer is down and nothing is under way, the stage draws
  the stored element as the displays do, as long as requests succeed and are answered in order; a drop that
  fails stays on the stage; a click is a drop; sizes with a unit, alignments, animations and clocks differ.
\<close>

section \<open>What the stage draws\<close>

datatype stage_child = Stage_image jstr | Stage_text jstr

record stage_elem =
  sv_style :: "string \<Rightarrow> css option"
  sv_font :: jsnum \<comment> \<open>in percent of the height of the stage\<close>
  sv_child :: stage_child
  sv_text :: "string \<Rightarrow> css option" \<comment> \<open>what the classes of the box of a text set\<close>
  sv_active :: bool \<comment> \<open>the outline, and the handle that resizes\<close>

definition stage_style :: "box \<Rightarrow> broadcast_item \<Rightarrow> string \<Rightarrow> css option" where
  "stage_style b it =
     (let s = [''left'' \<mapsto> Pct (bx_x b), ''top'' \<mapsto> Pct (bx_y b), ''width'' \<mapsto> Pct (bx_w b), ''height'' \<mapsto> Pct (bx_h b),
               ''color'' \<mapsto> Txt (font_color it), ''fontWeight'' \<mapsto> Txt (font_weight it),
               ''borderRadius'' \<mapsto> Txt (border_radius it), ''zIndex'' \<mapsto> Num (z_index it)]
      in if item_bg_color it = js ''transparent'' then s else s(''background'' \<mapsto> Txt (item_bg_color it)))"

text \<open>The classes \<^verbatim>\<open>flex items-center justify-center whitespace-pre-wrap text-center\<close>; a picture has none of them.\<close>

definition text_classes :: "string \<Rightarrow> css option" where
  "text_classes = [''display'' \<mapsto> Txt (js ''flex''), ''alignItems'' \<mapsto> Txt (js ''center''), ''justifyContent'' \<mapsto> Txt (js ''center''),
     ''whiteSpace'' \<mapsto> Txt (js ''pre-wrap''), ''textAlign'' \<mapsto> Txt (js ''center'')]"

definition canvas_item :: "bool \<Rightarrow> box \<Rightarrow> broadcast_item \<Rightarrow> stage_elem" where
  "canvas_item active b it =
     (let pic = item_type it = js ''image'' \<and> content it \<noteq> [] in
      \<lparr>sv_style = stage_style b it, sv_font = stage_font it,
       sv_child = (if pic then Stage_image (content it) else Stage_text (item_label it)),
       sv_text = (if pic then Map.empty else text_classes), sv_active = active\<rparr>)"

definition box_of :: "broadcast_item \<Rightarrow> box" where
  "box_of it = \<lparr>bx_x = pos_x it, bx_y = pos_y it, bx_w = item_width it, bx_h = item_height it\<rparr>"

definition stage_background :: "broadcast_page \<Rightarrow> jstr" where
  "stage_background p = str_or (Some (page_bg_color p)) (js ''#000'')"

text \<open>The stage of a page whose elements have just been mounted.\<close>

definition stage_items :: "int option \<Rightarrow> broadcast_page \<Rightarrow> stage_elem list" where
  "stage_items selected p =
     map (\<lambda>it. canvas_item (Some (item_id it) = selected) (box_of it) it) (case items p of Some its \<Rightarrow> its | None \<Rightarrow> [])"

section \<open>What is seen\<close>

text \<open>The look of an element: its box and font size in percent of the page, its colours, what it holds, how the text
  is placed and wrapped, and the font family and animation set for it. A percentage of the stage's height is
  \<open>cqh\<close>, of the screen's \<open>vh\<close>; an absent property and an empty one are the same. The look leaves
  out the padding of a text on the stage, the line height (1.2 on a display, the console's on the stage) and the font
  family an element inherits where none is set.\<close>

datatype held = Picture jstr | Words jstr

record look =
  lk_box :: box
  lk_font :: jsnum
  lk_color :: jstr
  lk_weight :: jstr
  lk_back :: jstr
  lk_radius :: jstr
  lk_level :: int
  lk_held :: held
  lk_layout :: "jstr list"

definition layout_props :: "string list" where
  "layout_props = [''display'', ''alignItems'', ''justifyContent'', ''whiteSpace'', ''textAlign'', ''fontFamily'', ''animation'']"

definition css_pct :: "css option \<Rightarrow> rat" where
  "css_pct c = (case c of Some (Pct r) \<Rightarrow> r | _ \<Rightarrow> 0)"
definition css_txt :: "css option \<Rightarrow> jstr" where
  "css_txt c = (case c of Some (Txt t) \<Rightarrow> t | _ \<Rightarrow> [])"
definition css_num :: "css option \<Rightarrow> int" where
  "css_num c = (case c of Some (Num n) \<Rightarrow> n | _ \<Rightarrow> 0)"
definition css_height :: "css option \<Rightarrow> jsnum" where
  "css_height c = (case c of Some (Vh v) \<Rightarrow> v | _ \<Rightarrow> NaN)"

definition layout_of :: "(string \<Rightarrow> css option) \<Rightarrow> jstr list" where
  "layout_of s = map (\<lambda>k. css_txt (s k)) layout_props"

definition css_look :: "(string \<Rightarrow> css option) \<Rightarrow> jsnum \<Rightarrow> string \<Rightarrow> held \<Rightarrow> jstr list \<Rightarrow> look" where
  "css_look s font back h l = \<lparr>lk_box = \<lparr>bx_x = css_pct (s ''left''), bx_y = css_pct (s ''top''), bx_w = css_pct (s ''width''),
     bx_h = css_pct (s ''height'')\<rparr>, lk_font = font, lk_color = css_txt (s ''color''), lk_weight = css_txt (s ''fontWeight''),
     lk_back = css_txt (s back), lk_radius = css_txt (s ''borderRadius''), lk_level = css_num (s ''zIndex''), lk_held = h, lk_layout = l\<rparr>"

definition stage_look :: "stage_elem \<Rightarrow> look" where
  "stage_look e = css_look (sv_style e) (sv_font e) ''background''
     (case sv_child e of Stage_image src \<Rightarrow> Picture src | Stage_text t \<Rightarrow> Words t) (layout_of (sv_text e))"

definition display_look :: "elem \<Rightarrow> look" where
  "display_look e = css_look (style e) (css_height (style e ''fontSize'')) ''backgroundColor''
     (case child e of None \<Rightarrow> Words (text_content e) | Some (Img src) \<Rightarrow> Picture src | Some (Span t _ _ _) \<Rightarrow> Words t) (layout_of (style e))"

text \<open>The elements that both programs draw alike: a picture with a source and a centred text that is not empty, with
  a size that both read as the same number and without an animation. Not among them: a notice, which moves on the
  display; a clock, which is set in monospace there; a countdown.\<close>

definition alike :: "broadcast_item \<Rightarrow> bool" where
  "alike it \<longleftrightarrow> num_truthy (js_number (font_size it)) \<and> parse_float (font_size it) = js_number (font_size it)
     \<and> anim_css (animation it) = None \<and> content it \<noteq> []
     \<and> (item_type it = js ''image'' \<or> item_type it = js ''text'' \<and> text_align it \<in> {[], js ''center''})"

lemmas css_defs = css_pct_def css_txt_def css_num_def css_height_def

lemma base_look:
  assumes "num_truthy (js_number (font_size it))" "parse_float (font_size it) = js_number (font_size it)"
  shows "css_look (base_style fl it) (css_height (base_style fl it ''fontSize'')) ''backgroundColor'' h l
       = css_look (stage_style (box_of it) it) (stage_font it) ''background'' h l"
proof -
  have ne: "font_size it \<noteq> []" using assms(1) by (auto simp: js_number_def trim_def split_sign_def num_truthy_def)
  have font: "scale_font (font_size it) = Vh (js_number (font_size it))" using assms ne by (simp add: scale_font_def)
  have "stage_font it = js_number (font_size it)" using assms(1) by (simp add: stage_font_def)
  then show ?thesis
    by (simp add: css_look_def base_style_def stage_style_def css_defs font box_of_def Let_def split: option.split)
qed

lemma look_upd:
  assumes "k \<notin> set [''left'', ''top'', ''width'', ''height'', ''color'', ''fontWeight'', ''borderRadius'', ''zIndex'', back]"
  shows "css_look (s(k \<mapsto> v)) f back h l = css_look s f back h l"
  using assms by (auto simp: css_look_def)

lemma stage_display_look:
  assumes "alike it" "render_item json False it = Some e"
  shows "stage_look (canvas_item a (box_of it) it) = display_look e"
proof -
  note base = base_look [of it False]
  have font: "num_truthy (js_number (font_size it))" "parse_float (font_size it) = js_number (font_size it)"
    using assms(1) by (simp_all add: alike_def)
  have types: "js ''image'' \<noteq> js ''text''" "js ''image'' \<noteq> js ''clock''" "js ''text'' \<noteq> js ''clock''" "js ''text'' \<noteq> js ''countdown''"
    by (simp_all add: js_eq)
  have plain: "layout_of (base_style False it) = layout_of Map.empty"
    using assms(1) by (simp add: alike_def layout_of_def layout_props_def base_style_def css_txt_def Let_def)
  note draw = canvas_item_def stage_look_def display_look_def item_label_def Let_def look_upd base [OF font]
  consider "item_type it = js ''text''" "content it \<noteq> []" "text_align it \<in> {[], js ''center''}"
    | "item_type it = js ''image''" "content it \<noteq> []"
    using assms(1) by (auto simp: alike_def)
  then show ?thesis
  proof cases
    case 1
    then have place: "justify (text_align it) = js ''center''" "(if text_align it = [] then js ''center'' else text_align it) = js ''center''"
      by (auto simp: justify_def align_map_def str_or_def js_def)
    have none: "base_style False it ''fontFamily'' = None" "base_style False it ''animation'' = None"
      using assms(1) by (simp_all add: alike_def base_style_def Let_def)
    have "e = \<lparr>class_name = js ''broadcast-item '' @ js ''text'', style = (base_style False it)(''display'' \<mapsto> Txt (js ''flex''),
        ''alignItems'' \<mapsto> Txt (js ''center''), ''justifyContent'' \<mapsto> Txt (js ''center''), ''textAlign'' \<mapsto> Txt (js ''center''),
        ''whiteSpace'' \<mapsto> Txt (js ''pre-wrap''), ''lineHeight'' \<mapsto> Txt (js ''1.2'')), text_content = content it, child = None\<rparr>"
      using assms(2) 1(1) place by (simp add: render_item_def Let_def)
    then show ?thesis using 1 types none
      by (simp add: draw) (simp add: layout_of_def layout_props_def text_classes_def css_txt_def)
  next
    case 2
    then have "e = \<lparr>class_name = js ''broadcast-item '' @ js ''image'', style = base_style False it, text_content = [], child = Some (Img (content it))\<rparr>"
      using assms(2) types by (simp add: render_item_def Let_def)
    then show ?thesis using 2 types by (simp add: draw plain)
  qed
qed

text \<open>Whole sizes are read alike.\<close>

lemma whole_font:
  assumes "0 < n"
  shows "num_truthy (js_number (nat_digits n)) \<and> parse_float (nat_digits n) = js_number (nat_digits n)"
proof -
  have "js_number (nat_digits n) = Fin (of_nat n)" using js_number_int [of "int n"] by (simp add: int_str_def)
  moreover have "parse_float (nat_digits n) = Fin (of_nat n)" using parse_float_stop [of "[]" n] by (simp add: number_stop_def)
  ultimately show ?thesis using assms by (simp add: num_truthy_def)
qed

section \<open>One element over time\<close>

text \<open>The copy of the page, the state of \<open>CanvasItem\<close>, a gesture (whether it resizes, where and from
  which box it started), the requests that were sent and not answered with what the server said of them, and
  the element the server has.\<close>

record canvas =
  cv_item :: broadcast_item
  cv_box :: box
  cv_grab :: "(bool \<times> (rat \<times> rat) \<times> box) option"
  cv_wait :: "(box \<times> bool) list"
  cv_store :: broadcast_item

datatype canvas_ev = Grab bool "rat \<times> rat" | Pull "rat \<times> rat" | Drop "rat \<times> rat" bool | Answer_drop nat | Reload_stage

text \<open>The effect on the four numbers of the element.\<close>

definition give_item :: "broadcast_item \<Rightarrow> canvas \<Rightarrow> canvas" where
  "give_item it s = s\<lparr>cv_item := it, cv_box := (if box_of it = box_of (cv_item s) then cv_box s else box_of it)\<rparr>"

definition remove_at :: "nat \<Rightarrow> 'a list \<Rightarrow> 'a list" where
  "remove_at i xs = take i xs @ drop (Suc i) xs"

fun canvas_step :: "rat \<Rightarrow> rat \<Rightarrow> canvas_ev \<Rightarrow> canvas \<Rightarrow> canvas" where
  "canvas_step w h (Grab resize p) s = s\<lparr>cv_grab := Some (resize, p, cv_box s)\<rparr>"
| "canvas_step w h (Pull p) s = (case cv_grab s of None \<Rightarrow> s
     | Some (resize, p0, b) \<Rightarrow> s\<lparr>cv_box := drag_to resize w h p0 b p\<rparr>)"
| "canvas_step w h (Drop p ok) s = (case cv_grab s of None \<Rightarrow> s
     | Some (resize, p0, b) \<Rightarrow>
         let l = drag_to resize w h p0 b p in
         s\<lparr>cv_box := l, cv_grab := None, cv_wait := cv_wait s @ [(l, ok)],
           cv_store := (if ok then store_step (position_request (item_id (cv_item s)) l) (cv_store s) else cv_store s)\<rparr>)"
| "canvas_step w h (Answer_drop i) s = (if length (cv_wait s) \<le> i then s else
     (let s' = s\<lparr>cv_wait := remove_at i (cv_wait s)\<rparr> in case cv_wait s ! i of (b, ok) \<Rightarrow>
        if ok then give_item (set_item_box b (cv_item s)) s' else s'))"
| "canvas_step w h Reload_stage s = give_item (cv_store s) s"

definition canvas_start :: "broadcast_item \<Rightarrow> canvas" where
  "canvas_start it = \<lparr>cv_item = it, cv_box = box_of it, cv_grab = None, cv_wait = [], cv_store = it\<rparr>"

text \<open>Orderly: requests succeed and are answered in the order they were sent.\<close>

definition canvas_init :: "canvas \<Rightarrow> bool" where
  "canvas_init s \<longleftrightarrow> (\<exists>it. s = canvas_start it)"

definition canvas_orderly :: "canvas \<Rightarrow> canvas_ev \<Rightarrow> bool" where
  "canvas_orderly s e = (case e of Drop p ok \<Rightarrow> ok | Answer_drop i \<Rightarrow> i = 0 | _ \<Rightarrow> True)"

definition last_box :: "canvas \<Rightarrow> box" where
  "last_box s = (if cv_wait s = [] then box_of (cv_item s) else fst (last (cv_wait s)))"

text \<open>The server has the box that was sent last; the rest of the element is that of the page; while no pointer
  is down the stage shows the box of the page or the last one.\<close>

definition canvas_ok :: "canvas \<Rightarrow> bool" where
  "canvas_ok s \<longleftrightarrow> cv_store s = set_item_box (last_box s) (cv_item s) \<and> (\<forall>x\<in>set (cv_wait s). snd x) \<and>
     (cv_grab s = None \<longrightarrow> cv_box s = box_of (cv_item s) \<or> cv_box s = last_box s)"

lemma box_of_set [simp]: "box_of (set_item_box b it) = b" "set_item_box (box_of it) it = it"
  "set_item_box b (set_item_box c it) = set_item_box b it" "item_id (set_item_box b it) = item_id it"
  by (simp_all add: box_of_def set_item_box_def)

lemma give_item_simps [simp]: "cv_item (give_item it s) = it" "cv_grab (give_item it s) = cv_grab s" "cv_wait (give_item it s) = cv_wait s"
  "cv_store (give_item it s) = cv_store s"
  "cv_box (give_item it s) = (if box_of it = box_of (cv_item s) then cv_box s else box_of it)"
  by (simp_all add: give_item_def)

lemma canvas_ok_step:
  assumes "canvas_ok s" "canvas_orderly s e"
  shows "canvas_ok (canvas_step w h e s)"
proof (cases e)
  case (Grab r p)
  then show ?thesis using assms(1) by (simp add: canvas_ok_def last_box_def)
next
  case (Pull p)
  then show ?thesis using assms(1) by (auto simp: canvas_ok_def last_box_def split: option.split prod.split)
next
  case (Drop p ok)
  then show ?thesis using assms
    by (auto simp: canvas_ok_def canvas_orderly_def last_box_def store_position Let_def split: option.split prod.split)
next
  case (Answer_drop i)
  then have i: "i = 0" using assms(2) by (simp add: canvas_orderly_def)
  show ?thesis
  proof (cases "cv_wait s")
    case Nil
    then show ?thesis using assms(1) Answer_drop i by simp
  next
    case (Cons x xs)
    obtain b ok where x: "x = (b, ok)" by fastforce
    have ok using assms(1) Cons x by (simp add: canvas_ok_def)
    then have step: "canvas_step w h e s = give_item (set_item_box b (cv_item s)) (s\<lparr>cv_wait := xs\<rparr>)"
      using Answer_drop i Cons x by (simp add: remove_at_def Let_def)
    have "last_box (canvas_step w h e s) = last_box s" using Cons x by (simp add: step last_box_def)
    then show ?thesis using assms(1) Cons x by (auto simp: canvas_ok_def step)
  qed
next
  case Reload_stage
  then show ?thesis using assms(1) by (auto simp: canvas_ok_def last_box_def split: if_splits)
qed

lemma canvas_ok_init: "canvas_init s \<Longrightarrow> canvas_ok s"
  by (auto simp: canvas_init_def canvas_start_def canvas_ok_def last_box_def)

interpretation canvas: invariant_machine canvas_init canvas_orderly "canvas_step w h" canvas_ok
  by unfold_locales (auto simp: canvas_ok_init intro: canvas_ok_step)

lemma canvas_settled:
  assumes "reach canvas_init canvas_orderly (canvas_step w h) s" "cv_grab s = None" "cv_wait s = []"
  shows "cv_box s = box_of (cv_item s)" "cv_store s = cv_item s"
  using canvas.inv_reach [OF assms(1)] assms(2,3) by (auto simp: canvas_ok_def last_box_def)

section \<open>Properties\<close>

text \<open>C15: In every run in which requests succeed and are answered in order, whatever is dragged, resized and loaded
  again in between: when no pointer is down and nothing is under way, a picture with a source, or a centred text that is
  not empty, with a size that is a plain number and without an animation, has on the stage the look that a display
  without a loaded font gives to what the server has stored: the same box, font size, colours, weight, radius, level and
  content, and for a text the same placement and wrapping. For other elements the two differ
  (\<^theory_text>\<open>px_size_differs\<close>, \<^theory_text>\<open>alignment_unseen\<close>, \<^theory_text>\<open>animation_unseen\<close>, \<^theory_text>\<open>clock_differs\<close>).\<close>

theorem stage_shows_stored:
  assumes "reach canvas_init canvas_orderly (canvas_step w h) s" "cv_grab s = None" "cv_wait s = []"
    and "alike (cv_store s)" "render_item json False (cv_store s) = Some e"
  shows "stage_look (canvas_item active (cv_box s) (cv_item s)) = display_look e"
  using stage_display_look [OF assms(4,5)] canvas_settled [OF assms(1-3)] by simp

lemma drop_run:
  assumes "cv_grab s = None" "cv_wait s = []"
  shows "canvas_step w h (Answer_drop 0) (canvas_step w h (Drop p ok) (canvas_step w h (Grab r p0) s)) =
    (let l = drag_to r w h p0 (cv_box s) p; s' = s\<lparr>cv_box := l\<rparr> in
     if ok then give_item (set_item_box l (cv_item s)) (s'\<lparr>cv_store := set_item_box l (cv_store s)\<rparr>) else s')"
  using assms by (simp add: Let_def remove_at_def store_position give_item_def)

text \<open>A drop whose request fails stays on the stage: neither the page nor the server has it, and loading the pages
  again does not bring the element back, since its numbers have not changed.\<close>

theorem failed_drop_stays:
  assumes "reach canvas_init canvas_orderly (canvas_step w h) s" "cv_grab s = None" "cv_wait s = []"
    and "t = canvas_step w h Reload_stage (canvas_step w h (Answer_drop 0) (canvas_step w h (Drop p False) (canvas_step w h (Grab r p0) s)))"
  shows "cv_box t = drag_to r w h p0 (cv_box s) p \<and> cv_item t = cv_item s \<and> cv_store t = cv_store s \<and> cv_wait t = []"
  using drop_run [OF assms(2,3), where ok = False] canvas_settled [OF assms(1-3)] assms(2,3) by (simp add: assms(4) Let_def)

text \<open>A click on an element is a drop: its position is sent, rounded and clamped, so that an element beyond
  96 percent moves when it is selected.\<close>

theorem click_moves:
  assumes "reach canvas_init canvas_orderly (canvas_step w h) s" "cv_grab s = None" "cv_wait s = []"
    and "t = canvas_step w h (Answer_drop 0) (canvas_step w h (Drop p True) (canvas_step w h (Grab False p) s))"
  shows "pos_x (cv_store t) = clamp (pos_x (cv_store s)) \<and> pos_y (cv_store t) = clamp (pos_y (cv_store s))"
proof -
  have t: "cv_store t = set_item_box (drag_to False w h p (cv_box s) p) (cv_store s)"
    unfolding assms(4) drop_run [OF assms(2,3)] by (simp add: Let_def)
  show ?thesis unfolding t canvas_settled [OF assms(1-3)]
    by (simp add: drag_to_def set_item_box_def box_of_def)
qed

text \<open>A size with a unit: the editor falls back to four percent, the display reads the number before it.\<close>

lemma px_size: "js_number (js ''48px'') = NaN" "parse_float (js ''48px'') = Fin 48"
proof -
  show "js_number (js ''48px'') = NaN"
    by (simp add: js_number_def js_def trim_def is_ws_def split_sign_def decimal_prefix_def exponent_part_def is_digit_def Let_def)
  have "nat_digits 48 @ js ''px'' = js ''48px''" by (simp add: nat_digits.simps js_def)
  then show "parse_float (js ''48px'') = Fin 48"
    using parse_float_stop [of "js ''px''" 48] by (simp add: number_stop_def js_def is_digit_def)
qed

theorem px_size_differs:
  assumes "font_size it = js ''48px''"
  shows "stage_font it = Fin 4 \<and> base_style fl it ''fontSize'' = Some (Vh (Fin 48))"
proof -
  have "js ''48px'' \<noteq> []" by (simp add: js_def)
  then show ?thesis using assms px_size
    by (simp add: stage_font_def base_style_def scale_font_def num_truthy_def Let_def split: option.split)
qed

text \<open>The stage centres every text; the display follows the alignment that the inspector sets.\<close>

theorem alignment_unseen:
  assumes "item_type it = js ''text''"
  shows "canvas_item a b (it\<lparr>text_align := x\<rparr>) = canvas_item a b it \<and>
     map_option (\<lambda>e. css_txt (style e ''justifyContent'')) (render_item json fl (it\<lparr>text_align := x\<rparr>)) = Some (justify x)"
  using assms by (simp add: canvas_item_def stage_style_def stage_font_def item_label_def render_item_def css_txt_def Let_def)

text \<open>It shows no animation, and a clock in the font of the console.\<close>

lemma animation_unseen:
  assumes "anim_css (animation it) = Some x" "render_item json fl it = Some e" "x \<noteq> Txt []"
  shows "stage_look (canvas_item a b it) \<noteq> display_look e"
proof
  assume "stage_look (canvas_item a b it) = display_look e"
  then have "layout_of (sv_text (canvas_item a b it)) = layout_of (style e)"
    by (simp add: stage_look_def display_look_def css_look_def)
  then have "css_txt (sv_text (canvas_item a b it) ''animation'') = css_txt (style e ''animation'')"
    by (simp add: layout_of_def layout_props_def)
  moreover have "style e ''animation'' = Some x"
    using assms(1,2) by (auto simp: render_item_def base_style_def Let_def split: if_splits option.splits)
  moreover have "sv_text (canvas_item a b it) ''animation'' = None"
    by (simp add: canvas_item_def text_classes_def Let_def)
  ultimately have "css_txt (Some x) = []" by (simp add: css_txt_def)
  moreover have "\<exists>t. x = Txt t" using assms(1) by (auto simp: anim_css_def split: if_splits)
  ultimately show False using assms(3) by (auto simp: css_txt_def)
qed

lemma clock_differs:
  assumes "item_type it = js ''clock''" "render_item json fl it = Some e"
  shows "stage_look (canvas_item a b it) \<noteq> display_look e"
proof
  assume "stage_look (canvas_item a b it) = display_look e"
  then have "layout_of (sv_text (canvas_item a b it)) = layout_of (style e)"
    by (simp add: stage_look_def display_look_def css_look_def)
  then have "css_txt (sv_text (canvas_item a b it) ''fontFamily'') = css_txt (style e ''fontFamily'')"
    by (simp add: layout_of_def layout_props_def)
  then show False
    using assms by (auto simp: render_item_def canvas_item_def text_classes_def css_txt_def js_eq js_def [of "''monospace''"] Let_def)
qed

section \<open>Witnesses\<close>

definition demo_canvas :: canvas where
  "demo_canvas = canvas_start (demo_item\<lparr>pos_x := 98\<rparr>)"

lemma demo_canvas_reach: "reach canvas_init canvas_orderly (canvas_step w h) demo_canvas" "cv_grab demo_canvas = None" "cv_wait demo_canvas = []"
  by (auto intro!: reach_init simp: canvas_init_def demo_canvas_def canvas_start_def)

lemma demo_item_alike: "alike (demo_item\<lparr>pos_x := 98\<rparr>)"
proof -
  have "font_size demo_item = nat_digits 4" by (simp add: demo_item_def nat_digits.simps js_def)
  then have "num_truthy (js_number (font_size demo_item))" "parse_float (font_size demo_item) = js_number (font_size demo_item)"
    using whole_font [of 4] by simp_all
  moreover have "item_type demo_item = js ''text''" "content demo_item \<noteq> []" by (simp_all add: demo_item_def js_def)
  moreover have "anim_css (animation demo_item) = None" "text_align demo_item = js ''center''"
    by (simp_all add: demo_item_def anim_css_def js_def)
  ultimately show ?thesis by (simp add: alike_def)
qed

theorem stage_shows_stored_witness:
  "map_option display_look (render_item (\<lambda>_. Extra_null) False (demo_item\<lparr>pos_x := 98\<rparr>))
     = Some (stage_look (canvas_item False (cv_box demo_canvas) (cv_item demo_canvas)))"
proof -
  have store: "cv_store demo_canvas = demo_item\<lparr>pos_x := 98\<rparr>" by (simp add: demo_canvas_def canvas_start_def)
  have "item_type demo_item = js ''text''" by (simp add: demo_item_def)
  then obtain e where e: "render_item (\<lambda>_. Extra_null) False (demo_item\<lparr>pos_x := 98\<rparr>) = Some e"
    by (simp add: render_item_def Let_def)
  have "stage_look (canvas_item False (cv_box demo_canvas) (cv_item demo_canvas)) = display_look e"
    by (rule stage_shows_stored [OF demo_canvas_reach, where json = "\<lambda>_. Extra_null"])
      (simp_all only: store demo_item_alike e)
  then show ?thesis by (simp only: e option.map)
qed

text \<open>An element at 98 percent that is dragged by half of the stage, without success; and one that is clicked.\<close>

lemma demo_canvas_box: "cv_box demo_canvas = \<lparr>bx_x = 98, bx_y = 10, bx_w = 30, bx_h = 16\<rparr>"
  by (simp add: demo_canvas_def canvas_start_def box_of_def demo_item_def)

lemma demo_drag: "drag_to False 100 100 (50, 0) \<lparr>bx_x = 98, bx_y = 10, bx_w = 30, bx_h = 16\<rparr> (0, 0)
    = \<lparr>bx_x = 48, bx_y = 10, bx_w = 30, bx_h = 16\<rparr>"
  by (simp add: drag_to_def clamp_def js_round_def floor_eq_iff)

theorem failed_drop_stays_witness:
  "cv_box (canvas_step 100 100 Reload_stage (canvas_step 100 100 (Answer_drop 0) (canvas_step 100 100 (Drop (0, 0) False)
     (canvas_step 100 100 (Grab False (50, 0)) demo_canvas)))) = \<lparr>bx_x = 48, bx_y = 10, bx_w = 30, bx_h = 16\<rparr>"
  using failed_drop_stays [OF demo_canvas_reach refl, where w = 100 and h = 100 and p = "(0, 0)" and r = False and p0 = "(50, 0)"]
  by (simp only: demo_canvas_box demo_drag)

theorem click_moves_witness:
  "pos_x (cv_store (canvas_step 100 100 (Answer_drop 0) (canvas_step 100 100 (Drop (3, 3) True)
     (canvas_step 100 100 (Grab False (3, 3)) demo_canvas)))) = 96"
proof -
  have "clamp (pos_x (cv_store demo_canvas)) = 96"
    by (simp add: demo_canvas_def canvas_start_def clamp_def js_round_def floor_eq_iff)
  then show ?thesis
    using click_moves [OF demo_canvas_reach refl, where w = 100 and h = 100 and p = "(3, 3)"] by (simp only: simp_thms)
qed

end
