(* ===== verification/Settings_Page.thy ===== *)
theory Settings_Page
  imports Ops_Pages "HOL-Library.Word"
begin

text \<open>
  The settings of a server and of a room, \<^verbatim>\<open>pages/settings.tsx\<close>; the snapshots of operations,
  \<^verbatim>\<open>components/snapshots.tsx\<close>; logging in and out (\<^verbatim>\<open>pages/login.tsx\<close>, \<^verbatim>\<open>components/shell.tsx\<close>). The
  handlers are scripts as on the other pages. The key of a deployment is made of random bytes, kept at
  their width here.
\<close>

section \<open>Texts\<close>

definition t_preset_empty :: jstr where "t_preset_empty = [0x540D, 0x79F0, 0x548C, 0x547D, 0x4EE4, 0x90FD, 0x4E0D, 0x80FD, 0x7A7A]"
definition t_preset_saved :: jstr where "t_preset_saved = [0x9884, 0x8BBE, 0x5DF2, 0x4FDD, 0x5B58]"
definition t_saved :: jstr where "t_saved = [0x5DF2, 0x4FDD, 0x5B58]"
definition t_saved_reload :: jstr where "t_saved_reload = [0x5DF2, 0x4FDD, 0x5B58, 0xFF0C, 0x6B63, 0x5728, 0x5237, 0x65B0]"
definition t_switch_ask :: jstr where "t_switch_ask = [0x5207, 0x6362, 0x90E8, 0x7F72, 0x53EF, 0x80FD, 0x65AD, 0x5F00, 0x5F53, 0x524D, 0x8FDE, 0x63A5, 0x3002, 0x7EE7, 0x7EED, 0xFF1F]"
definition t_update_ask :: jstr where "t_update_ask = [0x5411, 0x6240, 0x6709, 0x5728, 0x7EBF, 0x9009, 0x624B, 0x673A, 0x63A8, 0x9001, 0x81EA, 0x66F4, 0x65B0, 0xFF1F]"
definition t_password_done :: jstr where "t_password_done = [0x5BC6, 0x7801, 0x5DF2, 0x4FEE, 0x6539]"
definition t_checkin_saved :: jstr where "t_checkin_saved = [0x7B7E, 0x5230, 0x6587, 0x6848, 0x5DF2, 0x4FDD, 0x5B58]"
definition t_name_snapshot :: jstr where "t_name_snapshot = [0x8BF7, 0x586B, 0x5199, 0x5FEB, 0x7167, 0x540D, 0x79F0]"
definition t_snapshot_ask :: jstr where "t_snapshot_ask = [0x542F, 0x7528, 0x540E, 0xFF0C, 0x4E4B, 0x540E, 0x7684, 0x5168, 0x5458, 0x64CD, 0x4F5C, 0x4F1A, 0x8FDB, 0x5165, 0x961F, 0x5217, 0xFF0C, 0x5E76, 0x8865, 0x53D1, 0x7ED9, 0x540E, 0x4E0A, 0x7EBF, 0x7684, 0x8BBE, 0x5907, 0x3002, 0x7EE7, 0x7EED, 0xFF1F]"
definition t_snapshot_on :: jstr where "t_snapshot_on = [0x5FEB, 0x7167, 0x5DF2, 0x542F, 0x7528]"
definition t_snapshot_end :: jstr where "t_snapshot_end = [0x7ED3, 0x675F, 0x540E, 0xFF0C, 0x65B0, 0x4E0A, 0x7EBF, 0x8BBE, 0x5907, 0x4E0D, 0x518D, 0x8865, 0x6267, 0x884C, 0x8FD9, 0x4E9B, 0x64CD, 0x4F5C, 0x3002]"
definition t_snapshot_drop :: jstr where "t_snapshot_drop = [0x4ECE, 0x961F, 0x5217, 0x79FB, 0x9664, 0x540E, 0xFF0C, 0x4E4B, 0x540E, 0x4E0A, 0x7EBF, 0x7684, 0x8BBE, 0x5907, 0x4E0D, 0x518D, 0x6267, 0x884C, 0x5B83, 0x3002]"
definition t_logout :: jstr where "t_logout = [0x786E, 0x5B9A, 0x9000, 0x51FA, 0x767B, 0x5F55, 0x5417, 0xFF1F]"

definition t_pushed :: "jstr \<Rightarrow> jstr" where
  "t_pushed n = [0x5DF2, 0x63A8, 0x9001, 0x5230, 0x0020] @ n @ [0x0020, 0x53F0]"

section \<open>The key\<close>

text \<open>\<open>toString(16)\<close> of a natural number, and the text of a byte.\<close>

definition hex_char :: "nat \<Rightarrow> nat" where
  "hex_char d = (if d < 10 then 48 + d else 87 + d)"

fun nat_hex :: "nat \<Rightarrow> jstr" where
  "nat_hex n = (if n < 16 then [hex_char n] else nat_hex (n div 16) @ [hex_char (n mod 16)])"

declare nat_hex.simps [simp del]

definition hex_byte :: "8 word \<Rightarrow> jstr" where
  "hex_byte b = pad_start 2 48 (nat_hex (unat b))"

definition make_token :: "8 word list \<Rightarrow> jstr" where
  "make_token bytes = concat (map hex_byte bytes)"

text \<open>Reading a key back, two digits at a time.\<close>

fun read_token :: "jstr \<Rightarrow> 8 word list option" where
  "read_token [] = Some []"
| "read_token [_] = None"
| "read_token (a # b # s) =
     (case (hex_digit a, hex_digit b) of
        (Some x, Some y) \<Rightarrow> map_option ((#) (of_nat (16 * x + y))) (read_token s)
      | _ \<Rightarrow> None)"

section \<open>Forms\<close>

definition settings_post :: "(string \<times> json) list \<Rightarrow> http" where
  "settings_post fs = http_send ''POST'' (js ''/api/settings'') (Json (JObj (map (\<lambda>(k, v). (js k, v)) fs)))"

definition save_prefix :: "jstr \<Rightarrow> unit script" where
  "save_prefix v = sc_then (sc_send (settings_post [(''hostname_prefix'', JStr (trim v))])) (sc_toast Toast_ok t_saved)"

definition preset_json :: "preset \<Rightarrow> json" where
  "preset_json p = JObj [(js ''name'', JStr (preset_name p)), (js ''desc'', JStr (preset_desc p)),
     (js ''command'', JStr (preset_command p)), (js ''color'', JStr (preset_color p))]"

definition p_settings :: jstr where "p_settings = js ''/api/settings''"
definition p_presets :: jstr where "p_presets = js ''/api/settings/presets''"
definition p_checkin_texts :: jstr where "p_checkin_texts = js ''/api/settings/checkin''"

definition load_settings :: "json script" where
  "load_settings = sc_send (http_get p_settings)"

definition incomplete :: "preset \<Rightarrow> bool" where
  "incomplete p \<longleftrightarrow> trim (preset_name p) = [] \<or> trim (preset_command p) = []"

definition save_presets :: "preset list \<Rightarrow> unit script" where
  "save_presets rows =
     (if list_ex incomplete rows then sc_toast Toast_bad t_preset_empty
      else sc_bind (sc_send (http_send ''PUT'' p_presets (Json (JArr (map preset_json rows)))))
        (\<lambda>v. sc_then (sc_do (E_set ''rows'' v)) (sc_toast Toast_ok t_preset_saved)))"

text \<open>The buttons and fields of the preset rows.\<close>

datatype preset_edit = Add_preset | Drop_preset nat | Name_preset nat jstr | Command_preset nat jstr

fun edit_presets :: "preset_edit \<Rightarrow> preset list \<Rightarrow> preset list" where
  "edit_presets Add_preset rows = rows @ [\<lparr>preset_name = [], preset_desc = [], preset_command = [], preset_color = js ''primary''\<rparr>]"
| "edit_presets (Drop_preset i) rows = take i rows @ drop (Suc i) rows"
| "edit_presets (Name_preset i v) rows = map (\<lambda>(k, r). if k = i then r\<lparr>preset_name := v\<rparr> else r) (enumerate 0 rows)"
| "edit_presets (Command_preset i v) rows = map (\<lambda>(k, r). if k = i then r\<lparr>preset_command := v\<rparr> else r) (enumerate 0 rows)"

definition save_checkin_texts :: "(string \<times> jstr) list \<Rightarrow> unit script" where
  "save_checkin_texts form =
     sc_then (sc_send (http_send ''PUT'' p_checkin_texts (Json (JObj (map (\<lambda>(k, v). (js k, JStr v)) form)))))
       (sc_toast Toast_ok t_checkin_saved)"

definition push_update :: "unit script" where
  "push_update = sc_bind (sc_ask t_update_ask) (\<lambda>ok.
     if \<not> ok then sc_ret ()
     else sc_bind (sc_send (http_send ''POST'' (js ''/api/client/update'') No_body))
       (\<lambda>v. sc_toast Toast_ok (t_pushed (num_text (jfield v ''sent'')))))"

definition change_password :: "jstr \<Rightarrow> jstr \<Rightarrow> unit script" where
  "change_password old new =
     sc_then (sc_send (http_send ''POST'' (js ''/api/auth/password'')
         (Json (JObj [(js ''old_password'', JStr old), (js ''new_password'', JStr new)]))))
       (sc_then (sc_do (E_text ''oldPassword'' [])) (sc_then (sc_do (E_text ''newPassword'' [])) (sc_toast Toast_ok t_password_done)))"

section \<open>Logging in and out\<close>

definition login_submit :: "jstr \<Rightarrow> unit script" where
  "login_submit password = (\<lambda>\<omega>.
     case sc_then (sc_do (E_set ''busy'' (JBool True))) (sc_then (sc_do (E_text ''error'' []))
        (sc_then (sc_send (http_send ''POST'' (js ''/api/auth/login'') (Json (JObj [(js ''password'', JStr password)]))))
          (sc_do (E_text ''location'' (js ''/''))))) \<omega>
     of (l, Inl e) \<Rightarrow> (l @ [E_text ''error'' e, E_set ''busy'' (JBool False)], Inr ())
      | (l, Inr _) \<Rightarrow> (l @ [E_set ''busy'' (JBool False)], Inr ()))"

definition logout :: "unit script" where
  "logout = sc_bind (sc_ask t_logout) (\<lambda>ok.
     if \<not> ok then sc_ret ()
     else sc_then (sc_send (http_send ''POST'' (js ''/api/auth/logout'') No_body)) (sc_do (E_text ''location'' (js ''/login.html''))))"

section \<open>Snapshots\<close>

definition snapshot_path :: "json \<Rightarrow> jstr" where
  "snapshot_path v = js ''/api/snapshots/'' @ num_text (jfield v ''id'')"

definition load_snapshots :: "unit script" where
  "load_snapshots = sc_bind (sc_send (http_get (js ''/api/snapshots''))) (\<lambda>d.
     let active = (case jfield d ''active'' of Some v \<Rightarrow> v | None \<Rightarrow> JNull) in
     sc_then (sc_do (E_set ''active'' active))
       (sc_then (sc_do (E_set ''scope'' (case jfield d ''scope'' of Some v \<Rightarrow> v | None \<Rightarrow> JNull)))
         (if json_truthy (Some active)
          then sc_bind (sc_send (http_get (snapshot_path active @ js ''/ops''))) (\<lambda>v. sc_do (E_set ''ops'' v))
          else sc_do (E_set ''ops'' (JArr [])))))"

definition start_snapshot :: "jstr \<Rightarrow> unit script" where
  "start_snapshot name =
     (if trim name = [] then sc_toast Toast_bad t_name_snapshot
      else sc_bind (sc_ask t_snapshot_ask) (\<lambda>ok.
        if \<not> ok then sc_ret ()
        else sc_then (sc_send (http_send ''POST'' (js ''/api/snapshots'') (Json (JObj [(js ''name'', JStr (trim name))]))))
          (sc_then (sc_do (E_text ''name'' [])) (sc_then (sc_toast Toast_ok t_snapshot_on) load_snapshots))))"

definition end_snapshot :: "json \<Rightarrow> unit script" where
  "end_snapshot active = sc_bind (sc_ask t_snapshot_end) (\<lambda>ok.
     if \<not> ok then sc_ret ()
     else sc_then (sc_send (http_send ''POST'' (snapshot_path active @ js ''/end'') No_body)) load_snapshots)"

definition drop_op :: "json \<Rightarrow> json \<Rightarrow> unit script" where
  "drop_op active op = sc_bind (sc_ask t_snapshot_drop) (\<lambda>ok.
     if \<not> ok then sc_ret ()
     else sc_then (sc_send (http_send ''DELETE'' (snapshot_path active @ js ''/ops/'' @ num_text (jfield op ''id'')) No_body)) load_snapshots)"

section \<open>Lemmas\<close>

lemma hex_char_digit: "d < 16 \<Longrightarrow> hex_digit (hex_char d) = Some d"
  by (simp add: hex_digit_def hex_char_def is_digit_def)

lemma hex_char_range: "d < 16 \<Longrightarrow> 48 \<le> hex_char d \<and> hex_char d \<le> 57 \<or> 97 \<le> hex_char d \<and> hex_char d \<le> 102"
  by (auto simp: hex_char_def)

lemma unat_byte: "unat (b :: 8 word) < 256"
  using unsigned_less [of b] by simp

lemma hex_byte_digits: "hex_byte b = [hex_char (unat b div 16), hex_char (unat b mod 16)]"
proof -
  have b: "unat b < 256" by (rule unat_byte)
  show ?thesis
  proof (cases "unat b < 16")
    case True
    then show ?thesis by (simp add: hex_byte_def nat_hex.simps pad_start_def hex_char_def)
  next
    case False
    then have "nat_hex (unat b) = [hex_char (unat b div 16), hex_char (unat b mod 16)]"
      using b by (simp add: nat_hex.simps [of "unat b"] nat_hex.simps [of "unat b div 16"])
    then show ?thesis by (simp add: hex_byte_def pad_start_def)
  qed
qed

lemma read_byte: "read_token (hex_byte b @ s) = map_option ((#) b) (read_token s)"
proof -
  have "unat b div 16 < 16" using unat_byte [of b] by simp
  moreover have "16 * (unat b div 16) + unat b mod 16 = unat b" by presburger
  then have "(of_nat (16 * (unat b div 16) + unat b mod 16) :: 8 word) = b" by (simp only: of_nat_unat ucast_id)
  ultimately show ?thesis by (simp add: hex_byte_digits hex_char_digit del: of_nat_add of_nat_mult)
qed

lemma read_make: "read_token (make_token bytes) = Some bytes"
  by (induction bytes) (simp_all add: make_token_def read_byte)

lemma token_chars: "c \<in> set (make_token bytes) \<Longrightarrow> 48 \<le> c \<and> c \<le> 57 \<or> 97 \<le> c \<and> c \<le> 102"
proof -
  assume "c \<in> set (make_token bytes)"
  then obtain b where "c \<in> set (hex_byte b)" by (auto simp: make_token_def)
  moreover have "unat b div 16 < 16" using unat_byte [of b] by simp
  ultimately show ?thesis using hex_char_range [of "unat b div 16"] hex_char_range [of "unat b mod 16"] by (auto simp: hex_byte_digits)
qed

section \<open>Properties\<close>

text \<open>The generated key keeps all the randomness it was given: it reads back as its bytes, so different bytes
  give different keys; it has two digits a byte, 64 for the 32 bytes drawn, all of them digits or letters
  from a to f.\<close>

theorem token_roundtrip:
  "read_token (make_token bytes) = Some bytes \<and> length (make_token bytes) = 2 * length bytes
   \<and> set (make_token bytes) \<subseteq> {48..57} \<union> {97..102}"
proof -
  have "length (make_token bytes) = 2 * length bytes"
    by (induction bytes) (simp_all add: make_token_def hex_byte_digits)
  then show ?thesis using read_make token_chars by fastforce
qed

text \<open>With a room chosen the settings page reads one server and writes another: the settings it fills its
  forms with come from the server itself, while saving the preset commands or the check-in texts goes to
  the room, so saving without a change overwrites what the room had.\<close>

theorem settings_read_write_split:
  assumes "encode_uri room = Some e" "room \<noteq> []" "\<not> list_ex incomplete rows"
  shows "map (resolve room \<circ> rq_path) (sends load_settings \<omega>) = [Some p_settings]
     \<and> map (resolve room \<circ> rq_path) (sends (save_presets rows) \<omega>)
         = [Some (js ''/api/cluster/rooms/'' @ e @ js ''/proxy/settings/presets'')]
     \<and> map (resolve room \<circ> rq_path) (sends (save_checkin_texts form) \<omega>)
         = [Some (js ''/api/cluster/rooms/'' @ e @ js ''/proxy/settings/checkin'')]"
proof -
  have r: "split_query (raw_path p_settings) = (js ''settings'', [])" "\<not> proxied (js ''settings'')" "starts_with p_settings (js ''/'')"
    "split_query (raw_path p_presets) = (js ''settings/presets'', [])" "proxied (js ''settings/presets'')"
    "split_query (raw_path p_checkin_texts) = (js ''settings/checkin'', [])" "proxied (js ''settings/checkin'')"
    by code_simp+
  have "resolve room p_settings = Some p_settings" using r by (simp add: resolve_def)
  moreover have "resolve room p_presets = Some (js ''/api/cluster/rooms/'' @ e @ js ''/proxy/settings/presets'')"
    using r assms(1,2) by (simp add: resolve_def) (simp add: js_def)
  moreover have "resolve room p_checkin_texts = Some (js ''/api/cluster/rooms/'' @ e @ js ''/proxy/settings/checkin'')"
    using r assms(1,2) by (simp add: resolve_def) (simp add: js_def)
  moreover have "map rq_path (sends load_settings \<omega>) = [p_settings]" by (simp add: load_settings_def http_get_def)
  moreover have "map rq_path (sends (save_presets rows) \<omega>) = [p_presets]"
    using assms(3) by (simp add: save_presets_def sends_send_bind http_send_def sends_then split: sum.splits)
  moreover have "map rq_path (sends (save_checkin_texts form) \<omega>) = [p_checkin_texts]"
    by (simp add: save_checkin_texts_def sends_then http_send_def split: sum.splits)
  ultimately show ?thesis by (metis (no_types, lifting) list.map(1,2) list.map_comp)
qed

text \<open>Logging in always ends with the form usable again, and leaves the page only on success.\<close>

lemma login_ends:
  "last (fst (login_submit pw \<omega>)) = E_set ''busy'' (JBool False)
   \<and> (E_text ''location'' (js ''/'') \<in> set (fst (login_submit pw \<omega>)) \<longleftrightarrow> (\<exists>v. answer \<omega> (http_send ''POST'' (js ''/api/auth/login'')
        (Json (JObj [(js ''password'', JStr pw)]))) = Inr v))"
  by (auto simp: login_submit_def script_defs split: sum.splits)

section \<open>Witnesses\<close>

lemma settings_read_write_split_witness:
  "map (resolve demo_room \<circ> rq_path) (sends (save_presets []) yes_world) = [Some (js ''/api/cluster/rooms/room%201/proxy/settings/presets'')]"
proof -
  have "demo_room \<noteq> []" by (simp add: demo_room_def js_def)
  from settings_read_write_split [OF demo_room_enc this, of "[]" yes_world] show ?thesis by (simp add: js_def)
qed

end
