(* ===== verification/Settings_Forms.thy ===== *)
theory Settings_Forms
  imports Settings_Page Broadcast_Items Command_Server
begin

text \<open>
  The forms of the settings page over time (\<^verbatim>\<open>pages/settings.tsx\<close>) against the server that stores what
  they send (\<^verbatim>\<open>internal/service/settings_handler.go\<close>, \<^verbatim>\<open>settings.go\<close>, \<^verbatim>\<open>deployment.go\<close>). A form takes
  its values from the first settings that arrive and keeps them; a button sends one form, as JSON, and the
  server decodes, trims, validates and stores it. Go's URL parser is a parameter. What it shows: a save
  stores what the form shows and touches nothing else, or is refused and touches nothing; saving a form
  that was not edited changes nothing, on every server that was set up through this page; a cleared number
  field shows one and sends zero; and a form that was open while the settings were changed elsewhere writes
  the old ones back.
\<close>

section \<open>The forms\<close>

record checkin_cfg =
  cc_welcome :: jstr
  cc_warning :: jstr
  cc_after_in :: jstr
  cc_command :: jstr
  cc_after_out :: jstr

record 'n maint =
  mt_days :: 'n
  mt_max :: 'n
  mt_events :: 'n
  mt_disk :: 'n
  mt_temp :: 'n
  mt_mem :: 'n

text \<open>The answer of \<open>GET /api/settings\<close>.\<close>

record settings_view =
  gv_deploy :: "deployment option"
  gv_prefix :: jstr
  gv_checkin :: checkin_cfg
  gv_presets :: "preset list option"
  gv_screen :: bool
  gv_maint :: "rat maint"

text \<open>The form of a deployment: the fields of the settings, the number as it is typed, the key.\<close>

record dep_form =
  df_of :: deployment \<comment> \<open>its \<open>device_id_start\<close> is not used\<close>
  df_start :: jsnum
  df_token :: jstr

record forms =
  fm_dep :: dep_form
  fm_prefix :: jstr
  fm_checkin :: checkin_cfg
  fm_presets :: "preset list"
  fm_maint :: "jsnum maint"
  fm_old :: jstr
  fm_new :: jstr

definition dep_form_of :: "deployment \<Rightarrow> dep_form" where
  "dep_form_of d = \<lparr>df_of = d, df_start = Fin (of_int (device_id_start d)), df_token = []\<rparr>"

definition maint_form :: "rat maint \<Rightarrow> jsnum maint" where
  "maint_form m = \<lparr>mt_days = Fin (mt_days m), mt_max = Fin (mt_max m), mt_events = Fin (mt_events m),
     mt_disk = Fin (mt_disk m), mt_temp = Fin (mt_temp m), mt_mem = Fin (mt_mem m)\<rparr>"

text \<open>The forms when they are mounted; \<open>d\<close> is the deployment of the application.\<close>

definition forms_of :: "deployment \<Rightarrow> settings_view \<Rightarrow> forms" where
  "forms_of d v = \<lparr>fm_dep = dep_form_of (case gv_deploy v of Some x \<Rightarrow> x | None \<Rightarrow> d), fm_prefix = gv_prefix v,
     fm_checkin = gv_checkin v, fm_presets = (case gv_presets v of Some ps \<Rightarrow> ps | None \<Rightarrow> []),
     fm_maint = maint_form (gv_maint v), fm_old = [], fm_new = []\<rparr>"

datatype dep_edit = Dep_mode jstr | Dep_room jstr | Dep_cloud jstr | Dep_token jstr | Dep_start jstr | Dep_ip jstr
  | Dep_insecure bool | Dep_generate "8 word list"

fun edit_dep :: "dep_edit \<Rightarrow> dep_form \<Rightarrow> dep_form" where
  "edit_dep (Dep_mode v) f = f\<lparr>df_of := (df_of f)\<lparr>dep_mode := v\<rparr>\<rparr>"
| "edit_dep (Dep_room v) f = f\<lparr>df_of := (df_of f)\<lparr>room_name := v\<rparr>\<rparr>"
| "edit_dep (Dep_cloud v) f = f\<lparr>df_of := (df_of f)\<lparr>cloud_url := v\<rparr>\<rparr>"
| "edit_dep (Dep_token v) f = f\<lparr>df_token := v\<rparr>"
| "edit_dep (Dep_start v) f = f\<lparr>df_start := js_number v\<rparr>"
| "edit_dep (Dep_ip v) f = f\<lparr>df_of := (df_of f)\<lparr>advertise_ip := v\<rparr>\<rparr>"
| "edit_dep (Dep_insecure b) f = f\<lparr>df_of := (df_of f)\<lparr>allow_insecure := b\<rparr>\<rparr>"
| "edit_dep (Dep_generate bytes) f = f\<lparr>df_token := make_token bytes\<rparr>"

text \<open>What the number field shows, and the hint of the key field.\<close>

definition start_shown :: "dep_form \<Rightarrow> jsnum" where
  "start_shown f = (if num_truthy (df_start f) then df_start f else Fin 1)"

definition t_key_set :: jstr where
  "t_key_set = [0x5BC6, 0x94A5, 0x5DF2, 0x914D, 0x7F6E, 0xFF0C, 0x7559, 0x7A7A, 0x5219, 0x4FDD, 0x6301]"
definition t_key_new :: jstr where
  "t_key_new = [0x8FDE, 0x63A5, 0x5BC6, 0x94A5, 0xFF0C, 0x81F3, 0x5C11, 0x20, 0x33, 0x32, 0x20, 0x5B57, 0x7B26]"

definition key_hint :: "deployment \<Rightarrow> jstr" where
  "key_hint d = (if token_set d then t_key_set else t_key_new)"

definition t_prefix_word :: jstr where "t_prefix_word = [0x524D, 0x7F00]"

definition prefix_sample :: "jstr \<Rightarrow> jstr" where
  "prefix_sample v = str_or (Some v) t_prefix_word @ js ''-1''"

datatype checkin_key = CK_welcome | CK_warning | CK_after_in | CK_command | CK_after_out

fun edit_checkin :: "checkin_key \<Rightarrow> jstr \<Rightarrow> checkin_cfg \<Rightarrow> checkin_cfg" where
  "edit_checkin CK_welcome v c = c\<lparr>cc_welcome := v\<rparr>"
| "edit_checkin CK_warning v c = c\<lparr>cc_warning := v\<rparr>"
| "edit_checkin CK_after_in v c = c\<lparr>cc_after_in := v\<rparr>"
| "edit_checkin CK_command v c = c\<lparr>cc_command := v\<rparr>"
| "edit_checkin CK_after_out v c = c\<lparr>cc_after_out := v\<rparr>"

datatype maint_key = MK_days | MK_max | MK_events | MK_disk | MK_temp | MK_mem

fun edit_maint :: "maint_key \<Rightarrow> jstr \<Rightarrow> jsnum maint \<Rightarrow> jsnum maint" where
  "edit_maint MK_days v m = m\<lparr>mt_days := js_number v\<rparr>"
| "edit_maint MK_max v m = m\<lparr>mt_max := js_number v\<rparr>"
| "edit_maint MK_events v m = m\<lparr>mt_events := js_number v\<rparr>"
| "edit_maint MK_disk v m = m\<lparr>mt_disk := js_number v\<rparr>"
| "edit_maint MK_temp v m = m\<lparr>mt_temp := js_number v\<rparr>"
| "edit_maint MK_mem v m = m\<lparr>mt_mem := js_number v\<rparr>"

datatype form_edit = Edit_dep dep_edit | Edit_prefix jstr | Edit_checkin checkin_key jstr | Edit_preset preset_edit
  | Edit_maint maint_key jstr | Edit_old jstr | Edit_new jstr

fun edit_forms :: "form_edit \<Rightarrow> forms \<Rightarrow> forms" where
  "edit_forms (Edit_dep e) f = f\<lparr>fm_dep := edit_dep e (fm_dep f)\<rparr>"
| "edit_forms (Edit_prefix v) f = f\<lparr>fm_prefix := v\<rparr>"
| "edit_forms (Edit_checkin k v) f = f\<lparr>fm_checkin := edit_checkin k v (fm_checkin f)\<rparr>"
| "edit_forms (Edit_preset e) f = f\<lparr>fm_presets := edit_presets e (fm_presets f)\<rparr>"
| "edit_forms (Edit_maint k v) f = f\<lparr>fm_maint := edit_maint k v (fm_maint f)\<rparr>"
| "edit_forms (Edit_old v) f = f\<lparr>fm_old := v\<rparr>"
| "edit_forms (Edit_new v) f = f\<lparr>fm_new := v\<rparr>"

text \<open>The page: nothing until the settings come; later settings reach the page but not the state of its
  forms, which is set when they are mounted.\<close>

record set_page =
  sg_view :: "settings_view option"
  sg_forms :: "forms option"

datatype set_ev = Settings_answer settings_view | Form_edit form_edit | Presets_answer "preset list" | Password_answer

fun set_step :: "deployment \<Rightarrow> set_ev \<Rightarrow> set_page \<Rightarrow> set_page" where
  "set_step d (Settings_answer v) s = s\<lparr>sg_view := Some v,
     sg_forms := Some (case sg_forms s of None \<Rightarrow> forms_of d v | Some f \<Rightarrow> f)\<rparr>"
| "set_step d (Form_edit e) s = s\<lparr>sg_forms := map_option (edit_forms e) (sg_forms s)\<rparr>"
| "set_step d (Presets_answer ps) s = s\<lparr>sg_forms := map_option (\<lambda>f. f\<lparr>fm_presets := ps\<rparr>) (sg_forms s)\<rparr>"
| "set_step d Password_answer s = s\<lparr>sg_forms := map_option (\<lambda>f. f\<lparr>fm_old := [], fm_new := []\<rparr>) (sg_forms s)\<rparr>"

section \<open>The buttons\<close>

definition deployment_json :: "dep_form \<Rightarrow> json" where
  "deployment_json f = (let d = df_of f in JObj
     [(js ''mode'', JStr (dep_mode d)), (js ''node_id'', JStr (node_id d)), (js ''room_name'', JStr (room_name d)),
      (js ''cloud_url'', JStr (cloud_url d)), (js ''token_set'', JBool (token_set d)), (js ''allow_insecure'', JBool (allow_insecure d)),
      (js ''device_id_start'', num_json (df_start f)), (js ''advertise_ip'', JStr (advertise_ip d)), (js ''token'', JStr (df_token f))])"

definition save_deployment :: "dep_form \<Rightarrow> unit script" where
  "save_deployment f =
     sc_bind (sc_ask t_switch_ask) (\<lambda>ok.
       if \<not> ok then sc_ret ()
       else sc_then (sc_send (settings_post [(''deployment'', deployment_json f)]))
         (sc_then (sc_toast Toast_ok t_saved_reload) (sc_do (E_text ''location'' (js ''/'')))))"

definition checkin_fields :: "checkin_cfg \<Rightarrow> (string \<times> jstr) list" where
  "checkin_fields c = [(''welcome_text'', cc_welcome c), (''warning_text'', cc_warning c), (''post_checkin_msg'', cc_after_in c),
     (''post_checkout_cmd'', cc_command c), (''post_checkout_msg'', cc_after_out c)]"

definition maint_json :: "jsnum maint \<Rightarrow> json" where
  "maint_json m = JObj [(js ''cmd_retention_days'', num_json (mt_days m)), (js ''cmd_retention_max'', num_json (mt_max m)),
     (js ''event_retention_day'', num_json (mt_events m)), (js ''disk_alert_pct'', num_json (mt_disk m)),
     (js ''temp_alert_c'', num_json (mt_temp m)), (js ''mem_alert_pct'', num_json (mt_mem m))]"

definition save_maintenance :: "jsnum maint \<Rightarrow> unit script" where
  "save_maintenance m = sc_then (sc_send (settings_post [(''maintenance'', maint_json m)])) (sc_toast Toast_ok t_saved)"

datatype form_kind = K_deploy | K_prefix | K_checkin | K_presets | K_maint

fun save_form :: "form_kind \<Rightarrow> forms \<Rightarrow> unit script" where
  "save_form K_deploy f = save_deployment (fm_dep f)"
| "save_form K_prefix f = save_prefix (fm_prefix f)"
| "save_form K_checkin f = save_checkin_texts (checkin_fields (fm_checkin f))"
| "save_form K_presets f = save_presets (fm_presets f)"
| "save_form K_maint f = save_maintenance (fm_maint f)"

text \<open>The links of the page to the files of the server.\<close>

definition data_links :: "jstr list" where
  "data_links = [js ''/api/data/export'', js ''/api/devices/export'', js ''/api/checkin/export'', js ''/api/data/backup'',
     js ''/api/data/backup?uploads=true'']"

section \<open>The server\<close>

text \<open>What an accepted save sends to the machines: all connections are closed, the state of the screen monitor, the
  texts of the check-in page.\<close>

datatype push = Kick_all | Screen_push bool | Checkin_push checkin_cfg

record srv_settings =
  ss_deploy :: deployment
  ss_token :: jstr
  ss_prefix :: jstr
  ss_presets :: "preset list"
  ss_checkin :: checkin_cfg
  ss_maint :: "rat maint"
  ss_screen :: bool
  ss_pushed :: "push list" \<comment> \<open>the pushes so far\<close>

definition view_of :: "srv_settings \<Rightarrow> settings_view" where
  "view_of s = \<lparr>gv_deploy = Some ((ss_deploy s)\<lparr>token_set := ss_token s \<noteq> []\<rparr>), gv_prefix = ss_prefix s,
     gv_checkin = ss_checkin s, gv_presets = Some (ss_presets s), gv_screen = ss_screen s,
     gv_maint = ss_maint s\<rparr>"

text \<open>\<open>strings.TrimSpace\<close> and \<open>strings.TrimRight(_, "/")\<close>.\<close>

definition go_ws :: "nat \<Rightarrow> bool" where
  "go_ws c \<longleftrightarrow> is_ws c \<and> c \<noteq> 0xFEFF \<or> c = 0x85"

definition go_trim :: "jstr \<Rightarrow> jstr" where
  "go_trim s = rev (dropWhile go_ws (rev (dropWhile go_ws s)))"

definition norm_url :: "jstr \<Rightarrow> jstr" where
  "norm_url s = rev (dropWhile (\<lambda>c. c = 47) (rev (go_trim s)))"

datatype set_error = SE_body | SE_no_prefix | SE_long_prefix | SE_distributing | SE_mode | SE_start | SE_token
  | SE_room | SE_address | SE_insecure | SE_long_command | SE_preset_name | SE_preset_command

text \<open>What \<open>url.Parse\<close> reads from an address.\<close>

record cloud_addr =
  ca_scheme :: jstr
  ca_host :: jstr
  ca_user :: bool
  ca_path :: jstr
  ca_query :: jstr
  ca_fragment :: jstr

definition addr_ok :: "cloud_addr \<Rightarrow> bool" where
  "addr_ok a \<longleftrightarrow> ca_host a \<noteq> [] \<and> \<not> ca_user a \<and> ca_query a = [] \<and> ca_fragment a = [] \<and>
     (ca_path a = [] \<or> ca_path a = js ''/'') \<and> (ca_scheme a = js ''https'' \<or> ca_scheme a = js ''http'')"

definition dep_refused :: "(jstr \<Rightarrow> cloud_addr option) \<Rightarrow> deployment \<Rightarrow> jstr \<Rightarrow> set_error option" where
  "dep_refused parse d token =
     (if dep_mode d \<noteq> js ''standalone'' \<and> dep_mode d \<noteq> js ''relay'' \<and> dep_mode d \<noteq> js ''cloud'' then Some SE_mode
      else if device_id_start d < 1 \<or> 1000000 < device_id_start d then Some SE_start
      else if dep_mode d \<noteq> js ''standalone'' \<and> byte_count token < 32 then Some SE_token
      else if dep_mode d = js ''relay'' then
        (if room_name d = [] \<or> 100 < byte_count (room_name d) then Some SE_room
         else (case parse (cloud_url d) of
             None \<Rightarrow> Some SE_address
           | Some a \<Rightarrow> if \<not> addr_ok a then Some SE_address
               else if ca_scheme a \<noteq> js ''https'' \<and> \<not> allow_insecure d then Some SE_insecure else None))
      else None)"

definition set_deployment :: "(jstr \<Rightarrow> cloud_addr option) \<Rightarrow> deployment \<Rightarrow> jstr \<Rightarrow> srv_settings \<Rightarrow> set_error + srv_settings" where
  "set_deployment parse d token s =
     (let t = (if token = [] then ss_token s else token);
          d' = d\<lparr>node_id := node_id (ss_deploy s), token_set := t \<noteq> [], room_name := go_trim (room_name d),
                 cloud_url := norm_url (cloud_url d)\<rparr>
      in case dep_refused parse d' t of Some e \<Rightarrow> Inl e | None \<Rightarrow> Inr (s\<lparr>ss_deploy := d', ss_token := t\<rparr>))"

text \<open>Decoding: an absent field or a null leaves the zero value, or the pointer nil.\<close>

definition go_bool :: "json option \<Rightarrow> bool option" where
  "go_bool v = (case v of None \<Rightarrow> Some False | Some JNull \<Rightarrow> Some False | Some (JBool b) \<Rightarrow> Some b | _ \<Rightarrow> None)"

definition go_ptr :: "(json \<Rightarrow> 'a option) \<Rightarrow> json option \<Rightarrow> 'a option option" where
  "go_ptr f v = (case v of None \<Rightarrow> Some None | Some JNull \<Rightarrow> Some None | Some x \<Rightarrow> map_option Some (f x))"

definition is_obj :: "json \<Rightarrow> bool" where
  "is_obj v = (case v of JObj _ \<Rightarrow> True | _ \<Rightarrow> False)"

text \<open>A field of type \<open>int\<close>: a fraction and a number that does not fit 64 bits are refused.\<close>

definition fits_int64 :: "int \<Rightarrow> bool" where
  "fits_int64 i \<longleftrightarrow> - (2 ^ 63) \<le> i \<and> i < 2 ^ 63"

definition go_int64 :: "json option \<Rightarrow> int option" where
  "go_int64 v = (case go_whole v of Some i \<Rightarrow> if fits_int64 i then Some i else None | None \<Rightarrow> None)"

definition go_deployment :: "json \<Rightarrow> (deployment \<times> jstr) option" where
  "go_deployment v = (if \<not> is_obj v then None else
     (let f = jfield v in
      Option.bind (go_str (f ''mode'')) (\<lambda>m. Option.bind (go_str (f ''node_id'')) (\<lambda>n.
      Option.bind (go_str (f ''room_name'')) (\<lambda>r. Option.bind (go_str (f ''cloud_url'')) (\<lambda>u.
      Option.bind (go_str (f ''token'')) (\<lambda>t. Option.bind (go_bool (f ''token_set'')) (\<lambda>ts.
      Option.bind (go_bool (f ''allow_insecure'')) (\<lambda>i. Option.bind (go_int64 (f ''device_id_start'')) (\<lambda>st.
      Option.bind (go_str (f ''advertise_ip'')) (\<lambda>ip.
        Some (\<lparr>dep_mode = m, node_id = n, room_name = r, cloud_url = u, token_set = ts, allow_insecure = i,
          device_id_start = st, advertise_ip = ip\<rparr>, t))))))))))))"

definition go_maint :: "json \<Rightarrow> rat maint option" where
  "go_maint v = (if \<not> is_obj v then None else
     (let f = jfield v in
      Option.bind (go_int64 (f ''cmd_retention_days'')) (\<lambda>a. Option.bind (go_int64 (f ''cmd_retention_max'')) (\<lambda>b.
      Option.bind (go_int64 (f ''event_retention_day'')) (\<lambda>c. Option.bind (go_num (f ''disk_alert_pct'')) (\<lambda>d.
      Option.bind (go_num (f ''temp_alert_c'')) (\<lambda>e. Option.bind (go_num (f ''mem_alert_pct'')) (\<lambda>g.
        Some \<lparr>mt_days = of_int a, mt_max = of_int b, mt_events = of_int c, mt_disk = d, mt_temp = e, mt_mem = g\<rparr>))))))))"

record update_req =
  ur_deploy :: "(deployment \<times> jstr) option"
  ur_prefix :: "jstr option"
  ur_screen :: "bool option"
  ur_maint :: "rat maint option"

definition decode_update :: "json \<Rightarrow> update_req option" where
  "decode_update v = (if \<not> is_obj v then None else
     (let f = jfield v in
      Option.bind (go_ptr go_deployment (f ''deployment'')) (\<lambda>d.
      Option.bind (go_ptr (\<lambda>x. go_str (Some x)) (f ''hostname_prefix'')) (\<lambda>p.
      Option.bind (go_ptr (\<lambda>x. go_bool (Some x)) (f ''screen_monitor_enabled'')) (\<lambda>sc.
      Option.bind (go_ptr go_maint (f ''maintenance'')) (\<lambda>m.
        Some \<lparr>ur_deploy = d, ur_prefix = p, ur_screen = sc, ur_maint = m\<rparr>))))))"

text \<open>\<open>Update\<close>: the parts in the order of the handler; an error leaves what was stored before it. The flag
  says whether a distribution runs. A deployment that makes this server the cloud closes all connections, and
  the state of the screen monitor is sent to the machines.\<close>

definition kicks :: "deployment \<Rightarrow> push list" where
  "kicks d = (if dep_mode d = js ''cloud'' then [Kick_all] else [])"

definition pushed :: "push list \<Rightarrow> srv_settings \<Rightarrow> srv_settings" where
  "pushed ps s = s\<lparr>ss_pushed := ss_pushed s @ ps\<rparr>"

definition set_prefix :: "jstr option \<Rightarrow> srv_settings \<Rightarrow> set_error + srv_settings" where
  "set_prefix p s = (case p of None \<Rightarrow> Inr s | Some v \<Rightarrow>
     if go_trim v = [] then Inl SE_no_prefix
     else if 64 < byte_count (go_trim v) then Inl SE_long_prefix
     else Inr (s\<lparr>ss_prefix := go_trim v\<rparr>))"

definition update_settings :: "(jstr \<Rightarrow> cloud_addr option) \<Rightarrow> bool \<Rightarrow> update_req \<Rightarrow> srv_settings \<Rightarrow> set_error option \<times> srv_settings" where
  "update_settings parse running r s = (case set_prefix (ur_prefix r) s of Inl e \<Rightarrow> (Some e, s) | Inr s1 \<Rightarrow>
     (case (case ur_deploy r of None \<Rightarrow> Inr s1
            | Some (d, t) \<Rightarrow> if running then Inl SE_distributing
                else (case set_deployment parse d t s1 of Inl e \<Rightarrow> Inl e | Inr s2 \<Rightarrow> Inr (pushed (kicks d) s2))) of
        Inl e \<Rightarrow> (Some e, s1)
      | Inr s2 \<Rightarrow>
          let s3 = (case ur_screen r of None \<Rightarrow> s2 | Some b \<Rightarrow> pushed [Screen_push b] (s2\<lparr>ss_screen := b\<rparr>))
          in (None, case ur_maint r of None \<Rightarrow> s3 | Some m \<Rightarrow> s3\<lparr>ss_maint := m\<rparr>)))"

definition go_checkin :: "json \<Rightarrow> checkin_cfg option" where
  "go_checkin v = (if \<not> is_obj v then None else
     (let f = jfield v in
      Option.bind (go_str (f ''welcome_text'')) (\<lambda>a. Option.bind (go_str (f ''warning_text'')) (\<lambda>b.
      Option.bind (go_str (f ''post_checkin_msg'')) (\<lambda>c. Option.bind (go_str (f ''post_checkout_cmd'')) (\<lambda>d.
      Option.bind (go_str (f ''post_checkout_msg'')) (\<lambda>e.
        Some \<lparr>cc_welcome = a, cc_warning = b, cc_after_in = c, cc_command = d, cc_after_out = e\<rparr>)))))))"

definition put_checkin :: "json \<Rightarrow> srv_settings \<Rightarrow> set_error option \<times> srv_settings" where
  "put_checkin v s = (case go_checkin v of None \<Rightarrow> (Some SE_body, s) | Some c \<Rightarrow>
     if 4096 < byte_count (cc_command c) then (Some SE_long_command, s) else (None, pushed [Checkin_push c] (s\<lparr>ss_checkin := c\<rparr>)))"

definition go_preset :: "json \<Rightarrow> preset option" where
  "go_preset v = (if \<not> is_obj v then None else
     (let f = jfield v in
      Option.bind (go_str (f ''name'')) (\<lambda>n. Option.bind (go_str (f ''desc'')) (\<lambda>d.
      Option.bind (go_str (f ''command'')) (\<lambda>c. Option.bind (go_str (f ''color'')) (\<lambda>l.
        Some \<lparr>preset_name = n, preset_desc = d, preset_command = c, preset_color = l\<rparr>))))))"

definition preset_refused :: "preset \<Rightarrow> set_error option" where
  "preset_refused p = (if go_trim (preset_name p) = [] then Some SE_preset_name
     else if go_trim (preset_command p) = [] then Some SE_preset_command
     else if 65536 < byte_count (preset_command p) then Some SE_long_command else None)"

definition norm_preset :: "preset \<Rightarrow> preset" where
  "norm_preset p = \<lparr>preset_name = go_trim (preset_name p), preset_desc = go_trim (preset_desc p),
     preset_command = go_trim (preset_command p),
     preset_color = (if preset_color p = [] then js ''primary'' else preset_color p)\<rparr>"

definition put_presets :: "json \<Rightarrow> srv_settings \<Rightarrow> set_error option \<times> srv_settings" where
  "put_presets v s = (case go_list go_preset (Some v) of None \<Rightarrow> (Some SE_body, s) | Some ps \<Rightarrow>
     (case find_first (\<lambda>p. preset_refused p \<noteq> None) ps of
        Some p \<Rightarrow> (preset_refused p, s)
      | None \<Rightarrow> (None, s\<lparr>ss_presets := map norm_preset ps\<rparr>)))"

text \<open>The routes of the settings.\<close>

definition serve_settings :: "(jstr \<Rightarrow> cloud_addr option) \<Rightarrow> bool \<Rightarrow> http \<Rightarrow> srv_settings \<Rightarrow> set_error option \<times> srv_settings" where
  "serve_settings parse running h s = (case rq_body h of
     Json v \<Rightarrow>
       if rq_method h = js ''POST'' \<and> rq_path h = p_settings
       then (case decode_update v of None \<Rightarrow> (Some SE_body, s) | Some r \<Rightarrow> update_settings parse running r s)
       else if rq_method h = js ''PUT'' \<and> rq_path h = p_presets then put_presets v s
       else if rq_method h = js ''PUT'' \<and> rq_path h = p_checkin_texts then put_checkin v s
       else (None, s)
   | _ \<Rightarrow> (None, s))"

section \<open>What a save is meant to do\<close>

text \<open>A number that is not a finite one travels as null, which leaves zero.\<close>

definition num_val :: "jsnum \<Rightarrow> rat" where
  "num_val v = (case v of Fin r \<Rightarrow> r | _ \<Rightarrow> 0)"

definition int64_val :: "rat \<Rightarrow> bool" where
  "int64_val r \<longleftrightarrow> of_int \<lfloor>r\<rfloor> = r \<and> fits_int64 \<lfloor>r\<rfloor>"

definition num_whole :: "jsnum \<Rightarrow> bool" where
  "num_whole v \<longleftrightarrow> int64_val (num_val v)"

definition maint_val :: "jsnum maint \<Rightarrow> rat maint" where
  "maint_val m = \<lparr>mt_days = num_val (mt_days m), mt_max = num_val (mt_max m), mt_events = num_val (mt_events m),
     mt_disk = num_val (mt_disk m), mt_temp = num_val (mt_temp m), mt_mem = num_val (mt_mem m)\<rparr>"

definition dep_meant :: "dep_form \<Rightarrow> srv_settings \<Rightarrow> deployment \<times> jstr" where
  "dep_meant f s = (let t = (if df_token f = [] then ss_token s else df_token f) in
     ((df_of f)\<lparr>node_id := node_id (ss_deploy s), token_set := t \<noteq> [], room_name := go_trim (room_name (df_of f)),
        cloud_url := norm_url (cloud_url (df_of f)), device_id_start := \<lfloor>num_val (df_start f)\<rfloor>\<rparr>, t))"

fun form_pushes :: "form_kind \<Rightarrow> forms \<Rightarrow> push list" where
  "form_pushes K_deploy f = kicks (df_of (fm_dep f))"
| "form_pushes K_checkin f = [Checkin_push (fm_checkin f)]"
| "form_pushes _ f = []"

fun meant :: "form_kind \<Rightarrow> forms \<Rightarrow> srv_settings \<Rightarrow> srv_settings" where
  "meant K_deploy f s = (case dep_meant (fm_dep f) s of (d, t) \<Rightarrow> pushed (form_pushes K_deploy f) (s\<lparr>ss_deploy := d, ss_token := t\<rparr>))"
| "meant K_prefix f s = s\<lparr>ss_prefix := go_trim (trim (fm_prefix f))\<rparr>"
| "meant K_checkin f s = pushed (form_pushes K_checkin f) (s\<lparr>ss_checkin := fm_checkin f\<rparr>)"
| "meant K_presets f s = s\<lparr>ss_presets := map norm_preset (fm_presets f)\<rparr>"
| "meant K_maint f s = s\<lparr>ss_maint := maint_val (fm_maint f)\<rparr>"

fun save_refused :: "(jstr \<Rightarrow> cloud_addr option) \<Rightarrow> bool \<Rightarrow> form_kind \<Rightarrow> forms \<Rightarrow> srv_settings \<Rightarrow> set_error option" where
  "save_refused parse running K_deploy f s =
     (if \<not> num_whole (df_start (fm_dep f)) then Some SE_body
      else if running then Some SE_distributing
      else (case dep_meant (fm_dep f) s of (d, t) \<Rightarrow> dep_refused parse d t))"
| "save_refused parse running K_prefix f s =
     (let v = go_trim (trim (fm_prefix f)) in
      if v = [] then Some SE_no_prefix else if 64 < byte_count v then Some SE_long_prefix else None)"
| "save_refused parse running K_checkin f s =
     (if 4096 < byte_count (cc_command (fm_checkin f)) then Some SE_long_command else None)"
| "save_refused parse running K_presets f s =
     (case find_first (\<lambda>p. preset_refused p \<noteq> None) (fm_presets f) of Some p \<Rightarrow> preset_refused p | None \<Rightarrow> None)"
| "save_refused parse running K_maint f s =
     (if num_whole (mt_days (fm_maint f)) \<and> num_whole (mt_max (fm_maint f)) \<and> num_whole (mt_events (fm_maint f))
      then None else Some SE_body)"

section \<open>Decoding what was encoded\<close>

lemma int64_of_int [simp]: "int64_val (of_int i) = fits_int64 i"
  by (simp add: int64_val_def)

lemma int64_zero [simp]: "int64_val 0"
  using int64_of_int [of 0] by (simp add: fits_int64_def)

lemma int64_floor: "int64_val r \<Longrightarrow> of_int \<lfloor>r\<rfloor> = r"
  by (simp add: int64_val_def)

lemma go_whole_num: "go_int64 (Some (num_json v)) = (if num_whole v then Some \<lfloor>num_val v\<rfloor> else None)"
  by (cases v) (auto simp: go_int64_def go_whole_def num_json_def go_int_def num_whole_def int64_val_def fits_int64_def num_val_def)

lemma go_num_num: "go_num (Some (num_json v)) = Some (num_val v)"
  by (cases v) (simp_all add: go_num_def num_json_def num_val_def)

lemma go_str_JStr [simp]: "go_str (Some (JStr x)) = Some x"
  by (simp add: go_str_def)

lemma settings_paths: "p_settings \<noteq> p_presets" "p_settings \<noteq> p_checkin_texts" "p_presets \<noteq> p_checkin_texts"
  "js ''POST'' \<noteq> js ''PUT''"
  by (simp_all add: p_settings_def p_presets_def p_checkin_texts_def js_eq)

lemma decode_dep:
  "go_deployment (deployment_json f) = (if num_whole (df_start f)
     then Some ((df_of f)\<lparr>device_id_start := \<lfloor>num_val (df_start f)\<rfloor>\<rparr>, df_token f) else None)"
proof -
  have "go_bool (Some (JBool b)) = Some b" for b by (simp add: go_bool_def)
  then show ?thesis
    by (simp add: go_deployment_def deployment_json_def Let_def is_obj_def jfield_def js_eq go_whole_num)
qed

lemma decode_maint:
  "go_maint (maint_json m) = (if num_whole (mt_days m) \<and> num_whole (mt_max m) \<and> num_whole (mt_events m)
     then Some (maint_val m) else None)"
  by (auto simp: go_maint_def maint_json_def Let_def is_obj_def jfield_def js_eq go_whole_num go_num_num maint_val_def num_whole_def int64_floor)

lemma decode_checkin:
  "go_checkin (JObj (map (\<lambda>(k, v). (js k, JStr v)) (checkin_fields c))) = Some c"
  by (simp add: go_checkin_def checkin_fields_def Let_def is_obj_def jfield_def js_eq)

lemma decode_preset: "go_preset (preset_json p) = Some p"
  by (simp add: go_preset_def preset_json_def Let_def is_obj_def jfield_def js_eq)

lemma decode_presets: "go_list go_preset (Some (JArr (map preset_json ps))) = Some ps"
proof -
  have "all_some (map (go_preset \<circ> preset_json) ps) = Some ps"
    by (induction ps) (simp_all add: decode_preset)
  then show ?thesis by (simp add: go_list_def)
qed

definition one_field :: "string \<Rightarrow> json \<Rightarrow> json" where
  "one_field k v = JObj [(js k, v)]"

lemma one_field_get: "jfield (one_field k v) k' = (if k = k' then Some v else None)"
  by (auto simp: one_field_def jfield_def js_eq)

lemma decode_one:
  "decode_update (one_field ''deployment'' (deployment_json f)) = map_option (\<lambda>d. \<lparr>ur_deploy = Some d, ur_prefix = None,
     ur_screen = None, ur_maint = None\<rparr>) (go_deployment (deployment_json f))"
  "decode_update (one_field ''maintenance'' (maint_json m)) = map_option (\<lambda>d. \<lparr>ur_deploy = None, ur_prefix = None,
     ur_screen = None, ur_maint = Some d\<rparr>) (go_maint (maint_json m))"
  "decode_update (one_field ''hostname_prefix'' (JStr v)) = Some \<lparr>ur_deploy = None, ur_prefix = Some v,
     ur_screen = None, ur_maint = None\<rparr>"
  "decode_update (one_field ''screen_monitor_enabled'' (JBool b)) = Some \<lparr>ur_deploy = None, ur_prefix = None,
     ur_screen = Some b, ur_maint = None\<rparr>"
proof -
  have obj: "is_obj (one_field k v)" for k v by (simp add: one_field_def is_obj_def)
  have ptr: "go_ptr g None = Some None" "go_ptr g (Some (JObj fs)) = map_option Some (g (JObj fs))"
    "go_ptr g (Some (JStr x)) = map_option Some (g (JStr x))" "go_ptr g (Some (JBool y)) = map_option Some (g (JBool y))" for g fs x y
    by (simp_all add: go_ptr_def)
  show "decode_update (one_field ''deployment'' (deployment_json f)) = map_option (\<lambda>d. \<lparr>ur_deploy = Some d, ur_prefix = None,
     ur_screen = None, ur_maint = None\<rparr>) (go_deployment (deployment_json f))"
    by (cases "go_deployment (deployment_json f)")
      (simp_all add: decode_update_def Let_def obj one_field_get ptr, simp_all add: deployment_json_def Let_def ptr)
  show "decode_update (one_field ''maintenance'' (maint_json m)) = map_option (\<lambda>d. \<lparr>ur_deploy = None, ur_prefix = None,
     ur_screen = None, ur_maint = Some d\<rparr>) (go_maint (maint_json m))"
    by (cases "go_maint (maint_json m)")
      (simp_all add: decode_update_def Let_def obj one_field_get ptr, simp_all add: maint_json_def ptr)
  show "decode_update (one_field ''hostname_prefix'' (JStr v)) = Some \<lparr>ur_deploy = None, ur_prefix = Some v,
     ur_screen = None, ur_maint = None\<rparr>"
    by (simp add: decode_update_def Let_def obj one_field_get ptr)
  show "decode_update (one_field ''screen_monitor_enabled'' (JBool b)) = Some \<lparr>ur_deploy = None, ur_prefix = None,
     ur_screen = Some b, ur_maint = None\<rparr>"
    by (simp add: decode_update_def Let_def obj one_field_get ptr go_bool_def)
qed

lemma serve_post:
  "serve_settings parse running (settings_post [(k, v)]) s =
     (case decode_update (one_field k v) of None \<Rightarrow> (Some SE_body, s) | Some r \<Rightarrow> update_settings parse running r s)"
  by (simp add: serve_settings_def settings_post_def http_send_def p_settings_def one_field_def)

lemma serve_put:
  "serve_settings parse running (http_send ''PUT'' p_presets (Json v)) s = put_presets v s"
  "serve_settings parse running (http_send ''PUT'' p_checkin_texts (Json v)) s = put_checkin v s"
  using settings_paths by (simp_all add: serve_settings_def http_send_def)

text \<open>The request of each button.\<close>

fun form_request :: "form_kind \<Rightarrow> forms \<Rightarrow> http" where
  "form_request K_deploy f = settings_post [(''deployment'', deployment_json (fm_dep f))]"
| "form_request K_prefix f = settings_post [(''hostname_prefix'', JStr (trim (fm_prefix f)))]"
| "form_request K_checkin f = http_send ''PUT'' p_checkin_texts (Json (JObj (map (\<lambda>(k, v). (js k, JStr v)) (checkin_fields (fm_checkin f)))))"
| "form_request K_presets f = http_send ''PUT'' p_presets (Json (JArr (map preset_json (fm_presets f))))"
| "form_request K_maint f = settings_post [(''maintenance'', maint_json (fm_maint f))]"

lemma save_form_sends:
  "sends (save_form k f) \<omega> = (if k = K_deploy \<and> \<not> agrees \<omega> t_switch_ask \<or> k = K_presets \<and> list_ex incomplete (fm_presets f)
     then [] else [form_request k f])"
  by (cases k) (simp_all add: save_deployment_def save_prefix_def save_checkin_texts_def save_presets_def save_maintenance_def
      sends_then sends_send_bind split: sum.split)

lemma set_deployment_meant:
  "set_deployment parse ((df_of f)\<lparr>device_id_start := \<lfloor>num_val (df_start f)\<rfloor>\<rparr>) (df_token f) s =
     (case dep_meant f s of (d, t) \<Rightarrow>
        case dep_refused parse d t of Some e \<Rightarrow> Inl e | None \<Rightarrow> Inr (s\<lparr>ss_deploy := d, ss_token := t\<rparr>))"
  by (cases "df_of f") (simp add: set_deployment_def dep_meant_def Let_def)

text \<open>A save stores what is meant, or is refused and stores nothing.\<close>

lemma serve_form:
  "serve_settings parse running (form_request k f) s =
     (case save_refused parse running k f s of Some e \<Rightarrow> (Some e, s) | None \<Rightarrow> (None, meant k f s))"
proof (cases k)
  case K_deploy
  then show ?thesis
    by (cases "dep_meant (fm_dep f) s")
      (simp add: serve_post decode_one decode_dep update_settings_def set_prefix_def set_deployment_meant kicks_def split: option.split)
next
  case K_prefix
  then show ?thesis by (simp add: serve_post decode_one update_settings_def set_prefix_def Let_def)
next
  case K_checkin
  then show ?thesis by (simp add: serve_put put_checkin_def decode_checkin)
next
  case K_presets
  then show ?thesis
    by (auto simp: serve_put put_presets_def decode_presets split: option.split dest!: find_first_Some)
next
  case K_maint
  then show ?thesis by (simp add: serve_post decode_one decode_maint update_settings_def set_prefix_def)
qed

section \<open>Trimming\<close>

lemma drop_ends:
  "dropWhile P (rev (dropWhile P (rev (dropWhile P s)))) = rev (dropWhile P (rev (dropWhile P s)))"
proof (cases "dropWhile P s")
  case (Cons c r)
  have c: "\<not> P c" using hd_dropWhile [of P s] Cons by simp
  have "dropWhile P (rev (c # r)) \<noteq> []" using c by (auto simp: dropWhile_eq_Nil_conv)
  then obtain q where q: "dropWhile P (rev (c # r)) = q @ [c]"
    using c by (simp add: dropWhile_append split: if_splits)
  then show ?thesis using c Cons by simp
next
  case Nil
  show ?thesis unfolding Nil by simp
qed

lemma go_trim_idem [simp]: "go_trim (go_trim s) = go_trim s"
proof -
  have "dropWhile go_ws (go_trim s) = go_trim s"
    using drop_ends [of go_ws s] by (simp add: go_trim_def)
  moreover have "dropWhile go_ws (rev (go_trim s)) = rev (go_trim s)"
    by (simp add: go_trim_def)
  ultimately show ?thesis by (simp only: go_trim_def [of "go_trim s"]) simp
qed

lemma go_trim_part: "\<exists>a b. s = a @ go_trim s @ b"
proof -
  let ?d = "dropWhile go_ws s"
  have "s = takeWhile go_ws s @ ?d" by simp
  moreover have "rev ?d = takeWhile go_ws (rev ?d) @ dropWhile go_ws (rev ?d)" by simp
  then have "?d = go_trim s @ rev (takeWhile go_ws (rev ?d))"
    unfolding go_trim_def by (metis rev_append rev_rev_ident)
  ultimately show ?thesis by metis
qed

lemma go_trim_bytes: "byte_count (go_trim s) \<le> byte_count s"
proof -
  obtain a b where ab: "s = a @ go_trim s @ b" using go_trim_part by blast
  have "byte_count (a @ go_trim s @ b) = byte_count a + byte_count (go_trim s) + byte_count b"
    by (simp add: byte_count_def)
  then show ?thesis using ab by simp
qed

lemma go_trim_set: "set (go_trim s) \<subseteq> set s"
  using go_trim_part [of s] by (metis Un_upper1 le_supI2 set_append)

text \<open>The two trimmings differ on two characters only.\<close>

definition plain :: "jstr \<Rightarrow> bool" where
  "plain s \<longleftrightarrow> 0x85 \<notin> set s \<and> 0xFEFF \<notin> set s"

lemma plain_trim: "plain s \<Longrightarrow> trim s = go_trim s"
proof -
  assume p: "plain s"
  have same: "c \<in> set s \<Longrightarrow> is_ws c = go_ws c" for c
    using p by (auto simp: go_ws_def plain_def)
  have "dropWhile is_ws s = dropWhile go_ws s" by (rule dropWhile_cong) (use same in auto)
  moreover have "dropWhile is_ws (rev (dropWhile go_ws s)) = dropWhile go_ws (rev (dropWhile go_ws s))"
    by (rule dropWhile_cong) (use same in \<open>auto dest: set_dropWhileD\<close>)
  ultimately show ?thesis by (simp add: trim_def go_trim_def)
qed

lemma plain_stable: "plain v \<Longrightarrow> go_trim (trim (go_trim (trim v))) = go_trim (trim v)"
proof -
  assume v: "plain v"
  then have "plain (go_trim v)" using go_trim_set [of v] unfolding plain_def by blast
  then show ?thesis by (simp add: plain_trim v)
qed

lemma norm_preset_idem: "norm_preset (norm_preset p) = norm_preset p"
  by (simp add: norm_preset_def)

lemma norm_preset_accepted: "preset_refused p = None \<Longrightarrow> preset_refused (norm_preset p) = None"
  using go_trim_bytes [of "preset_command p"] by (auto simp: preset_refused_def norm_preset_def split: if_splits)

section \<open>A server set up through this page\<close>

text \<open>What is stored is a fixed point of storing it.\<close>

definition settings_ok :: "(jstr \<Rightarrow> cloud_addr option) \<Rightarrow> srv_settings \<Rightarrow> bool" where
  "settings_ok parse s \<longleftrightarrow>
     token_set (ss_deploy s) = (ss_token s \<noteq> []) \<and> go_trim (room_name (ss_deploy s)) = room_name (ss_deploy s) \<and>
     norm_url (cloud_url (ss_deploy s)) = cloud_url (ss_deploy s) \<and> dep_refused parse (ss_deploy s) (ss_token s) = None \<and>
     ss_prefix s \<noteq> [] \<and> byte_count (ss_prefix s) \<le> 64 \<and> go_trim (trim (ss_prefix s)) = ss_prefix s \<and>
     (\<forall>p\<in>set (ss_presets s). norm_preset p = p \<and> preset_refused p = None) \<and>
     byte_count (cc_command (ss_checkin s)) \<le> 4096 \<and>
     (\<forall>r\<in>{mt_days (ss_maint s), mt_max (ss_maint s), mt_events (ss_maint s)}. int64_val r) \<and>
     fits_int64 (device_id_start (ss_deploy s))"

text \<open>Any forms may be saved, but for a prefix with one of the two odd characters and an address that trimming
  changes twice, as one that ends in a slash, a blank and a slash.\<close>

fun tidy :: "form_kind \<Rightarrow> forms \<Rightarrow> bool" where
  "tidy K_prefix f = plain (fm_prefix f)"
| "tidy K_deploy f = (let u = cloud_url (df_of (fm_dep f)) in norm_url (norm_url u) = norm_url u)"
| "tidy _ f = True"

datatype settings_ev = Save bool form_kind forms | Toggle_screen bool

definition settings_step :: "(jstr \<Rightarrow> cloud_addr option) \<Rightarrow> settings_ev \<Rightarrow> srv_settings \<Rightarrow> srv_settings" where
  "settings_step parse e s = (case e of
     Save running k f \<Rightarrow> fold (\<lambda>h s. snd (serve_settings parse running h s)) (sends (save_form k f) yes_world) s
   | Toggle_screen b \<Rightarrow> snd (serve_settings parse False (settings_post [(''screen_monitor_enabled'', JBool b)]) s))"

fun settings_enabled :: "srv_settings \<Rightarrow> settings_ev \<Rightarrow> bool" where
  "settings_enabled s (Save running k f) = tidy k f"
| "settings_enabled s (Toggle_screen b) = True"

text \<open>A new server: standalone, no key, the defaults of \<open>NewServerSettings\<close>, whose preset commands and texts
  are data.\<close>

definition settings_init :: "(jstr \<Rightarrow> cloud_addr option) \<Rightarrow> srv_settings \<Rightarrow> bool" where
  "settings_init parse s \<longleftrightarrow> (\<exists>n p ps c. plain p \<and> go_trim p = p \<and> p \<noteq> [] \<and> byte_count p \<le> 64 \<and>
     (\<forall>x\<in>set ps. norm_preset x = x \<and> preset_refused x = None) \<and> byte_count (cc_command c) \<le> 4096 \<and>
     s = \<lparr>ss_deploy = \<lparr>dep_mode = js ''standalone'', node_id = n, room_name = [], cloud_url = [], token_set = False,
            allow_insecure = False, device_id_start = 1, advertise_ip = []\<rparr>,
          ss_token = [], ss_prefix = p, ss_presets = ps, ss_checkin = c,
          ss_maint = \<lparr>mt_days = 14, mt_max = 5000, mt_events = 30, mt_disk = 90, mt_temp = 85, mt_mem = 92\<rparr>, ss_screen = False, ss_pushed = []\<rparr>)"

lemma settings_ok_pushed [simp]: "settings_ok parse (pushed ps s) = settings_ok parse s"
  by (simp add: settings_ok_def pushed_def)

lemma settings_ok_screen [simp]: "settings_ok parse (s\<lparr>ss_screen := b\<rparr>) = settings_ok parse s"
  by (simp add: settings_ok_def)

lemma settings_ok_meant:
  assumes "settings_ok parse s" "tidy k f" "save_refused parse running k f s = None"
  shows "settings_ok parse (meant k f s)"
proof (cases k)
  case K_deploy
  obtain d t where dt: "dep_meant (fm_dep f) s = (d, t)" by fastforce
  then have "token_set d = (t \<noteq> [])" "go_trim (room_name d) = room_name d" "norm_url (cloud_url d) = cloud_url d"
    using assms(2) K_deploy by (auto simp: dep_meant_def Let_def)
  moreover have r: "dep_refused parse d t = None" using assms(3) K_deploy dt by (simp split: if_splits)
  moreover have "fits_int64 (device_id_start d)"
    using r by (auto simp: dep_refused_def fits_int64_def split: if_splits)
  ultimately have "settings_ok parse (s\<lparr>ss_deploy := d, ss_token := t\<rparr>)" using assms(1) by (simp add: settings_ok_def)
  then show ?thesis using K_deploy dt by simp
next
  case K_prefix
  then show ?thesis using assms by (auto simp: settings_ok_def Let_def plain_stable split: if_splits)
next
  case K_checkin
  then have "settings_ok parse (s\<lparr>ss_checkin := fm_checkin f\<rparr>)"
    using assms by (auto simp: settings_ok_def split: if_splits)
  then show ?thesis using K_checkin by simp
next
  case K_presets
  have "\<forall>p\<in>set (fm_presets f). preset_refused p = None"
  proof (rule ballI, rule ccontr)
    fix p assume p: "p \<in> set (fm_presets f)" "preset_refused p \<noteq> None"
    then have "find_first (\<lambda>p. preset_refused p \<noteq> None) (fm_presets f) \<noteq> None" unfolding find_first_None by blast
    then obtain x where "find_first (\<lambda>p. preset_refused p \<noteq> None) (fm_presets f) = Some x" by blast
    with find_first_Some [OF this] assms(3) K_presets show False by simp
  qed
  then show ?thesis using assms(1) K_presets
    by (auto simp: settings_ok_def norm_preset_idem norm_preset_accepted)
next
  case K_maint
  then show ?thesis using assms by (auto simp: settings_ok_def maint_val_def num_whole_def split: if_splits)
qed

lemma settings_ok_step:
  assumes "settings_ok parse s" "settings_enabled s e"
  shows "settings_ok parse (settings_step parse e s)"
proof (cases e)
  case (Save running k f)
  have "settings_ok parse (snd (serve_settings parse running (form_request k f) s))"
    using settings_ok_meant [OF assms(1), of k f running] assms Save by (simp add: serve_form split: option.split)
  then show ?thesis using Save assms(1) by (simp add: settings_step_def save_form_sends)
next
  case (Toggle_screen b)
  then show ?thesis using assms(1)
    by (simp add: settings_step_def serve_post decode_one update_settings_def set_prefix_def)
qed

lemma default_numbers: "int64_val 14" "int64_val 5000" "int64_val 30" "fits_int64 1"
  using int64_of_int [of 14] int64_of_int [of 5000] int64_of_int [of 30] by (simp_all add: fits_int64_def)

lemma settings_ok_init: "settings_init parse s \<Longrightarrow> settings_ok parse s"
  using plain_trim default_numbers
  by (auto simp: settings_init_def settings_ok_def dep_refused_def go_trim_def norm_url_def js_eq)

interpretation settings: invariant_machine "settings_init parse" settings_enabled "settings_step parse" "settings_ok parse"
  by unfold_locales (auto simp: settings_ok_init intro: settings_ok_step)

section \<open>Properties\<close>

text \<open>C14: A save does what it is meant to, on any server: it stores what the form shows, trimmed and with numbers that
  are not finite as zero, and touches nothing else; or it is refused and touches nothing.\<close>

theorem save_exact:
  assumes "h \<in> set (sends (save_form k f) \<omega>)"
  shows "serve_settings parse running h s =
     (case save_refused parse running k f s of Some e \<Rightarrow> (Some e, s) | None \<Rightarrow> (None, meant k f s))"
  using assms serve_form by (simp add: save_form_sends split: if_splits)

lemma num_val_Fin [simp]: "num_val (Fin r) = r" "num_whole (Fin r) \<longleftrightarrow> int64_val r"
  by (simp_all add: num_val_def num_whole_def)

lemma untouched_meant:
  assumes "settings_ok parse s"
  shows "meant k (forms_of d (view_of s)) s = pushed (form_pushes k (forms_of d (view_of s))) s"
    and "k = K_deploy \<Longrightarrow> \<not> running \<Longrightarrow> save_refused parse running k (forms_of d (view_of s)) s = None"
    and "k \<noteq> K_deploy \<Longrightarrow> save_refused parse running k (forms_of d (view_of s)) s = None"
proof -
  note ok = assms [unfolded settings_ok_def]
  have dep: "dep_meant (fm_dep (forms_of d (view_of s))) s = (ss_deploy s, ss_token s)"
    using ok by (cases "ss_deploy s") (simp add: dep_meant_def forms_of_def view_of_def dep_form_of_def Let_def)
  have pre: "map norm_preset (ss_presets s) = ss_presets s"
    using ok by (intro map_idI) blast
  have none: "find_first (\<lambda>p. preset_refused p \<noteq> None) (ss_presets s) = None"
  proof -
    have "\<forall>p\<in>set (ss_presets s). preset_refused p = None" using ok by blast
    then show ?thesis unfolding find_first_None by simp
  qed
  show "meant k (forms_of d (view_of s)) s = pushed (form_pushes k (forms_of d (view_of s))) s"
    using dep pre ok by (cases k) (simp_all add: forms_of_def view_of_def maint_form_def maint_val_def pushed_def)
  show "save_refused parse running k (forms_of d (view_of s)) s = None" if "k = K_deploy" "\<not> running"
    using that dep ok by simp (simp add: forms_of_def view_of_def dep_form_of_def)
  show "save_refused parse running k (forms_of d (view_of s)) s = None" if "k \<noteq> K_deploy"
    using that ok none by (cases k) (simp_all add: forms_of_def view_of_def maint_form_def Let_def)
qed

text \<open>C16: On a server that was set up through this page, by saves of its forms in any order and state of editing (the
  prefix without the two characters that Go and JavaScript trim differently, the address of the cloud without a blank
  between two final slashes) and by the switch of the screen monitor, opening the page and saving any of its forms
  without an edit changes no setting. It is accepted, the deployment form as long as no distribution is running (else
  the server answers 409 and nothing happens). What the machines notice of it: saving the check-in texts sends them the
  same texts again, and saving the deployment of a cloud closes all their connections.\<close>

theorem untouched_save_keeps:
  assumes "reach (settings_init parse) settings_enabled (settings_step parse) s"
    and "h \<in> set (sends (save_form k (forms_of d (view_of s))) \<omega>)"
  shows "serve_settings parse running h s =
     (if k = K_deploy \<and> running then (Some SE_distributing, s)
      else (None, s\<lparr>ss_pushed := ss_pushed s @ (case k of K_checkin \<Rightarrow> [Checkin_push (ss_checkin s)]
             | K_deploy \<Rightarrow> kicks (ss_deploy s) | _ \<Rightarrow> [])\<rparr>))"
proof -
  have ok: "settings_ok parse s" using settings.inv_reach assms(1) .
  let ?f = "forms_of d (view_of s)"
  have "h = form_request k ?f" using assms(2) by (simp add: save_form_sends split: if_splits)
  then have serve: "serve_settings parse running h s =
      (case save_refused parse running k ?f s of Some e \<Rightarrow> (Some e, s) | None \<Rightarrow> (None, pushed (form_pushes k ?f) s))"
    using serve_form [of parse running k ?f s] untouched_meant(1) [OF ok, of k d] by (simp split: option.split)
  show ?thesis
  proof (cases "k = K_deploy \<and> running")
    case True
    have "num_whole (df_start (fm_dep ?f))"
      using ok by (simp add: settings_ok_def forms_of_def view_of_def dep_form_of_def int64_val_def)
    then show ?thesis using serve True by simp
  next
    case False
    then have "save_refused parse running k ?f s = None" using untouched_meant(2,3) [OF ok, of k running d] by blast
    moreover have "form_pushes k ?f = (case k of K_checkin \<Rightarrow> [Checkin_push (ss_checkin s)]
        | K_deploy \<Rightarrow> kicks (ss_deploy s) | _ \<Rightarrow> [])"
      by (cases k) (simp_all add: forms_of_def view_of_def dep_form_of_def kicks_def)
    ultimately show ?thesis using serve False by (auto simp: pushed_def)
  qed
qed

text \<open>Clearing the field of the first device number does not bring the default back: the field shows one, the
  form sends zero, and the server refuses the deployment whatever else was entered. The page tells the
  operator nothing: no message follows the request that failed.\<close>

theorem cleared_start_refused:
  assumes "f = edit_dep (Dep_start []) g" "dep_mode (df_of f) \<in> {js ''standalone'', js ''relay'', js ''cloud''}"
    and "\<And>h. \<exists>e. answer \<omega> h = Inl e"
  shows "start_shown f = Fin 1 \<and>
     (\<forall>h\<in>set (sends (save_deployment f) \<omega>). serve_settings parse False h s = (Some SE_start, s)) \<and>
     (\<forall>e\<in>set (fst (save_deployment f \<omega>)). \<forall>t m. e \<noteq> E_toast t m)"
proof -
  have z: "df_start f = Fin 0" using assms(1) by (simp add: js_number_def split_sign_def)
  obtain e where e: "answer \<omega> (settings_post [(''deployment'', deployment_json f)]) = Inl e" using assms(3) by blast
  have shown: "start_shown f = Fin 1" using z by (simp add: start_shown_def num_truthy_def)
  have "save_refused parse False K_deploy F s = Some SE_start" if "fm_dep F = f" for F
    using that z assms(2) by (auto simp: dep_meant_def Let_def dep_refused_def)
  then have req: "serve_settings parse False (settings_post [(''deployment'', deployment_json f)]) s = (Some SE_start, s)"
    using serve_form [of parse False K_deploy "undefined\<lparr>fm_dep := f\<rparr>" s] by simp
  have sends: "set (sends (save_deployment f) \<omega>) \<subseteq> {settings_post [(''deployment'', deployment_json f)]}"
    by (simp add: save_deployment_def sends_then)
  have "\<forall>e\<in>set (fst (save_deployment f \<omega>)). \<forall>t m. e \<noteq> E_toast t m"
    using e by (auto simp: save_deployment_def script_defs)
  with shown req sends show ?thesis by blast
qed

text \<open>C40: A form that is open while the settings are changed elsewhere keeps what it was mounted with, even when the
  page loads the settings again: saving it untouched writes the old values over the new ones, and the old texts of the
  check-in page are sent to the machines too.\<close>

theorem open_form_reverts:
  assumes "settings_ok parse s" "settings_ok parse t" "h \<in> set (sends (save_form k (forms_of d (view_of s))) \<omega>)" "k \<noteq> K_deploy"
  shows "sg_forms (set_step d (Settings_answer (view_of t)) (set_step d (Settings_answer (view_of s)) \<lparr>sg_view = None, sg_forms = None\<rparr>))
       = Some (forms_of d (view_of s)) \<and>
     (\<exists>t'. serve_settings parse running h t = (None, t') \<and>
       (k = K_prefix \<longrightarrow> t' = t\<lparr>ss_prefix := ss_prefix s\<rparr>) \<and>
       (k = K_checkin \<longrightarrow> t' = t\<lparr>ss_checkin := ss_checkin s, ss_pushed := ss_pushed t @ [Checkin_push (ss_checkin s)]\<rparr>) \<and>
       (k = K_presets \<longrightarrow> t' = t\<lparr>ss_presets := ss_presets s\<rparr>) \<and> (k = K_maint \<longrightarrow> t' = t\<lparr>ss_maint := ss_maint s\<rparr>))"
proof -
  let ?f = "forms_of d (view_of s)"
  have same: "save_refused parse running k ?f t = save_refused parse running k ?f s" using assms(4) by (cases k) simp_all
  have meant: "(k = K_prefix \<longrightarrow> meant k ?f t = t\<lparr>ss_prefix := ss_prefix (meant k ?f s)\<rparr>) \<and>
      (k = K_checkin \<longrightarrow> meant k ?f t = t\<lparr>ss_checkin := ss_checkin (meant k ?f s),
         ss_pushed := ss_pushed t @ [Checkin_push (ss_checkin s)]\<rparr>) \<and>
      (k = K_presets \<longrightarrow> meant k ?f t = t\<lparr>ss_presets := ss_presets (meant k ?f s)\<rparr>) \<and>
      (k = K_maint \<longrightarrow> meant k ?f t = t\<lparr>ss_maint := ss_maint (meant k ?f s)\<rparr>)"
    by (cases k) (simp_all add: pushed_def forms_of_def view_of_def)
  have kept: "ss_prefix (meant k ?f s) = ss_prefix s" "ss_checkin (meant k ?f s) = ss_checkin s"
    "ss_presets (meant k ?f s) = ss_presets s" "ss_maint (meant k ?f s) = ss_maint s"
    using untouched_meant(1) [OF assms(1), of k d] by (simp_all add: pushed_def)
  have "h = form_request k ?f" using assms(3) by (simp add: save_form_sends split: if_splits)
  then have "serve_settings parse running h t = (None, meant k ?f t)"
    using serve_form [of parse running k ?f t] same untouched_meant(3) [OF assms(1,4)] by simp
  then show ?thesis using meant [unfolded kept] by auto
qed

section \<open>Witnesses\<close>

definition demo_srv :: srv_settings where
  "demo_srv = \<lparr>ss_deploy = \<lparr>dep_mode = js ''standalone'', node_id = js ''n'', room_name = [], cloud_url = [], token_set = False,
      allow_insecure = False, device_id_start = 1, advertise_ip = []\<rparr>, ss_token = [], ss_prefix = js ''icpc'', ss_presets = [],
    ss_checkin = \<lparr>cc_welcome = [], cc_warning = [], cc_after_in = [], cc_command = js ''ls'', cc_after_out = []\<rparr>,
    ss_maint = \<lparr>mt_days = 14, mt_max = 5000, mt_events = 30, mt_disk = 90, mt_temp = 85, mt_mem = 92\<rparr>, ss_screen = False, ss_pushed = []\<rparr>"

definition no_parse :: "jstr \<Rightarrow> cloud_addr option" where
  "no_parse u = None"

lemma demo_srv_init: "settings_init no_parse demo_srv"
proof -
  have "plain (js ''icpc'') \<and> go_trim (js ''icpc'') = js ''icpc'' \<and> js ''icpc'' \<noteq> [] \<and> byte_count (js ''icpc'') \<le> 64"
    "byte_count (js ''ls'') \<le> 4096"
    by (simp_all add: plain_def js_def go_trim_def go_ws_def is_ws_def byte_count_def unit_bytes_def)
  then show ?thesis unfolding settings_init_def demo_srv_def
    by (intro exI [of _ "js ''n''"] exI [of _ "js ''icpc''"] exI [of _ "[]"]
        exI [of _ "\<lparr>cc_welcome = [], cc_warning = [], cc_after_in = [], cc_command = js ''ls'', cc_after_out = []\<rparr>"]) simp
qed

definition demo_view_dep :: deployment where
  "demo_view_dep = ss_deploy demo_srv"

theorem save_exact_witness:
  "serve_settings no_parse False (form_request K_prefix (edit_forms (Edit_prefix []) (forms_of demo_view_dep (view_of demo_srv)))) demo_srv
     = (Some SE_no_prefix, demo_srv)"
proof -
  let ?f = "edit_forms (Edit_prefix []) (forms_of demo_view_dep (view_of demo_srv))"
  have "form_request K_prefix ?f \<in> set (sends (save_form K_prefix ?f) yes_world)"
    unfolding save_form_sends by simp
  from save_exact [OF this, of no_parse False demo_srv] show ?thesis by (simp add: go_trim_def Let_def)
qed

theorem untouched_save_keeps_witness:
  "serve_settings no_parse False (form_request K_deploy (forms_of demo_view_dep (view_of demo_srv))) demo_srv = (None, demo_srv)
   \<and> serve_settings no_parse True (form_request K_deploy (forms_of demo_view_dep (view_of demo_srv))) demo_srv = (Some SE_distributing, demo_srv)"
proof -
  have "reach (settings_init no_parse) settings_enabled (settings_step no_parse) demo_srv"
    by (rule reach_init) (rule demo_srv_init)
  moreover have "form_request K_deploy (forms_of demo_view_dep (view_of demo_srv))
      \<in> set (sends (save_form K_deploy (forms_of demo_view_dep (view_of demo_srv))) yes_world)"
    unfolding save_form_sends by (simp add: yes_world_def)
  moreover have "kicks (ss_deploy demo_srv) = []" by (simp add: kicks_def demo_srv_def js_eq)
  ultimately show ?thesis using untouched_save_keeps [of no_parse demo_srv _ K_deploy demo_view_dep yes_world] by simp
qed

theorem cleared_start_refused_witness:
  "start_shown (edit_dep (Dep_start []) (dep_form_of demo_view_dep)) = Fin 1"
  using cleared_start_refused [of "edit_dep (Dep_start []) (dep_form_of demo_view_dep)" "dep_form_of demo_view_dep"
      "\<lparr>answer = (\<lambda>_. Inl []), agrees = (\<lambda>_. True)\<rparr>" no_parse demo_srv]
  by (simp add: dep_form_of_def demo_view_dep_def demo_srv_def)

theorem open_form_reverts_witness:
  "\<exists>t'. serve_settings no_parse False (form_request K_checkin (forms_of demo_view_dep (view_of demo_srv)))
     (demo_srv\<lparr>ss_checkin := (ss_checkin demo_srv)\<lparr>cc_welcome := js ''new''\<rparr>\<rparr>) = (None, t') \<and> ss_checkin t' = ss_checkin demo_srv"
proof -
  let ?t = "demo_srv\<lparr>ss_checkin := (ss_checkin demo_srv)\<lparr>cc_welcome := js ''new''\<rparr>\<rparr>"
  have ok: "settings_ok no_parse demo_srv" by (rule settings_ok_init) (rule demo_srv_init)
  then have "settings_ok no_parse ?t" by (simp add: settings_ok_def)
  moreover have "form_request K_checkin (forms_of demo_view_dep (view_of demo_srv))
      \<in> set (sends (save_form K_checkin (forms_of demo_view_dep (view_of demo_srv))) yes_world)"
    unfolding save_form_sends by simp
  ultimately show ?thesis
    using open_form_reverts [OF ok, of ?t _ K_checkin demo_view_dep yes_world False] by fastforce
qed

end
