(* ===== verification/Device_Identity.thy ===== *)
theory Device_Identity
  imports Settings_Forms
begin

text \<open>
  The numbers of the machines (\<^verbatim>\<open>internal/biz/id_assigner.go\<close>, with the statements of
  \<^verbatim>\<open>internal/data/device_repo.go\<close> that remove rows): a machine registers with its network address and a
  key, and the table of devices answers its number, adopts a row of an older version, or allocates the next
  number. The lock orders registrations, so each is one step; statements of others between the queries of one
  registration, and errors of the database, are not modelled. What it shows: in every run, two registrations
  get the same number exactly when they have the same identity, as long as the row is not removed;
  a new number is above all others and not below the number the settings start from; every
  notation of an address is the same machine; the sweep of placeholders never finds one.
\<close>

section \<open>Network addresses\<close>

text \<open>\<open>net.ParseMAC\<close>: octets with colons or dashes, or groups of two octets with dots.\<close>

definition hex_octet :: "nat \<Rightarrow> nat \<Rightarrow> nat option" where
  "hex_octet a b = (case (hex_digit a, hex_digit b) of (Some x, Some y) \<Rightarrow> Some (16 * x + y) | _ \<Rightarrow> None)"

fun mac_octets :: "nat \<Rightarrow> jstr \<Rightarrow> nat list option" where
  "mac_octets sep (a # b # r) = (case hex_octet a b of None \<Rightarrow> None | Some v \<Rightarrow>
     (case r of [] \<Rightarrow> Some [v] | c # t \<Rightarrow> if c = sep then map_option ((#) v) (mac_octets sep t) else None))"
| "mac_octets sep _ = None"

fun mac_pairs :: "jstr \<Rightarrow> nat list option" where
  "mac_pairs (a # b # c # d # r) = (case (hex_octet a b, hex_octet c d) of (Some v, Some w) \<Rightarrow>
     (case r of [] \<Rightarrow> Some [v, w] | e # t \<Rightarrow> if e = 46 then map_option (\<lambda>x. v # w # x) (mac_pairs t) else None)
   | _ \<Rightarrow> None)"
| "mac_pairs _ = None"

definition parse_mac :: "jstr \<Rightarrow> nat list option" where
  "parse_mac s =
     (case (if length s < 14 then None
            else if s ! 2 = 58 \<or> s ! 2 = 45 then mac_octets (s ! 2) s
            else if s ! 4 = 46 then mac_pairs s else None) of
        None \<Rightarrow> None | Some bs \<Rightarrow> if length bs \<in> {6, 8, 20} then Some bs else None)"

text \<open>\<open>HardwareAddr.String\<close>, with the separator as an argument.\<close>

fun mac_join :: "nat \<Rightarrow> nat list \<Rightarrow> jstr" where
  "mac_join sep [] = []"
| "mac_join sep [v] = [hex_char (v div 16), hex_char (v mod 16)]"
| "mac_join sep (v # w # vs) = [hex_char (v div 16), hex_char (v mod 16), sep] @ mac_join sep (w # vs)"

definition mac_text :: "nat list \<Rightarrow> jstr" where
  "mac_text vs = mac_join 58 vs"

text \<open>\<open>strings.ToLower\<close> and \<open>lower\<close> of the database, on the letters an address can have.\<close>

definition lower_text :: "jstr \<Rightarrow> jstr" where
  "lower_text s = map (\<lambda>c. if 65 \<le> c \<and> c \<le> 90 then c + 32 else c) s"

datatype id_error = ID_mac | ID_missing | ID_insert

definition normal_mac :: "jstr \<Rightarrow> id_error + jstr" where
  "normal_mac s =
     (let m = lower_text (go_trim s) in
      if m = [] then Inr []
      else case parse_mac m of
        None \<Rightarrow> Inl ID_mac
      | Some bs \<Rightarrow> if length bs \<noteq> 6 \<or> odd (hd bs) \<or> mac_text bs = js ''00:00:00:00:00:00'' then Inl ID_mac
                  else Inr (mac_text bs))"

section \<open>The table\<close>

record id_row =
  ir_id :: int
  ir_mac :: jstr
  ir_key :: jstr

record id_tab =
  it_rows :: "id_row list"
  it_start :: "int option"

text \<open>An insertion is refused by the unique indexes: the number, and the key unless it is empty.\<close>

definition insert_row :: "id_row \<Rightarrow> id_row list \<Rightarrow> id_row list option" where
  "insert_row r rows =
     (if find_first (\<lambda>x. ir_id x = ir_id r \<or> ir_key r \<noteq> [] \<and> ir_key x = ir_key r) rows = None then Some (rows @ [r]) else None)"

definition next_number :: "id_tab \<Rightarrow> int" where
  "next_number t =
     (let n = (if it_rows t = [] then 1 else Max (set (map ir_id (it_rows t))) + 1);
          start = (case it_start t of None \<Rightarrow> 0 | Some v \<Rightarrow> v)
      in if start > n then start else n)"

definition allocate_new :: "jstr \<Rightarrow> jstr \<Rightarrow> id_tab \<Rightarrow> (id_error + (int \<times> bool)) \<times> id_tab" where
  "allocate_new mac key t =
     (let n = next_number t in
      case insert_row \<lparr>ir_id = n, ir_mac = mac, ir_key = key\<rparr> (it_rows t) of
        None \<Rightarrow> (Inl ID_insert, t)
      | Some rows \<Rightarrow> (Inr (n, True), t\<lparr>it_rows := rows\<rparr>))"

text \<open>The identity a registration stands for.\<close>

definition machine_key :: "jstr \<Rightarrow> jstr \<Rightarrow> id_error + (jstr \<times> jstr)" where
  "machine_key mac key = (case normal_mac mac of Inl e \<Rightarrow> Inl e | Inr m \<Rightarrow>
     (let k = go_trim key in
      if 128 < byte_count k \<or> k = [] \<and> m = [] then Inl ID_missing
      else Inr (m, if k = [] then js ''mac:'' @ m else k)))"

definition set_key :: "int \<Rightarrow> jstr \<Rightarrow> id_row list \<Rightarrow> id_row list" where
  "set_key d k rows = map (\<lambda>r. if ir_id r = d then r\<lparr>ir_key := k\<rparr> else r) rows"

text \<open>The number, whether it is new, and the table after it.\<close>

definition assign_identity :: "jstr \<Rightarrow> jstr \<Rightarrow> id_tab \<Rightarrow> (id_error + (int \<times> bool)) \<times> id_tab" where
  "assign_identity mac key t = (case machine_key mac key of Inl e \<Rightarrow> (Inl e, t) | Inr (m, k) \<Rightarrow>
     (case find_first (\<lambda>r. ir_key r = k) (it_rows t) of
        Some r \<Rightarrow> (Inr (ir_id r, False), t)
      | None \<Rightarrow>
          (case (if m = [] then [] else filter (\<lambda>r. lower_text (ir_mac r) = m \<and> ir_key r = []) (it_rows t)) of
             [r] \<Rightarrow> (Inr (ir_id r, False), t\<lparr>it_rows := set_key (ir_id r) k (it_rows t)\<rparr>)
           | _ \<Rightarrow> allocate_new m k t)))"

text \<open>The other statements on these columns: the address as the machine wrote it, a deleted device, all
  devices, the sweep of placeholders (\<open>quiet\<close> are the rows without a host name that are not connected), and the
  number the settings start from.\<close>

definition report_mac :: "int \<Rightarrow> jstr \<Rightarrow> id_tab \<Rightarrow> id_tab" where
  "report_mac d mac t = t\<lparr>it_rows := map (\<lambda>r. if ir_id r = d then r\<lparr>ir_mac := mac\<rparr> else r) (it_rows t)\<rparr>"

definition delete_row :: "int \<Rightarrow> id_tab \<Rightarrow> id_tab" where
  "delete_row d t = t\<lparr>it_rows := filter (\<lambda>r. ir_id r \<noteq> d) (it_rows t)\<rparr>"

definition delete_ghosts :: "(int \<Rightarrow> bool) \<Rightarrow> id_tab \<Rightarrow> id_tab" where
  "delete_ghosts quiet t = t\<lparr>it_rows := filter (\<lambda>r. \<not> (ir_key r = [] \<and> ir_mac r = [] \<and> quiet (ir_id r))) (it_rows t)\<rparr>"

datatype id_ev = Id_assign jstr jstr | Id_report int jstr | Id_delete int | Id_reset | Id_sweep "int \<Rightarrow> bool" | Id_start int

fun id_step :: "id_ev \<Rightarrow> id_tab \<Rightarrow> id_tab" where
  "id_step (Id_assign mac key) t = snd (assign_identity mac key t)"
| "id_step (Id_report d mac) t = report_mac d mac t"
| "id_step (Id_delete d) t = delete_row d t"
| "id_step Id_reset t = t\<lparr>it_rows := []\<rparr>"
| "id_step (Id_sweep quiet) t = delete_ghosts quiet t"
| "id_step (Id_start n) t = t\<lparr>it_start := Some n\<rparr>"

definition any_event :: "id_tab \<Rightarrow> id_ev \<Rightarrow> bool" where
  "any_event t e = True"

text \<open>A table of an older version: numbers, no keys.\<close>

definition id_init :: "id_tab \<Rightarrow> bool" where
  "id_init t \<longleftrightarrow> distinct (map ir_id (it_rows t)) \<and> (\<forall>r\<in>set (it_rows t). 1 \<le> ir_id r \<and> ir_key r = [])"

text \<open>Who has which number. The invariant: numbers are positive and belong to one row, keys to one number.\<close>

definition numbers :: "id_tab \<Rightarrow> int list" where
  "numbers t = map ir_id (it_rows t)"

definition has_number :: "id_tab \<Rightarrow> jstr \<Rightarrow> int \<Rightarrow> bool" where
  "has_number t k d \<longleftrightarrow> (\<exists>r\<in>set (it_rows t). ir_key r = k \<and> ir_id r = d)"

definition id_ok :: "id_tab \<Rightarrow> bool" where
  "id_ok t \<longleftrightarrow> distinct (numbers t) \<and> (\<forall>d\<in>set (numbers t). 1 \<le> d) \<and>
     (\<forall>k a b. k \<noteq> [] \<longrightarrow> has_number t k a \<longrightarrow> has_number t k b \<longrightarrow> a = b)"

section \<open>Lemmas\<close>

lemma machine_key_some: "machine_key mac key = Inr (m, k) \<Longrightarrow> k \<noteq> []"
  by (auto simp: machine_key_def Let_def js_def split: sum.splits if_splits)

lemma next_number_above:
  assumes "r \<in> set (it_rows t)"
  shows "ir_id r < next_number t"
proof -
  define top where "top = Max (set (map ir_id (it_rows t)))"
  have "ir_id r \<le> top" unfolding top_def using assms by (intro Max_ge) auto
  moreover have "top + 1 \<le> next_number t"
    using assms unfolding next_number_def top_def [symmetric] by (auto simp: Let_def)
  ultimately show ?thesis by simp
qed

lemma next_number_pos:
  assumes "id_ok t"
  shows "1 \<le> next_number t"
proof (cases "it_rows t")
  case Nil
  then show ?thesis by (auto simp: next_number_def Let_def split: option.split)
next
  case (Cons r rs)
  then have "1 \<le> ir_id r" "ir_id r < next_number t" using assms next_number_above [of r t] by (auto simp: id_ok_def numbers_def)
  then show ?thesis by simp
qed

text \<open>An allocation never meets the unique indexes.\<close>

lemma allocate_ok:
  assumes "\<forall>r\<in>set (it_rows t). ir_key r \<noteq> k"
  shows "allocate_new m k t = (Inr (next_number t, True), t\<lparr>it_rows := it_rows t @ [\<lparr>ir_id = next_number t, ir_mac = m, ir_key = k\<rparr>]\<rparr>)"
proof -
  have "find_first (\<lambda>x. ir_id x = next_number t \<or> k \<noteq> [] \<and> ir_key x = k) (it_rows t) = None"
    unfolding find_first_None using next_number_above assms by fastforce
  then show ?thesis by (simp add: allocate_new_def insert_row_def Let_def)
qed

text \<open>The three ways of a registration.\<close>

lemma assign_cases:
  assumes "machine_key mac key = Inr (m, k)"
  obtains (known) r where "r \<in> set (it_rows t)" "ir_key r = k" "assign_identity mac key t = (Inr (ir_id r, False), t)"
  | (adopted) r where "r \<in> set (it_rows t)" "ir_key r = []" "\<forall>r\<in>set (it_rows t). ir_key r \<noteq> k"
      "assign_identity mac key t = (Inr (ir_id r, False), t\<lparr>it_rows := set_key (ir_id r) k (it_rows t)\<rparr>)"
  | (fresh) "\<forall>r\<in>set (it_rows t). ir_key r \<noteq> k"
      "assign_identity mac key t = (Inr (next_number t, True), t\<lparr>it_rows := it_rows t @ [\<lparr>ir_id = next_number t, ir_mac = m, ir_key = k\<rparr>]\<rparr>)"
proof (cases "find_first (\<lambda>r. ir_key r = k) (it_rows t)")
  case (Some r)
  then show thesis using known [of r] find_first_Some [OF Some] assms by (simp add: assign_identity_def)
next
  case None
  then have new: "\<forall>r\<in>set (it_rows t). ir_key r \<noteq> k" by (simp add: find_first_None)
  define old where "old = (if m = [] then [] else filter (\<lambda>r. lower_text (ir_mac r) = m \<and> ir_key r = []) (it_rows t))"
  have eq: "assign_identity mac key t = (case old of [r] \<Rightarrow> (Inr (ir_id r, False), t\<lparr>it_rows := set_key (ir_id r) k (it_rows t)\<rparr>)
      | _ \<Rightarrow> allocate_new m k t)"
    using None assms by (simp add: assign_identity_def old_def)
  show thesis
  proof (cases "\<exists>r. old = [r]")
    case True
    then obtain r where r: "old = [r]" by blast
    then have "r \<in> set old" by simp
    then have "r \<in> set (it_rows t) \<and> ir_key r = []" by (auto simp: old_def split: if_splits)
    then show thesis using adopted [of r] new eq r by simp
  next
    case False
    then have "assign_identity mac key t = allocate_new m k t" using eq by (auto split: list.splits)
    then show thesis using fresh new allocate_ok [OF new] by simp
  qed
qed

text \<open>What each statement does to the numbers and to who has which.\<close>

lemma numbers_simps [simp]:
  "numbers (report_mac d mac t) = numbers t" "numbers (t\<lparr>it_rows := set_key d k (it_rows t)\<rparr>) = numbers t"
  "numbers (t\<lparr>it_rows := filter p (it_rows t)\<rparr>) = map ir_id (filter p (it_rows t))"
  "numbers (t\<lparr>it_rows := it_rows t @ [r]\<rparr>) = numbers t @ [ir_id r]" "numbers (t\<lparr>it_start := n\<rparr>) = numbers t"
  by (simp_all add: numbers_def report_mac_def set_key_def)

lemma bex_map: "(\<exists>r\<in>set (map f rows). q r) \<longleftrightarrow> (\<exists>x\<in>set rows. q (f x))"
  by (simp only: set_map bex_simps)

lemma has_report [simp]: "has_number (report_mac d mac t) k a = has_number t k a"
proof -
  have "ir_key (if b then r\<lparr>ir_mac := mac\<rparr> else r) = ir_key r" "ir_id (if b then r\<lparr>ir_mac := mac\<rparr> else r) = ir_id r"
    for b and r :: id_row by simp_all
  moreover have "it_rows (report_mac d mac t) = map (\<lambda>r. if ir_id r = d then r\<lparr>ir_mac := mac\<rparr> else r) (it_rows t)"
    by (simp add: report_mac_def)
  ultimately show ?thesis by (simp only: has_number_def bex_map)
qed

lemma has_set_key:
  "has_number (t\<lparr>it_rows := set_key d k (it_rows t)\<rparr>) k' a \<longleftrightarrow> (if a = d then k' = k \<and> d \<in> set (numbers t) else has_number t k' a)"
proof -
  have "(\<exists>r\<in>set (set_key d k (it_rows t)). q r) \<longleftrightarrow> (\<exists>x\<in>set (it_rows t). q (if ir_id x = d then x\<lparr>ir_key := k\<rparr> else x))" for q
    by (simp only: set_key_def bex_map)
  then show ?thesis by (cases "a = d") (auto simp: has_number_def numbers_def)
qed

lemma has_append [simp]:
  "has_number (t\<lparr>it_rows := it_rows t @ [r]\<rparr>) k a \<longleftrightarrow> has_number t k a \<or> ir_key r = k \<and> ir_id r = a"
  by (auto simp: has_number_def)

lemma has_filter [simp]:
  "has_number (t\<lparr>it_rows := filter p (it_rows t)\<rparr>) k a \<longleftrightarrow> (\<exists>r\<in>set (it_rows t). p r \<and> ir_key r = k \<and> ir_id r = a)"
  by (auto simp: has_number_def)

lemma has_start [simp]: "has_number (t\<lparr>it_start := n\<rparr>) k a = has_number t k a"
  by (simp add: has_number_def)

lemma id_okI:
  assumes "distinct (numbers t)" "\<And>d. d \<in> set (numbers t) \<Longrightarrow> 1 \<le> d"
    and "\<And>k a b. k \<noteq> [] \<Longrightarrow> has_number t k a \<Longrightarrow> has_number t k b \<Longrightarrow> a = b"
  shows "id_ok t"
  using assms unfolding id_ok_def by blast

lemma id_okD:
  assumes "id_ok t"
  shows "distinct (numbers t)" "d \<in> set (numbers t) \<Longrightarrow> 1 \<le> d" "k \<noteq> [] \<Longrightarrow> has_number t k a \<Longrightarrow> has_number t k b \<Longrightarrow> a = b"
  using assms unfolding id_ok_def by blast+

lemma unused_key: "\<forall>r\<in>set (it_rows t). ir_key r \<noteq> k \<Longrightarrow> \<not> has_number t k a"
  by (auto simp: has_number_def)

lemma id_ok_assign:
  assumes "id_ok t"
  shows "id_ok (snd (assign_identity mac key t))"
proof (cases "machine_key mac key")
  case (Inl e)
  then show ?thesis using assms by (simp add: assign_identity_def)
next
  case (Inr mk)
  obtain m k where mk: "machine_key mac key = Inr (m, k)" using Inr by (cases mk) auto
  from mk show ?thesis
  proof (cases rule: assign_cases [where t = t])
    case (known r)
    then show ?thesis using assms by simp
  next
    case (adopted r)
    have "id_ok (t\<lparr>it_rows := set_key (ir_id r) k (it_rows t)\<rparr>)"
    proof (rule id_okI)
      fix k' a b
      assume "k' \<noteq> []" "has_number (t\<lparr>it_rows := set_key (ir_id r) k (it_rows t)\<rparr>) k' a"
        "has_number (t\<lparr>it_rows := set_key (ir_id r) k (it_rows t)\<rparr>) k' b"
      then show "a = b" using id_okD(3) [OF assms, of k' a b] unused_key [OF adopted(3)] by (simp add: has_set_key split: if_splits)
    qed (use id_okD [OF assms] in simp_all)
    then show ?thesis using adopted(4) by simp
  next
    case fresh
    have "next_number t \<notin> set (numbers t)" using next_number_above by (fastforce simp: numbers_def)
    then have "id_ok (t\<lparr>it_rows := it_rows t @ [\<lparr>ir_id = next_number t, ir_mac = m, ir_key = k\<rparr>]\<rparr>)"
    proof (intro id_okI)
      fix k' a b
      assume "k' \<noteq> []" "has_number (t\<lparr>it_rows := it_rows t @ [\<lparr>ir_id = next_number t, ir_mac = m, ir_key = k\<rparr>]\<rparr>) k' a"
        "has_number (t\<lparr>it_rows := it_rows t @ [\<lparr>ir_id = next_number t, ir_mac = m, ir_key = k\<rparr>]\<rparr>) k' b"
      then show "a = b" using id_okD(3) [OF assms, of k' a b] unused_key [OF fresh(1)] by auto
    qed (use id_okD(1,2) [OF assms] next_number_pos [OF assms] in auto)
    then show ?thesis using fresh(2) by simp
  qed
qed

lemma id_ok_filter:
  assumes "id_ok t"
  shows "id_ok (t\<lparr>it_rows := filter p (it_rows t)\<rparr>)"
proof -
  let ?t = "t\<lparr>it_rows := filter p (it_rows t)\<rparr>"
  have "distinct (numbers ?t) \<and> set (numbers ?t) \<subseteq> set (numbers t)"
    using assms by (auto simp: id_ok_def numbers_def distinct_map_filter)
  moreover have "has_number t k a" if "has_number ?t k a" for k a using that by (auto simp: has_number_def)
  ultimately show ?thesis using assms unfolding id_ok_def by blast
qed

lemma id_ok_step: "id_ok t \<Longrightarrow> id_ok (id_step e t)"
proof (cases e)
  case (Id_report d mac)
  assume "id_ok t"
  then show ?thesis by (simp add: Id_report id_ok_def)
qed (simp_all add: id_ok_assign id_ok_filter delete_row_def delete_ghosts_def, simp_all add: id_ok_def numbers_def has_number_def)

lemma id_ok_init: "id_init t \<Longrightarrow> id_ok t"
  by (auto simp: id_init_def id_ok_def numbers_def has_number_def)

interpretation identity: invariant_machine id_init any_event id_step id_ok
  by unfold_locales (auto simp: id_ok_init intro: id_ok_step)

text \<open>A key keeps its number until the row is removed.\<close>

definition removes :: "int \<Rightarrow> id_ev \<Rightarrow> bool" where
  "removes d e \<longleftrightarrow> e = Id_delete d \<or> e = Id_reset"

lemma has_number_assign:
  assumes "has_number t k d" "k \<noteq> []" "id_ok t"
  shows "has_number (snd (assign_identity mac key t)) k d"
proof (cases "machine_key mac key")
  case (Inl e)
  then show ?thesis using assms by (simp add: assign_identity_def)
next
  case (Inr mk)
  obtain m k' where mk: "machine_key mac key = Inr (m, k')" using Inr by (cases mk) auto
  from mk show ?thesis
  proof (cases rule: assign_cases [where t = t])
    case (known r)
    then show ?thesis using assms by simp
  next
    case (adopted r)
    obtain x where x: "x \<in> set (it_rows t)" "ir_key x = k" "ir_id x = d" using assms(1) by (auto simp: has_number_def)
    have "d \<noteq> ir_id r"
      using assms(2,3) x adopted(1,2) by (auto simp: id_ok_def numbers_def distinct_map dest: inj_onD)
    then show ?thesis using adopted(4) assms(1) by (simp add: has_set_key)
  next
    case fresh
    then show ?thesis using assms by simp
  qed
qed

lemma has_number_step:
  assumes "has_number t k d" "k \<noteq> []" "id_ok t" "\<not> removes d e"
  shows "has_number (id_step e t) k d"
proof (cases e)
  case (Id_delete x)
  then have "x \<noteq> d" using assms(4) by (auto simp: removes_def)
  moreover obtain r where "r \<in> set (it_rows t)" "ir_key r = k" "ir_id r = d" using assms(1) by (auto simp: has_number_def)
  ultimately show ?thesis unfolding Id_delete by (auto simp: delete_row_def intro!: bexI [of _ r])
next
  case (Id_sweep quiet)
  then show ?thesis using assms(1,2) by (auto simp: delete_ghosts_def has_number_def)
qed (use assms in \<open>simp_all add: has_number_assign removes_def\<close>)

lemma has_number_run:
  assumes "has_number t k d" "k \<noteq> []" "id_ok t" "\<forall>e\<in>set es. \<not> removes d e"
  shows "has_number (run id_step es t) k d \<and> id_ok (run id_step es t)"
  using assms by (induction es arbitrary: t) (auto simp: has_number_step id_ok_step)

lemma assign_gives:
  assumes "machine_key mac key = Inr (m, k)" "assign_identity mac key t = (Inr (d, b), t1)"
  shows "has_number t1 k d"
  using assms(1)
proof (cases rule: assign_cases [where t = t])
  case (known r)
  then show ?thesis using assms(2) by (auto simp: has_number_def)
next
  case (adopted r)
  then show ?thesis using assms(2) by (auto simp: has_set_key numbers_def)
next
  case fresh
  then show ?thesis using assms(2) by auto
qed


definition keyed :: "id_tab \<Rightarrow> bool" where
  "keyed t \<longleftrightarrow> (\<forall>r\<in>set (it_rows t). ir_key r \<noteq> [])"

lemma keyed_assign:
  assumes "keyed t"
  shows "keyed (snd (assign_identity mac key t))"
proof (cases "machine_key mac key")
  case (Inl x)
  then show ?thesis using assms by (simp add: assign_identity_def)
next
  case (Inr mk)
  obtain m k where mk: "machine_key mac key = Inr (m, k)" using Inr by (cases mk) auto
  from mk show ?thesis
  proof (cases rule: assign_cases [where t = t])
    case (known r)
    then show ?thesis using assms by simp
  next
    case (adopted r)
    then show ?thesis using assms by (simp add: keyed_def)
  next
    case fresh
    then show ?thesis using assms machine_key_some [OF mk] by (simp add: keyed_def)
  qed
qed

lemma keyed_step: "keyed t \<Longrightarrow> keyed (id_step e t)"
  by (cases e) (simp_all add: keyed_assign, auto simp: keyed_def report_mac_def delete_row_def delete_ghosts_def)

section \<open>Properties\<close>

text \<open>C13: A registration in any reachable table got the number \<open>d\<close>. Whatever happens then (other registrations,
  reports of addresses, sweeps, deletions of other rows, a new start of the numbers), as long as the row \<open>d\<close> is not
  deleted and the table not reset, a later registration gets the number \<open>d\<close> exactly when its identity, normalised,
  is the one of the first.\<close>

theorem number_identifies:
  assumes "reach id_init any_event id_step t"
    and "machine_key mac key = Inr (m, k)" "assign_identity mac key t = (Inr (d, b), t1)"
    and "\<forall>e\<in>set es. \<not> removes d e" "t2 = run id_step es t1"
    and "machine_key mac' key' = Inr (m', k')" "assign_identity mac' key' t2 = (Inr (d', b'), t3)"
  shows "d' = d \<longleftrightarrow> k' = k"
proof -
  have k: "k \<noteq> []" "k' \<noteq> []" using machine_key_some assms(2,6) by blast+
  have "id_ok t1" using id_ok_assign [OF identity.inv_reach [OF assms(1)], of mac key] assms(3) by simp
  then have 2: "has_number t2 k d" "id_ok t2"
    using has_number_run [OF assign_gives [OF assms(2,3)] k(1) _ assms(4)] assms(5) by simp_all
  have 3: "id_ok t3" "has_number t3 k d"
    using id_ok_assign [OF 2(2), of mac' key'] has_number_assign [OF 2(1) k(1) 2(2), of mac' key'] assms(7) by simp_all
  have "has_number t3 k' d'" by (rule assign_gives [OF assms(6,7)])
  moreover have "ka = kb" if "has_number t3 ka x" "has_number t3 kb x" for ka kb x
    using that id_okD(1) [OF 3(1)] by (auto simp: has_number_def numbers_def distinct_map dest: inj_onD)
  ultimately show ?thesis using 3(2) id_okD(3) [OF 3(1) k(1)] by blast
qed

text \<open>C19: A registration with an identity always succeeds; a number that is new is above every number in the table and
  not below the one the settings start from, and no row but that of the machine changes.\<close>

theorem new_number_bounds:
  assumes "reach id_init any_event id_step t" "machine_key mac key = Inr (m, k)"
  shows "\<exists>d b t'. assign_identity mac key t = (Inr (d, b), t') \<and> 1 \<le> d \<and>
     (if b then (\<forall>x\<in>set (numbers t). x < d) \<and> (\<forall>v. it_start t = Some v \<longrightarrow> v \<le> d) else d \<in> set (numbers t) \<and> numbers t' = numbers t) \<and>
     (\<forall>k' x. x \<noteq> d \<longrightarrow> has_number t' k' x = has_number t k' x)"
proof -
  have ok: "id_ok t" by (rule identity.inv_reach [OF assms(1)])
  show ?thesis using assms(2)
  proof (cases rule: assign_cases [where t = t])
    case (known r)
    then have "ir_id r \<in> set (numbers t)" by (simp add: numbers_def)
    then show ?thesis using id_okD(2) [OF ok]
      by (intro exI [of _ "ir_id r"] exI [of _ False] exI [of _ t]) (simp add: known(3))
  next
    case (adopted r)
    then have "ir_id r \<in> set (numbers t)" by (simp add: numbers_def)
    then show ?thesis using id_okD(2) [OF ok]
      by (intro exI [of _ "ir_id r"] exI [of _ False] exI [of _ "t\<lparr>it_rows := set_key (ir_id r) k (it_rows t)\<rparr>"])
        (simp add: adopted(4) has_set_key)
  next
    case fresh
    have "v \<le> next_number t" if "it_start t = Some v" for v using that by (simp add: next_number_def Let_def)
    moreover have "\<forall>x\<in>set (numbers t). x < next_number t" using next_number_above by (auto simp: numbers_def)
    ultimately show ?thesis using next_number_pos [OF ok]
      by (intro exI [of _ "next_number t"] exI [of _ True] exI [of _ "snd (assign_identity mac key t)"]) (simp add: fresh(2))
  qed
qed

text \<open>Rows this server creates have a key, so the sweep of the placeholders of machines that dropped out during their
  registration never removes one of them.\<close>

theorem sweep_finds_none:
  assumes "r \<in> set (it_rows (run id_step es \<lparr>it_rows = [], it_start = start\<rparr>))"
  shows "r \<in> set (it_rows (delete_ghosts quiet (run id_step es \<lparr>it_rows = [], it_start = start\<rparr>)))"
proof -
  have run: "keyed (run id_step es t)" if "keyed t" for t
    using that by (induction es arbitrary: t) (simp_all add: keyed_step)
  have "keyed (run id_step es \<lparr>it_rows = [], it_start = start\<rparr>)" by (rule run) (simp add: keyed_def)
  then show ?thesis using assms by (simp add: delete_ghosts_def keyed_def)
qed

text \<open>Writing and reading an address.\<close>

lemma hex_octet_text: "v < 256 \<Longrightarrow> hex_octet (hex_char (v div 16)) (hex_char (v mod 16)) = Some v"
  by (simp add: hex_octet_def hex_char_digit)

lemma mac_octets_text: "vs \<noteq> [] \<Longrightarrow> \<forall>v\<in>set vs. v < 256 \<Longrightarrow> mac_octets sep (mac_join sep vs) = Some vs"
  by (induction sep vs rule: mac_join.induct) (simp_all add: hex_octet_text)

lemma hex_digit_range: "hex_digit c = Some x \<Longrightarrow> x < 16"
  by (auto simp: hex_digit_def is_digit_def split: if_splits)

lemma hex_octet_range:
  assumes "hex_octet a b = Some v"
  shows "v < 256"
proof -
  obtain x y where "hex_digit a = Some x" "hex_digit b = Some y" "v = 16 * x + y"
    using assms by (auto simp: hex_octet_def split: option.splits)
  then show ?thesis using hex_digit_range [of a x] hex_digit_range [of b y] by simp
qed

lemma parse_mac_range: "parse_mac s = Some bs \<Longrightarrow> \<forall>v\<in>set bs. v < 256"
proof -
  have "mac_octets sep s = Some bs \<Longrightarrow> \<forall>v\<in>set bs. v < 256" for sep s bs
    by (induction sep s arbitrary: bs rule: mac_octets.induct) (auto split: option.splits list.splits if_splits dest: hex_octet_range)
  moreover have "mac_pairs s = Some bs \<Longrightarrow> \<forall>v\<in>set bs. v < 256" for s bs
    by (induction s arbitrary: bs rule: mac_pairs.induct) (auto split: option.splits list.splits if_splits dest: hex_octet_range)
  moreover assume "parse_mac s = Some bs"
  ultimately show ?thesis by (auto simp: parse_mac_def split: option.splits if_splits)
qed


definition upper_text :: "jstr \<Rightarrow> jstr" where
  "upper_text s = map (\<lambda>c. if 97 \<le> c \<and> c \<le> 122 then c - 32 else c) s"

definition dashed :: "jstr \<Rightarrow> jstr" where
  "dashed s = map (\<lambda>c. if c = 58 then 45 else c) s"

lemma join_length: "vs \<noteq> [] \<Longrightarrow> length (mac_join sep vs) + 1 = 3 * length vs"
  by (induction sep vs rule: mac_join.induct) simp_all

lemma join_second: "2 \<le> length vs \<Longrightarrow> mac_join sep vs ! 2 = sep"
  by (cases "(sep, vs)" rule: mac_join.cases) simp_all

lemma join_hex: "v < 256 \<Longrightarrow> hex_char (v div 16) \<noteq> 58 \<and> hex_char (v mod 16) \<noteq> 58"
  using hex_char_range [of "v div 16"] hex_char_range [of "v mod 16"] by linarith

lemma join_dashed: "\<forall>v\<in>set vs. v < 256 \<Longrightarrow> dashed (mac_join 58 vs) = mac_join 45 vs"
  by (induction "58 :: nat" vs rule: mac_join.induct) (simp_all add: dashed_def join_hex)

text \<open>Reading what was written, in small letters with colons or in capitals with dashes.\<close>

lemma parse_join:
  assumes "length bs = 6" "\<forall>v\<in>set bs. v < 256" "sep = 58 \<or> sep = 45"
  shows "parse_mac (mac_join sep bs) = Some bs"
proof -
  have "bs \<noteq> []" using assms(1) by auto
  then have "mac_octets sep (mac_join sep bs) = Some bs" by (rule mac_octets_text) (rule assms(2))
  moreover have "length (mac_join sep bs) = 17" using join_length [OF \<open>bs \<noteq> []\<close>, of sep] assms(1) by simp
  moreover have "mac_join sep bs ! 2 = sep" by (rule join_second) (simp add: assms(1))
  ultimately show ?thesis using assms(1,3) by (auto simp: parse_mac_def)
qed

definition address_unit :: "nat \<Rightarrow> bool" where
  "address_unit c \<longleftrightarrow> 48 \<le> c \<and> c \<le> 58 \<or> 97 \<le> c \<and> c \<le> 102 \<or> c = 45"

lemma hex_units: "v < 256 \<Longrightarrow> address_unit (hex_char (v div 16)) \<and> address_unit (hex_char (v mod 16))"
proof -
  assume "v < 256"
  then have "v div 16 < 16" "v mod 16 < 16" by simp_all
  then show ?thesis using hex_char_range [of "v div 16"] hex_char_range [of "v mod 16"] unfolding address_unit_def by linarith
qed

lemma join_units: "\<forall>v\<in>set bs. v < 256 \<Longrightarrow> address_unit sep \<Longrightarrow> \<forall>c\<in>set (mac_join sep bs). address_unit c"
  by (induction sep bs rule: mac_join.induct) (simp_all add: hex_units)

lemma no_trim:
  assumes "\<forall>c\<in>set s. \<not> go_ws c"
  shows "go_trim s = s"
proof -
  have "dropWhile go_ws t = t" if "\<forall>c\<in>set t. \<not> go_ws c" for t using that by (cases t) auto
  from this [of s] this [of "rev s"] show ?thesis using assms by (simp add: go_trim_def)
qed

lemma units_kept:
  assumes "\<forall>c\<in>set s. address_unit c"
  shows "go_trim s = s" "lower_text s = s" "go_trim (upper_text s) = upper_text s" "lower_text (upper_text s) = s"
proof -
  show "go_trim s = s" using assms by (intro no_trim) (auto simp: address_unit_def go_ws_def is_ws_def)
  show "go_trim (upper_text s) = upper_text s"
    using assms by (intro no_trim) (auto simp: address_unit_def upper_text_def go_ws_def is_ws_def)
  show "lower_text s = s" using assms unfolding lower_text_def by (intro map_idI) (auto simp: address_unit_def)
  show "lower_text (upper_text s) = s"
    using assms unfolding lower_text_def upper_text_def map_map by (intro map_idI) (auto simp: address_unit_def)
qed

lemma normal_mac_some:
  assumes "normal_mac s = Inr m" "m \<noteq> []"
  obtains bs where "m = mac_text bs" "length bs = 6" "\<forall>v\<in>set bs. v < 256" "even (hd bs)" "mac_text bs \<noteq> js ''00:00:00:00:00:00''"
  using assms by (auto simp: normal_mac_def Let_def split: if_splits option.splits dest: parse_mac_range)

text \<open>C20: An address that is accepted has one normal form: written in small letters with colons, or in capitals with dashes,
  it is the same machine with every key.\<close>

theorem mac_notations:
  assumes "normal_mac s = Inr m"
  shows "machine_key m key = machine_key s key \<and> machine_key (upper_text (dashed m)) key = machine_key s key"
proof (cases "m = []")
  case True
  then show ?thesis using assms by (simp add: machine_key_def normal_mac_def go_trim_def lower_text_def upper_text_def dashed_def)
next
  case False
  obtain bs where bs: "m = mac_text bs" "length bs = 6" "\<forall>v\<in>set bs. v < 256" "even (hd bs)" "mac_text bs \<noteq> js ''00:00:00:00:00:00''"
    using normal_mac_some [OF assms False] .
  have normal: "normal_mac t = Inr m" if "sep = 58 \<or> sep = 45" "lower_text (go_trim t) = mac_join sep bs" for t sep
  proof -
    have "mac_join sep bs \<noteq> []" using bs(2) join_length [of bs sep] by (cases "bs = []") auto
    then show ?thesis using that bs parse_join [OF bs(2,3) that(1)] by (simp add: normal_mac_def)
  qed
  have units: "address_unit 58" "address_unit 45" by (simp_all add: address_unit_def)
  have "normal_mac m = Inr m"
    using normal [of 58 m] units_kept(1,2) [OF join_units [OF bs(3) units(1)]] bs(1) by (simp add: mac_text_def)
  moreover have "normal_mac (upper_text (dashed m)) = Inr m"
    using normal [of 45 "upper_text (dashed m)"] units_kept(3,4) [OF join_units [OF bs(3) units(2)]] join_dashed [OF bs(3)] bs(1)
    by (simp add: mac_text_def)
  ultimately show ?thesis using assms by (simp add: machine_key_def)
qed


section \<open>Witnesses\<close>

definition old_table :: id_tab where
  "old_table = \<lparr>it_rows = [\<lparr>ir_id = 8, ir_mac = js ''02:00:00:00:00:08'', ir_key = []\<rparr>], it_start = Some 101\<rparr>"

lemma old_table_reach: "reach id_init any_event id_step old_table"
  by (rule reach_init) (simp add: id_init_def old_table_def)

lemma demo_mac: "normal_mac (js ''02-00-00-00-00-08'') = Inr (js ''02:00:00:00:00:08'')"
  by (simp add: normal_mac_def go_trim_def js_def go_ws_def is_ws_def lower_text_def parse_mac_def hex_octet_def hex_digit_def
      is_digit_def hex_char_def mac_text_def)

lemma no_mac: "normal_mac [] = Inr []"
  by (simp add: normal_mac_def go_trim_def lower_text_def)

lemma demo_keys: "machine_key (js ''02-00-00-00-00-08'') (js ''a'') = Inr (js ''02:00:00:00:00:08'', js ''a'')"
  "machine_key [] (js ''b'') = Inr ([], js ''b'')"
proof -
  have "go_trim (js ''a'') = js ''a''" "js ''a'' \<noteq> []" "byte_count (js ''a'') \<le> 128"
    "go_trim (js ''b'') = js ''b''" "js ''b'' \<noteq> []" "byte_count (js ''b'') \<le> 128"
    by (simp_all add: go_trim_def js_def go_ws_def is_ws_def byte_count_def unit_bytes_def)
  then show "machine_key (js ''02-00-00-00-00-08'') (js ''a'') = Inr (js ''02:00:00:00:00:08'', js ''a'')"
    "machine_key [] (js ''b'') = Inr ([], js ''b'')"
    by (simp_all add: machine_key_def demo_mac no_mac Let_def)
qed

definition adopted_table :: id_tab where
  "adopted_table = \<lparr>it_rows = [\<lparr>ir_id = 8, ir_mac = js ''02:00:00:00:00:08'', ir_key = js ''a''\<rparr>], it_start = Some 101\<rparr>"

lemma demo_assign:
  "assign_identity (js ''02-00-00-00-00-08'') (js ''a'') old_table = (Inr (8, False), adopted_table)"
  "fst (assign_identity [] (js ''b'') adopted_table) = Inr (101, True)"
proof -
  have "lower_text (js ''02:00:00:00:00:08'') = js ''02:00:00:00:00:08''" by (simp add: lower_text_def js_def)
  then show "assign_identity (js ''02-00-00-00-00-08'') (js ''a'') old_table = (Inr (8, False), adopted_table)"
    by (simp add: assign_identity_def demo_keys old_table_def adopted_table_def set_key_def js_eq) (simp add: js_def)
  show "fst (assign_identity [] (js ''b'') adopted_table) = Inr (101, True)"
    by (simp add: assign_identity_def demo_keys adopted_table_def js_eq allocate_new_def next_number_def insert_row_def Let_def)
qed

theorem number_identifies_witness:
  "\<exists>d b t. assign_identity [] (js ''b'') (run id_step [Id_start 200, Id_delete 9] adopted_table) = (Inr (d, b), t) \<and> d \<noteq> 8"
proof -
  let ?t = "run id_step [Id_start 200, Id_delete 9] adopted_table"
  have "?t = adopted_table\<lparr>it_start := Some 200\<rparr>" by (simp add: delete_row_def adopted_table_def)
  then obtain d b t where r: "assign_identity [] (js ''b'') ?t = (Inr (d, b), t)"
    by (simp add: assign_identity_def demo_keys adopted_table_def js_eq allocate_new_def next_number_def insert_row_def Let_def)
  have "d = 8 \<longleftrightarrow> js ''b'' = js ''a''"
    by (rule number_identifies [OF old_table_reach demo_keys(1) demo_assign(1), where es = "[Id_start 200, Id_delete 9]"])
      (use demo_keys(2) r in \<open>simp_all add: removes_def\<close>)
  then show ?thesis using r by (simp add: js_eq)
qed

theorem new_number_bounds_witness:
  "\<exists>d b t. assign_identity (js ''02-00-00-00-00-08'') (js ''a'') old_table = (Inr (d, b), t) \<and> 1 \<le> d"
  using new_number_bounds [OF old_table_reach demo_keys(1)] by blast

theorem mac_notations_witness:
  "machine_key (js ''02:00:00:00:00:08'') [] = machine_key (js ''02-00-00-00-00-08'') []"
  using mac_notations [OF demo_mac, of "[]"] by simp

theorem sweep_finds_none_witness:
  "\<lparr>ir_id = 1, ir_mac = [], ir_key = js ''b''\<rparr>
     \<in> set (it_rows (delete_ghosts (\<lambda>_. True) (run id_step [Id_assign [] (js ''b'')] \<lparr>it_rows = [], it_start = None\<rparr>)))"
  by (rule sweep_finds_none) (simp add: assign_identity_def demo_keys allocate_new_def next_number_def insert_row_def)

end
