(* ===== verification/Spec2Isabelle.thy ===== *)
theory Spec2Isabelle
  imports Console_Sync Hub_Presence Display_Server Queue_Requests Room_Effects Console_Link Csv_Export Device_Page Terminal_Session Page_Views
    Stage_View Settings_Forms Device_Identity
begin

text \<open>
  A controller for the machine rooms of a programming contest. A Go server runs in every room and talks
  to an agent on each contestant's machine; one server can be made the cloud, to which the servers of
  the rooms connect as relays. Two programs run in browsers: the \<^emph>\<open>display\<close>
  (\<^verbatim>\<open>internal/server/web/broadcast/display.js\<close>), a full screen carousel on the contestants' machines,
  and the \<^emph>\<open>console\<close> (\<^verbatim>\<open>frontend/src\<close>), the administrator's single page application. This
  development models these two and, where a promise spans the wire, the part of the server it rests on.

  \<^bold>\<open>The display.\<close> \<^theory_text>\<open>Display_Carousel\<close> has the arithmetic: the server's clock, the page of a
  cycle at an instant (\<^verbatim>\<open>calcSyncedPageIndex\<close>) and the time to the next switch
  (\<^verbatim>\<open>calcNextSwitchMs\<close>), against the specification that the cycle is divided into slots.
  \<^theory_text>\<open>Display_Render\<close> has what is drawn: fonts, clock, countdown, notices. \<^theory_text>\<open>Display_Machine\<close> has
  the object \<^verbatim>\<open>BroadcastDisplay\<close> as a record, each handler as a function, and the event loop as a step
  function over sockets, timers, requests and keys; a guard says which events the browser can deliver.
  Its invariants come in three layers. \<^theory_text>\<open>Display_Control\<close>: sockets and timers, for every run.
  \<^theory_text>\<open>Display_View\<close>: what the container holds, for runs with drawable pages. \<^theory_text>\<open>Display_Follow\<close>:
  what is shown, that the carousel keeps running and that it follows the server. The runs of the last two
  are those in which the server answers with drawable pages; the lemma \<^theory_text>\<open>stale_after_failed_request\<close>
  shows why the restriction is needed. \<^theory_text>\<open>Go_Carousel\<close> is the loop of the server that sends a
  display its pages (\<^verbatim>\<open>runCarousel\<close> of \<^verbatim>\<open>internal/service/broadcast_ws.go\<close>), equivalent to the arithmetic
  of the display, including the restarts of the loop: an edit starts it anew on the new list and a new setting
  after 200 ms, without a new starting time, so from then on the pages are those of a clock that began at the
  restart (\<^theory_text>\<open>carousels_agree\<close>) and not of the one the displays are told (\<^theory_text>\<open>edit_shifts_carousel\<close>).
  \<^theory_text>\<open>Display_Server\<close> composes the two: a display that is told to switch by the loop on the list it has, and
  by nothing else in between, is on the server's page.

  \<^bold>\<open>The console.\<close> \<^theory_text>\<open>Api_Route\<close> and \<^theory_text>\<open>URI_Component\<close> model \<^verbatim>\<open>lib/api.ts\<close>: which requests
  go through the cloud to the chosen room, against the filter the cloud applies to them
  (\<^verbatim>\<open>allowedRelayRequest\<close> of \<^verbatim>\<open>internal/service/federation.go\<close>). \<^theory_text>\<open>App_Nav\<close> is page, room and
  address bar; \<^theory_text>\<open>Room_Effects\<close> the order in which the effects of a render and the variable of the API
  client are updated, hence to which room each request goes; \<^theory_text>\<open>Console_Link\<close> the socket of
  administration events, its listeners, the question to the operator and the messages.
  \<^theory_text>\<open>Labels\<close>, \<^theory_text>\<open>Selection\<close> and \<^theory_text>\<open>Fleet\<close> lead from the boxes of the device table to the
  jobs the cloud stores, with the handler \<^verbatim>\<open>Queue\<close> of \<^verbatim>\<open>federation.go\<close> in full, the broadcast to every known
  room while a snapshot is active included. \<^theory_text>\<open>Command_Page\<close>
  is the table of results of a command. \<^theory_text>\<open>Checkin_Page\<close> has the check-in page, the handler of a move and the
  statements of \<^verbatim>\<open>internal/data/device_repo.go\<close> on its table; it also shows what the page should not offer
  (\<^theory_text>\<open>blank_move_checks_in\<close>, \<^theory_text>\<open>stale_checkout\<close>). \<^theory_text>\<open>Ops_Pages\<close>, \<^theory_text>\<open>Broadcast_Edit\<close> and
  \<^theory_text>\<open>Settings_Page\<close> have the other pages, their handlers as scripts of messages, questions and requests;
  \<^theory_text>\<open>Csv_Export\<close> the tables written as files and a reader for them; \<^theory_text>\<open>Overview\<close> menu, header and
  dashboard. \<^theory_text>\<open>Queue_Requests\<close> decodes, as the cloud does, every request the pages send for devices of
  several rooms, and compares it in every field with the request the operator's choice means. \<^theory_text>\<open>Broadcast_Items\<close> adds to the broadcast editor the draft of an element, every request of
  the page and what the server stores for an element (\<^verbatim>\<open>internal/service/broadcast_handler.go\<close>,
  \<^verbatim>\<open>internal/data/broadcast_repo.go\<close>). \<^theory_text>\<open>Distribute_Page\<close> is the distribution page beside the task it
  watches (\<^verbatim>\<open>internal/service/distribution.go\<close>), with answers that come late, out of order or not at all;
  \<^theory_text>\<open>Device_Page\<close> the dialog of a device with its two requests; \<^theory_text>\<open>Terminal_Session\<close> a terminal from
  the dialog over the server (\<^verbatim>\<open>internal/service/terminal_ws_handler.go\<close>) to the table of shells of the agent
  (\<^verbatim>\<open>cmd/client/main.go\<close>); \<^theory_text>\<open>Page_Views\<close> the cells and buttons of all tables, what the pages load, and
  the remaining single requests. \<^theory_text>\<open>Stage_View\<close> is the stage of the editor: what it draws for an
  element, against what the display draws, and one element with its gestures, requests and reloads.
  \<^theory_text>\<open>Settings_Forms\<close> has the forms of the settings page with every field, their requests, and the server
  that decodes (integers within 64 bits), validates and stores them and then pushes to the machines or, as a cloud,
  disconnects them (\<^verbatim>\<open>internal/service/settings_handler.go\<close>, \<^verbatim>\<open>settings.go\<close>, \<^verbatim>\<open>deployment.go\<close>); a form is a view of the settings from the time it was mounted.

  \<^bold>\<open>The room server.\<close> What the console shows of machines and commands rests on three tables of the server.
  \<^theory_text>\<open>Device_Identity\<close> is the assignment of numbers (\<^verbatim>\<open>internal/biz/id_assigner.go\<close>), with the notations of
  network addresses. \<^theory_text>\<open>Hub_Presence\<close> is the hub's table of live connections, the registration and the read loop
  of a connection, and the rows of the devices they write (\<^verbatim>\<open>internal/biz/hub.go\<close>,
  \<^verbatim>\<open>internal/service/tcp_handler.go\<close>, \<^verbatim>\<open>internal/data/device_repo.go\<close>); the history of events outlives the
  server and is trimmed, so it replays to the machines online for the events since the start only
  (\<^theory_text>\<open>old_history_misleads\<close>). \<^theory_text>\<open>Command_Server\<close> is the
  dispatcher (\<^verbatim>\<open>internal/biz/command_dispatcher.go\<close>) on the table of commands
  (\<^verbatim>\<open>internal/data/command_repo.go\<close>): requests, batches with the loops that send them, queues of machines that
  can be full, output, results and disconnects, interleaved step by step; \<^theory_text>\<open>Command_Batch\<close> and
  \<^theory_text>\<open>Command_Settle\<close> have its invariants and \<^theory_text>\<open>Command_Faults\<close> its properties and the ways results are lost.
  \<^theory_text>\<open>Console_Sync\<close> delivers the events the server announces to the table of the command page and compares the two.

  \<^bold>\<open>Base.\<close> \<^theory_text>\<open>Prelude\<close> has JavaScript numbers with \<open>NaN\<close>, reads that answer
  \<open>undefined\<close>, and reachability with the interface \<^theory_text>\<open>invariant_machine\<close>, which every state machine
  interprets: an invariant that holds at the start and is kept by every enabled event holds in every
  reachable state; and the interfaces for refinements, a machine simulated by an abstract one under such an
  invariant. \<^theory_text>\<open>JS_String\<close> has strings as lists of UTF-16 code units and the string and number
  functions of the language the code uses; \<^theory_text>\<open>Types_Model\<close> the records of \<^verbatim>\<open>lib/types.ts\<close>. The interface
  \<^theory_text>\<open>toggle_box\<close> of \<^theory_text>\<open>Selection\<close> is shared by the fleet and the picked devices of a page.

  \<^bold>\<open>Conventions.\<close> An exception is an option or a sum, or ends a script. A mutable object is a record that
  is passed on. What happens asynchronously is split at the request: one function up to it, one for its
  answer, with any events in between. The environment is a parameter: the parser of dates and of JSON, the
  zone of local time, the answers of the server, the agreement of the operator, and Go's URL parser; the
  random bytes of a key and identities of messages are arguments. Integers of the console are exact below
  2 to the 53 and are modelled as unbounded; percentages of the editor are rationals, so rounding of binary
  fractions is not modelled; the bytes of a key are words of eight bits. Recursion is structural or has a
  measure, and the polling of the distribution page is a step relation that is proved to be well founded
  once the task has ended, for any bound on the requests under way and on those that are lost; the only fuel is that of the reader of comma separated values, which is given the length of the
  text, enough for every file the console writes (\<^theory_text>\<open>csv_fuel\<close>).

  \<^bold>\<open>Properties.\<close> For the display: the page shown is the one of its slot and of the server's clock, displays
  agree, exactly one page is shown, exactly one connection is live or scheduled, the carousel does not stop
  while pages can be drawn and requests are answered.
  For the console: requests go where they should and decode to what was meant, polling ends with the task
  as long as answers arrive, the settings store what the form shows and the stage of the editor draws what the
  displays draw for the elements they treat \<open>alike\<close>, a terminal hands on what is typed unless a queue is full or
  the text reads as a control message, a command reaches exactly the devices selected, nothing
  becomes a broadcast by accident, results of devices do not mix, check-in rows are consistent. For the room
  server: a number belongs to one machine while its row is kept, who is listed as online is who is connected and
  the history since the start replays to it, no command reaches a machine twice, batches complete and
  completed batches are settled, output is bounded, and the table of the console agrees with the history.
  Several properties and lemmas state what the code does where that is not what it should
  do: requests of effects under the previous room, addresses that lose the room, results that overtake the
  answer, students lost by a move, rows checked in without a student, rules rejected for a blank row, moves undone by saving a draft, unsaved
  changes published over, a retried distribution that is not watched, terminals that share one shell, events
  of another device, a device deleted in another room.

  \<^bold>\<open>Not modelled.\<close> Of the server: relaying itself, snapshots, the transfer of files, maintenance, the reading
  of the history, cancelling, and errors of the database; the steps of its concurrent parts are statements of
  the database or turns of a loop. The agent of the contestants' machines but for its table of terminals, the
  library for multicast transfer, markup and styles, the widgets, which only choose class names, the terminal
  emulator, the built bundle. A terminal is followed to the table of shells of the agent for a machine of the
  server's own room; the way through the cloud (\<^verbatim>\<open>internal/service/federation_terminal.go\<close>) is not. That the queue
  of an agent may be full is modelled for commands and terminals, not for the pushes of settings.
\<close>

end
